(* ===== verification/Prelude.thy ===== *)
theory Prelude
  imports Main "HOL-Library.Multiset" "HOL-Library.Char_ord" "HOL-Library.List_Lexorder"
begin

text \<open>
  Shared vocabulary of the development: the collections of rewrite rules that the component
  theories fill, Go maps as association lists with pairwise different keys, and lemmas on
  rotated lists, options and sums.

  A Go map is finite, has a length and is traversed by \<open>range\<close> in an order the runtime
  chooses. The model keeps it as an association list: \<open>map_of m k\<close> is \<open>v, ok := m[k]\<close>,
  \<open>gm_put k v m\<close> is \<open>m[k] = v\<close>, \<open>gm_del k m\<close> is \<open>delete(m, k)\<close> and \<open>length m\<close> is
  \<open>len(m)\<close>. Where the visiting order can change the outcome, the operation takes the order
  as an argument; elsewhere the list order is used and a lemma shows that it is irrelevant.
\<close>

named_theorems go_defs \<open>definitions of operations, for unfolding\<close>
named_theorems inv_defs \<open>definitions of invariants, for unfolding\<close>
named_theorems frame \<open>fields that an operation leaves alone\<close>

subsection \<open>Go maps\<close>

type_synonym 'v gomap = "(string \<times> 'v) list"

fun gm_put :: "'k \<Rightarrow> 'v \<Rightarrow> ('k \<times> 'v) list \<Rightarrow> ('k \<times> 'v) list" where
  "gm_put k v [] = [(k, v)]"
| "gm_put k v ((k', v') # m) = (if k' = k then (k, v) # m else (k', v') # gm_put k v m)"

definition gm_del :: "'k \<Rightarrow> ('k \<times> 'v) list \<Rightarrow> ('k \<times> 'v) list" where
  "gm_del k m = filter (\<lambda>p. fst p \<noteq> k) m"

definition gm_wf :: "('k \<times> 'v) list \<Rightarrow> bool" where
  "gm_wf m \<longleftrightarrow> distinct (map fst m)"

lemma gm_del_simps [simp]:
  "gm_del k [] = []"
  "gm_del k ((k', v) # m) = (if k' = k then gm_del k m else (k', v) # gm_del k m)"
  by (simp_all add: gm_del_def)

lemma gm_wf_simps [simp]:
  "gm_wf []"
  "gm_wf ((k, v) # m) \<longleftrightarrow> k \<notin> fst ` set m \<and> gm_wf m"
  by (simp_all add: gm_wf_def)

lemma map_of_gm_put [simp]: "map_of (gm_put k v m) = (map_of m)(k \<mapsto> v)"
  by (induction k v m rule: gm_put.induct) (auto simp: fun_eq_iff)

lemma map_of_gm_del [simp]: "map_of (gm_del k m) = (map_of m)(k := None)"
  by (induction m) (auto simp: fun_eq_iff)

lemma keys_gm_put [simp]: "fst ` set (gm_put k v m) = insert k (fst ` set m)"
  by (induction k v m rule: gm_put.induct) auto

lemma keys_gm_del [simp]: "fst ` set (gm_del k m) = fst ` set m - {k}"
  by (auto simp: gm_del_def)

lemma gm_wf_put [simp]: "gm_wf m \<Longrightarrow> gm_wf (gm_put k v m)"
  by (induction k v m rule: gm_put.induct) auto

lemma gm_wf_del [simp]: "gm_wf m \<Longrightarrow> gm_wf (gm_del k m)"
  by (induction m) auto

lemma gm_put_new: "map_of m k = None \<Longrightarrow> gm_put k v m = m @ [(k, v)]"
  by (induction k v m rule: gm_put.induct) (auto split: if_splits)

lemma gm_del_absent: "map_of m k = None \<Longrightarrow> gm_del k m = m"
  by (induction m) (auto split: if_splits)

lemma mset_gm_del:
  "gm_wf m \<Longrightarrow> map_of m k = Some v \<Longrightarrow> mset m = add_mset (k, v) (mset (gm_del k m))"
proof (induction m)
  case Nil
  then show ?case by simp
next
  case (Cons p m)
  obtain k' v' where p: "p = (k', v')" by (cases p)
  show ?case
  proof (cases "k' = k")
    case True
    with Cons.prems p have "map_of m k = None" by (simp add: map_of_eq_None_iff)
    with True Cons.prems p show ?thesis by (simp add: gm_del_absent)
  next
    case False
    with Cons p show ?thesis by simp
  qed
qed

lemma length_gm_del:
  assumes "gm_wf m" and "map_of m k = Some v"
  shows "length m = Suc (length (gm_del k m))"
  using mset_gm_del [OF assms] by (metis size_add_mset size_mset)

lemma gm_wf_map_of: "gm_wf m \<Longrightarrow> (k, v) \<in> set m \<longleftrightarrow> map_of m k = Some v"
  by (simp add: gm_wf_def)

lemma set_gm_put_new:
  "map_of m k = None \<Longrightarrow> set (gm_put k v m) = insert (k, v) (set m)"
  by (simp add: gm_put_new)

lemma gm_wf_perm: "mset m = mset m' \<Longrightarrow> gm_wf m \<Longrightarrow> gm_wf m'"
  unfolding gm_wf_def by (metis mset_eq_imp_distinct_iff mset_map)

lemma order_keys: "mset order = mset (map fst m) \<Longrightarrow> set order = dom (map_of m)"
  by (metis dom_map_of_conv_image_fst list.set_map mset_eq_setD)

subsection \<open>Options\<close>

text \<open>Results of runs are stated as executable case expressions and used as existentials.\<close>

lemma case_Some_iff: "(case x of None \<Rightarrow> False | Some y \<Rightarrow> P y) \<longleftrightarrow> (\<exists>y. x = Some y \<and> P y)"
  by (cases x) simp_all

subsection \<open>Deleting by a predicate\<close>

text \<open>Go's \<open>slices.DeleteFunc\<close> keeps, in order, the elements on which the predicate is false.\<close>

definition DeleteFunc :: "'a list \<Rightarrow> ('a \<Rightarrow> bool) \<Rightarrow> 'a list" where
  "DeleteFunc xs p = filter (\<lambda>x. \<not> p x) xs"

lemma set_DeleteFunc [simp]: "set (DeleteFunc xs p) = {x \<in> set xs. \<not> p x}"
  by (auto simp: DeleteFunc_def)

lemma DeleteFunc_append [simp]: "DeleteFunc (xs @ ys) p = DeleteFunc xs p @ DeleteFunc ys p"
  by (simp add: DeleteFunc_def)

lemma DeleteFunc_simps [simp]:
  "DeleteFunc [] p = []"
  "DeleteFunc (x # xs) p = (if p x then DeleteFunc xs p else x # DeleteFunc xs p)"
  by (simp_all add: DeleteFunc_def)

lemma DeleteFunc_none: "(\<And>x. x \<in> set xs \<Longrightarrow> \<not> p x) \<Longrightarrow> DeleteFunc xs p = xs"
  by (simp add: DeleteFunc_def)

lemma distinct_DeleteFunc [simp]: "distinct xs \<Longrightarrow> distinct (DeleteFunc xs p)"
  by (simp add: DeleteFunc_def)

subsection \<open>Lists as circular buffers\<close>

lemma mod_Suc_eq_less: "i < (n::nat) \<Longrightarrow> Suc i mod n = (if Suc i = n then 0 else Suc i)"
  by simp

lemma mod_add_inj:
  assumes "(h + i) mod n = (h + j) mod (n::nat)" and "i < n" and "j < n"
  shows "i = j"
proof -
  from assms(1) obtain p q where "h + i + n * p = h + j + n * q"
    by (auto simp: nat_mod_eq_iff)
  then have "i mod n = j mod n" by (auto simp: nat_mod_eq_iff)
  with assms(2,3) show ?thesis by simp
qed

lemma rotate_update:
  assumes "i < length xs"
  shows "rotate h (xs[(h + i) mod length xs := v]) = (rotate h xs)[i := v]"
proof (rule nth_equalityI)
  fix j
  assume "j < length (rotate h (xs[(h + i) mod length xs := v]))"
  then have j: "j < length xs" by simp
  then have pos: "0 < length xs" by (rule le_less_trans [OF le0])
  have "(h + i) mod length xs = (h + j) mod length xs \<longleftrightarrow> i = j"
    using mod_add_inj [OF _ assms j] by auto
  with j pos assms show "rotate h (xs[(h + i) mod length xs := v]) ! j = (rotate h xs)[i := v] ! j"
    by (simp add: nth_rotate nth_list_update)
qed simp

lemma rotate_mod_Suc:
  "h < length xs \<Longrightarrow> rotate (Suc h mod length xs) xs = rotate1 (rotate h xs)"
  by (metis rotate_Suc rotate_conv_mod)

lemma take_Suc_update: "i < length xs \<Longrightarrow> take (Suc i) (xs[i := v]) = take i xs @ [v]"
  by (simp add: take_Suc_conv_app_nth)

end
