(* ===== verification/Messages.thy ===== *)
theory Messages
  imports Prelude
begin

text \<open>
  The data that the components exchange (package \<open>internal/model\<close>, the configuration of
  \<open>internal/engine/config.go\<close>) and the errors the broker returns.

  Strings are Go strings, that is byte lists, so \<open>length\<close> is Go's \<open>len\<close>. A \<open>time.Time\<close> is
  the number of nanoseconds since Go's zero time, a \<open>time.Duration\<close> a number of
  nanoseconds. A pointer to a time is an option. Go's \<open>int\<close> counters are unbounded here:
  each moves by one per operation, so \<open>2^63\<close> operations would be needed to wrap one.
\<close>

subsection \<open>Messages, deliveries and the reserved names\<close>

record message =
  ID :: string
  Payload :: string
  Timestamp :: int
  Retry :: int
  ExpiryAt :: "int option"

definition zero_message :: message where
  "zero_message = \<lparr>ID = '''', Payload = '''', Timestamp = 0, Retry = 0, ExpiryAt = None\<rparr>"

record in_flight_message =
  if_Message :: message
  if_ConsumerID :: string
  if_DeliveredAt :: int

record delivery =
  d_Message :: message
  d_AckToken :: string
  d_ConsumerID :: string

definition DefaultQueueName :: string where
  "DefaultQueueName = ''default''"

definition DefaultExchangeName :: string where
  "DefaultExchangeName = ''default''"

subsection \<open>Bindings and exchange types\<close>

record binding =
  QueueName :: string
  BindingKey :: string

datatype exchange_type = DirectExchange | FanOutExchange | TopicExchange

fun exchange_type_string :: "exchange_type \<Rightarrow> string" where
  "exchange_type_string DirectExchange = ''direct''"
| "exchange_type_string FanOutExchange = ''fanout''"
| "exchange_type_string TopicExchange = ''topic''"

subsection \<open>Log records\<close>

text \<open>
  \<open>RecordType\<close> is a string type in Go: the ten named constants, the empty string (a line
  written before the log had record types) and any other text, which \<open>Load\<close> ignores.
\<close>

datatype record_type =
    ExchangeCreated | ExchangeDeleted | QueueCreated | QueueDeleted
  | QueueBinded | QueueUnbinded | Published | Acknowledged | Requeued | DeadLettered
  | NoType | OtherType string

record log_record =
  r_Type :: record_type
  r_Exchange :: string
  r_ExchangeType :: string
  r_Queue :: string
  r_Message :: message
  r_MessageID :: string
  r_BindingKey :: string

definition zero_record :: log_record where
  "zero_record = \<lparr>r_Type = NoType, r_Exchange = '''', r_ExchangeType = '''', r_Queue = '''',
     r_Message = zero_message, r_MessageID = '''', r_BindingKey = ''''\<rparr>"

subsection \<open>Metrics\<close>

record metric =
  ProducedCount :: int
  AckedCount :: int
  DlqCount :: int
  InflightCount :: int
  RedeliveredCount :: int
  ConsumerSessionCount :: int
  QueueDepth :: int

definition zero_metric :: metric where
  "zero_metric = \<lparr>ProducedCount = 0, AckedCount = 0, DlqCount = 0, InflightCount = 0,
     RedeliveredCount = 0, ConsumerSessionCount = 0, QueueDepth = 0\<rparr>"

record queue_metric =
  qm_Name :: string
  qm_Metric :: metric

record broker_metrics =
  bm_Queues :: "queue_metric list"
  bm_Total :: metric

subsection \<open>Configuration\<close>

record config =
  AckTimeout :: int
  RedeliveryInterval :: int
  ExpiryInterval :: int
  MaxRetries :: int
  QueueSize :: int
  ConsumerPrefetch :: int

abbreviation Second :: int where
  "Second \<equiv> 1000000000"

definition DefaultConfig :: config where
  "DefaultConfig = \<lparr>AckTimeout = 100 * Second, RedeliveryInterval = 5 * Second,
     ExpiryInterval = 1 * Second, MaxRetries = 3, QueueSize = 20, ConsumerPrefetch = 10\<rparr>"

subsection \<open>Errors\<close>

text \<open>
  The sentinel errors of the engine and of the exchanges, and the errors that the log and
  the operating system hand up.
\<close>

datatype err =
    ErrQueueExists | ErrQueueNotEmpty | ErrQueueNotFound | ErrInvalidQueue | ErrBrokerClosed
  | ErrInvalidAckToken | ErrExchangeNotFound | ErrInvalidExchange | ErrInvalidExchangeType
  | ErrDefaultExchange | ErrExchangeExists | ErrExchangeNotEmpty | ErrNoRoute
  | ErrInvalidBindingKey
  | ErrBindingNotExist | ErrBindingAlreadyExist
  | ErrWALClosed | ErrWALWrite | ErrShortWrite | ErrWALSync
  | ErrWALOpen | ErrWALEntry | ErrWALRecord

end
