(* ===== verification/Ring_Buffer.thy ===== *)
theory Ring_Buffer
  imports Messages
begin

text \<open>
  The queue interface of \<open>internal/engine/queue_runtime.go\<close>, the ring buffer of
  \<open>internal/queue/ring_buffer.go\<close> that implements it and the dead-letter queue of
  \<open>internal/queue/dlq.go\<close>.

  An index outside a slice and a division by zero are run-time panics in Go: the operations
  return \<open>None\<close> there. \<open>rb_list\<close> reads a buffer as the list of queued messages, oldest
  first, and \<open>rb_invar\<close> is the invariant under which every operation is the list operation.
  The interface is the locale \<open>bounded_queue\<close>; the ring buffer is its interpretation \<open>rb\<close>.
\<close>

subsection \<open>The interface\<close>

locale bounded_queue =
  fixes push :: "'a \<Rightarrow> 'q \<Rightarrow> 'q option"
    and pop :: "'q \<Rightarrow> ('a \<times> 'q) option"
    and peek :: "'q \<Rightarrow> 'a option"
    and size :: "'q \<Rightarrow> int"
    and capacity :: "'q \<Rightarrow> int"
    and content :: "'q \<Rightarrow> 'a list"
    and invar :: "'q \<Rightarrow> bool"
  assumes size_content: "invar q \<Longrightarrow> size q = int (length (content q))"
    and size_le_capacity: "invar q \<Longrightarrow> size q \<le> capacity q"
    and push_law: "invar q \<Longrightarrow> size q \<noteq> capacity q \<Longrightarrow>
      \<exists>q'. push x q = Some q' \<and> invar q' \<and> content q' = content q @ [x]
        \<and> capacity q' = capacity q"
    and pop_law: "invar q \<Longrightarrow> content q = x # xs \<Longrightarrow>
      \<exists>q'. pop q = Some (x, q') \<and> invar q' \<and> content q' = xs \<and> capacity q' = capacity q"
    and peek_law: "invar q \<Longrightarrow> content q = x # xs \<Longrightarrow> peek q = Some x"
begin

lemma push_content:
  assumes "invar q" and "size q \<noteq> capacity q" and "push x q = Some q'"
  shows "invar q'" and "content q' = content q @ [x]" and "capacity q' = capacity q"
    and "size q' = size q + 1"
  using push_law [OF assms(1,2), of x] assms size_content [of q] size_content [of q'] by auto

lemma push_ok: "invar q \<Longrightarrow> size q \<noteq> capacity q \<Longrightarrow> \<exists>q'. push x q = Some q'"
  using push_law by blast

lemma nonempty: "invar q \<Longrightarrow> 0 < size q \<longleftrightarrow> content q \<noteq> []"
  by (simp add: size_content)

lemma pop_ok: "invar q \<Longrightarrow> 0 < size q \<Longrightarrow> \<exists>x q'. pop q = Some (x, q')"
  using pop_law nonempty by (metis neq_Nil_conv)

lemma peek_ok: "invar q \<Longrightarrow> 0 < size q \<Longrightarrow> peek q = Some (hd (content q))"
  using peek_law nonempty by (metis list.exhaust_sel)

lemma pop_content:
  assumes "invar q" and "0 < size q" and "pop q = Some (x, q')"
  shows "invar q'" and "content q = x # content q'" and "capacity q' = capacity q"
    and "size q' = size q - 1" and "peek q = Some x"
proof -
  from assms nonempty obtain y ys where ys: "content q = y # ys" by (metis neq_Nil_conv)
  from pop_law [OF assms(1) ys] assms(3) peek_law [OF assms(1) ys] assms(1) size_content ys
  show "invar q'" and "content q = x # content q'" and "capacity q' = capacity q"
    and "size q' = size q - 1" and "peek q = Some x"
    by auto
qed

end

subsection \<open>The ring buffer\<close>

record ring_buffer =
  rb_items :: "message list"
  rb_head :: nat
  rb_tail :: nat
  rb_size :: int
  rb_cap :: nat

definition NewRingBufferQueue :: "int \<Rightarrow> ring_buffer option" where
  "NewRingBufferQueue capacity =
     (if capacity < 0 then None
      else Some \<lparr>rb_items = replicate (nat capacity) zero_message, rb_head = 0, rb_tail = 0,
        rb_size = 0, rb_cap = nat capacity\<rparr>)"

definition rb_Push :: "message \<Rightarrow> ring_buffer \<Rightarrow> ring_buffer option" where
  "rb_Push m q =
     (if rb_tail q < length (rb_items q) \<and> rb_cap q \<noteq> 0
      then Some (q\<lparr>rb_items := (rb_items q)[rb_tail q := m],
                   rb_tail := (rb_tail q + 1) mod rb_cap q,
                   rb_size := rb_size q + 1\<rparr>)
      else None)"

definition rb_Pop :: "ring_buffer \<Rightarrow> (message \<times> ring_buffer) option" where
  "rb_Pop q =
     (if rb_head q < length (rb_items q) \<and> rb_cap q \<noteq> 0
      then Some (rb_items q ! rb_head q,
                 q\<lparr>rb_items := (rb_items q)[rb_head q := zero_message],
                   rb_head := (rb_head q + 1) mod rb_cap q,
                   rb_size := rb_size q - 1\<rparr>)
      else None)"

definition rb_Peek :: "ring_buffer \<Rightarrow> message option" where
  "rb_Peek q = (if rb_head q < length (rb_items q) then Some (rb_items q ! rb_head q) else None)"

definition rb_Size :: "ring_buffer \<Rightarrow> int" where
  "rb_Size q = rb_size q"

definition rb_Capacity :: "ring_buffer \<Rightarrow> int" where
  "rb_Capacity q = int (rb_cap q)"

subsection \<open>The ring buffer is a bounded first-in first-out queue\<close>

definition rb_list :: "ring_buffer \<Rightarrow> message list" where
  "rb_list q = take (nat (rb_size q)) (rotate (rb_head q) (rb_items q))"

definition rb_invar :: "ring_buffer \<Rightarrow> bool" where
  "rb_invar q \<longleftrightarrow> length (rb_items q) = rb_cap q \<and> 0 \<le> rb_size q \<and> rb_size q \<le> int (rb_cap q)
     \<and> (0 < rb_cap q \<longrightarrow> rb_head q < rb_cap q)
     \<and> (0 < rb_cap q \<longrightarrow> rb_tail q = (rb_head q + nat (rb_size q)) mod rb_cap q)"

lemmas rb_defs = rb_Push_def rb_Pop_def rb_Peek_def rb_Size_def rb_Capacity_def

lemma rb_Push_correct:
  assumes inv: "rb_invar q" and room: "rb_Size q \<noteq> rb_Capacity q"
  shows "\<exists>q'. rb_Push m q = Some q' \<and> rb_invar q' \<and> rb_list q' = rb_list q @ [m]
    \<and> rb_Capacity q' = rb_Capacity q"
proof -
  let ?n = "nat (rb_size q)" and ?c = "rb_cap q" and ?h = "rb_head q"
  from inv room have n: "?n < ?c" and len: "length (rb_items q) = ?c" and h: "?h < ?c"
    and t: "rb_tail q = (?h + ?n) mod ?c" and n0: "0 \<le> rb_size q"
    by (auto simp: rb_invar_def rb_defs)
  have pos: "0 < ?c" using n by (rule le_less_trans [OF le0])
  let ?q = "q\<lparr>rb_items := (rb_items q)[rb_tail q := m],
              rb_tail := (rb_tail q + 1) mod ?c, rb_size := rb_size q + 1\<rparr>"
  have push: "rb_Push m q = Some ?q"
    using pos t len by (simp add: rb_Push_def)
  have sz: "nat (rb_size q + 1) = Suc ?n" using n0 by simp
  have "(rb_tail q + 1) mod ?c = (?h + Suc ?n) mod ?c"
    by (simp add: t mod_Suc_eq)
  then have inv': "rb_invar ?q"
    using n n0 len h sz by (auto simp: rb_invar_def)
  have "rb_list ?q = take (Suc ?n) ((rotate ?h (rb_items q))[?n := m])"
    using rotate_update [of ?n "rb_items q" ?h m] n len t sz by (simp add: rb_list_def)
  also have "\<dots> = rb_list q @ [m]"
    using n len by (simp add: take_Suc_update rb_list_def)
  finally show ?thesis using push inv' by (simp add: rb_Capacity_def)
qed

lemma rb_list_Cons:
  assumes inv: "rb_invar q" and xs: "rb_list q = x # xs"
  shows "0 < rb_size q" and "rb_head q < length (rb_items q)"
    and "rb_items q ! rb_head q = x" and "0 < rb_cap q"
    and "rotate (rb_head q) (rb_items q) = x # tl (rotate (rb_head q) (rb_items q))"
proof -
  from xs have n: "0 < rb_size q" by (cases "rb_size q \<le> 0") (auto simp: rb_list_def)
  then show "0 < rb_size q" .
  from n inv show c: "0 < rb_cap q" by (auto simp: rb_invar_def)
  with inv show h: "rb_head q < length (rb_items q)" by (simp add: rb_invar_def)
  from xs show rot: "rotate (rb_head q) (rb_items q) = x # tl (rotate (rb_head q) (rb_items q))"
    by (cases "rotate (rb_head q) (rb_items q)") (auto simp: rb_list_def take_Cons split: nat.splits)
  have "rotate (rb_head q) (rb_items q) ! 0 = rb_items q ! rb_head q"
    using h by (subst nth_rotate) auto
  with rot show "rb_items q ! rb_head q = x" by (metis nth_Cons_0)
qed

lemma rb_Pop_correct:
  assumes inv: "rb_invar q" and xs: "rb_list q = x # xs"
  shows "\<exists>q'. rb_Pop q = Some (x, q') \<and> rb_invar q' \<and> rb_list q' = xs
    \<and> rb_Capacity q' = rb_Capacity q"
proof -
  let ?n = "nat (rb_size q)" and ?c = "rb_cap q" and ?h = "rb_head q"
  let ?r = "rotate ?h (rb_items q)"
  note f = rb_list_Cons [OF inv xs]
  have len: "length (rb_items q) = ?c" and n: "?n \<le> ?c" and n0: "0 < ?n"
    and t: "rb_tail q = (?h + ?n) mod ?c"
    using inv f(1,4) by (auto simp: rb_invar_def)
  let ?q = "q\<lparr>rb_items := (rb_items q)[?h := zero_message],
              rb_head := (?h + 1) mod ?c, rb_size := rb_size q - 1\<rparr>"
  have pop: "rb_Pop q = Some (x, ?q)"
    using f by (simp add: rb_Pop_def)
  have sz: "nat (rb_size q - 1) = ?n - 1" by simp
  have "rb_tail q = (Suc ?h mod ?c + (?n - 1)) mod ?c"
    using t n0 by (cases ?n) (simp_all add: mod_add_left_eq)
  then have inv': "rb_invar ?q"
    using inv f(1,4) sz by (auto simp: rb_invar_def)
  have "rotate ?h ((rb_items q)[?h := zero_message]) = ?r[0 := zero_message]"
    using rotate_update [of 0 "rb_items q" ?h zero_message] f(2,4) len by simp
  then have "rotate (Suc ?h mod ?c) ((rb_items q)[?h := zero_message])
      = tl ?r @ [zero_message]"
    using rotate_mod_Suc [of ?h "(rb_items q)[?h := zero_message]"] f(2,5) len
    by (metis length_list_update list_update_code(2) rotate1.simps(2))
  then have "rb_list ?q = take (?n - 1) (tl ?r @ [zero_message])"
    using sz by (simp add: rb_list_def)
  also have "\<dots> = take (?n - 1) (tl ?r)" using n len by simp
  also have "\<dots> = xs" using xs f(5) n0
    by (metis rb_list_def list.sel(3) tl_take)
  finally show ?thesis using pop inv' by (simp add: rb_Capacity_def)
qed

interpretation rb: bounded_queue rb_Push rb_Pop rb_Peek rb_Size rb_Capacity rb_list rb_invar
proof unfold_locales
  fix q x xs
  assume "rb_invar q"
  then show "rb_Size q = int (length (rb_list q))" and "rb_Size q \<le> rb_Capacity q"
    by (auto simp: rb_invar_def rb_defs rb_list_def min_def)
  assume "rb_list q = x # xs"
  with \<open>rb_invar q\<close> show "rb_Peek q = Some x"
    by (simp add: rb_Peek_def rb_list_Cons)
qed (rule rb_Push_correct rb_Pop_correct; assumption)+

lemma NewRingBufferQueue_correct:
  "0 \<le> c \<Longrightarrow> \<exists>q. NewRingBufferQueue c = Some q \<and> rb_invar q \<and> rb_list q = [] \<and> rb_Capacity q = c"
  by (auto simp: NewRingBufferQueue_def rb_invar_def rb_list_def rb_Capacity_def)

text \<open>
  \<open>Push\<close> has no guard of its own. On a full buffer the tail is the head, so the new message
  replaces the oldest one and the size exceeds the capacity.
\<close>

lemma rb_Push_full:
  assumes inv: "rb_invar q" and full: "rb_Size q = rb_Capacity q" and c: "0 < rb_Capacity q"
  obtains q' where "rb_Push m q = Some q'" and "rb_list q' = m # tl (rb_list q)"
    and "rb_Size q' = rb_Capacity q' + 1"
proof -
  let ?h = "rb_head q"
  let ?q = "q\<lparr>rb_items := (rb_items q)[rb_tail q := m],
              rb_tail := (rb_tail q + 1) mod rb_cap q, rb_size := rb_size q + 1\<rparr>"
  from inv full c have len: "length (rb_items q) = rb_cap q" and h: "?h < rb_cap q"
    and t: "rb_tail q = ?h" and sz: "rb_size q = int (rb_cap q)"
    by (auto simp: rb_invar_def rb_defs)
  have "rb_list ?q = rotate ?h ((rb_items q)[?h := m])"
    using sz len t by (simp add: rb_list_def nat_add_distrib)
  also have "\<dots> = (rotate ?h (rb_items q))[0 := m]"
    using rotate_update [of 0 "rb_items q" ?h m] h len by auto
  also have "\<dots> = m # tl (rotate ?h (rb_items q))"
    using h len by (cases "rotate ?h (rb_items q)") auto
  finally have "rb_list ?q = m # tl (rb_list q)"
    using sz len by (simp add: rb_list_def)
  moreover have "rb_Push m q = Some ?q" using t h len by (simp add: rb_Push_def)
  moreover have "rb_Size ?q = rb_Capacity ?q + 1" using sz by (simp add: rb_defs)
  ultimately show thesis using that by blast
qed

subsection \<open>Runs of the buffer against a list\<close>

text \<open>
  A client of the interface issues pushes and pops. \<open>list_run\<close> is the specification: a list
  of at most \<open>c\<close> messages on which a push of a full queue and a pop of an empty one are
  refused; \<open>rb_run\<close> runs the same calls on the ring buffer.
\<close>

datatype rb_op = PushOp message | PopOp

fun rb_run :: "rb_op list \<Rightarrow> ring_buffer \<Rightarrow> (message list \<times> ring_buffer) option" where
  "rb_run [] q = Some ([], q)"
| "rb_run (PushOp m # ops) q =
     (case rb_Push m q of None \<Rightarrow> None | Some q' \<Rightarrow> rb_run ops q')"
| "rb_run (PopOp # ops) q =
     (case rb_Pop q of None \<Rightarrow> None
      | Some (m, q') \<Rightarrow> map_option (\<lambda>(out, r). (m # out, r)) (rb_run ops q'))"

fun list_run :: "nat \<Rightarrow> rb_op list \<Rightarrow> message list \<Rightarrow> (message list \<times> message list) option" where
  "list_run c [] xs = Some ([], xs)"
| "list_run c (PushOp m # ops) xs =
     (if length xs < c then list_run c ops (xs @ [m]) else None)"
| "list_run c (PopOp # ops) [] = None"
| "list_run c (PopOp # ops) (x # xs) =
     map_option (\<lambda>(out, ys). (x # out, ys)) (list_run c ops xs)"

lemma rb_run_simulates:
  "list_run c ops (rb_list q) = Some (out, ys) \<Longrightarrow> rb_invar q \<Longrightarrow> rb_Capacity q = int c \<Longrightarrow>
   \<exists>q'. rb_run ops q = Some (out, q') \<and> rb_list q' = ys \<and> rb_invar q'"
proof (induction ops arbitrary: q out)
  case Nil
  then show ?case by simp
next
  case (Cons opn ops)
  show ?case
  proof (cases opn)
    case (PushOp m)
    with Cons.prems have room: "length (rb_list q) < c"
      and run: "list_run c ops (rb_list q @ [m]) = Some (out, ys)" by (auto split: if_splits)
    then have "rb_Size q \<noteq> rb_Capacity q" using Cons.prems rb.size_content by simp
    from rb.push_law [OF Cons.prems(2) this, of m] obtain r where
      "rb_Push m q = Some r" "rb_invar r" "rb_list r = rb_list q @ [m]"
      "rb_Capacity r = rb_Capacity q" by blast
    with Cons.IH [of r out] run Cons.prems(3) PushOp show ?thesis by simp
  next
    case PopOp
    with Cons.prems obtain x xs out' where xs: "rb_list q = x # xs" and "out = x # out'"
      and "list_run c ops xs = Some (out', ys)" by (cases "rb_list q") auto
    moreover from rb.pop_law [OF Cons.prems(2) xs] obtain r where
      "rb_Pop q = Some (x, r)" "rb_invar r" "rb_list r = xs" "rb_Capacity r = rb_Capacity q"
      by blast
    ultimately show ?thesis using Cons.IH [of r out'] Cons.prems(3) PopOp by auto
  qed
qed

subsection \<open>The dead-letter queue\<close>

record dlq =
  dlq_messages :: "message list"

definition NewDLQ :: dlq where
  "NewDLQ = \<lparr>dlq_messages = []\<rparr>"

definition dlq_Push :: "message \<Rightarrow> dlq \<Rightarrow> dlq" where
  "dlq_Push m q = q\<lparr>dlq_messages := dlq_messages q @ [m]\<rparr>"

definition dlq_Peek :: "dlq \<Rightarrow> message option" where
  "dlq_Peek q =
     (if length (dlq_messages q) = 0 then None
      else Some (dlq_messages q ! (length (dlq_messages q) - 1)))"

definition dlq_Size :: "dlq \<Rightarrow> int" where
  "dlq_Size q = int (length (dlq_messages q))"

locale dead_letter_queue =
  fixes push :: "'a \<Rightarrow> 'q \<Rightarrow> 'q"
    and peek :: "'q \<Rightarrow> 'a option"
    and size :: "'q \<Rightarrow> int"
    and content :: "'q \<Rightarrow> 'a list"
  assumes push_appends: "content (push x q) = content q @ [x]"
    and peek_last: "peek q = (if content q = [] then None else Some (last (content q)))"
    and size_counts: "size q = int (length (content q))"
begin

lemma peek_push: "peek (push x q) = Some x"
  by (simp add: peek_last push_appends)

lemma size_push: "size (push x q) = size q + 1"
  by (simp add: size_counts push_appends)

lemma push_keeps: "y \<in> set (content q) \<Longrightarrow> y \<in> set (content (push x q))"
  by (simp add: push_appends)

end

interpretation dl: dead_letter_queue dlq_Push dlq_Peek dlq_Size dlq_messages
  by unfold_locales (auto simp: dlq_Push_def dlq_Peek_def dlq_Size_def last_conv_nth)

subsection \<open>Properties\<close>

text \<open>
  C12. A ring buffer created with capacity c refines a first-in first-out list bounded by c:
  for every sequence of pushes and pops in which no push meets a full list and no pop an
  empty one, the buffer runs without a panic, returns the same messages in the same order
  and ends holding the same list.
\<close>

theorem ring_buffer_refines_fifo:
  assumes "NewRingBufferQueue (int c) = Some q"
    and "list_run c ops [] = Some (out, ys)"
  shows "\<exists>q'. rb_run ops q = Some (out, q') \<and> rb_list q' = ys"
proof -
  from assms(1) NewRingBufferQueue_correct [of "int c"]
  have "rb_invar q" "rb_list q = []" "rb_Capacity q = int c" by auto
  with rb_run_simulates [of c ops q out ys] assms(2) show ?thesis by auto
qed

theorem ring_buffer_refines_fifo_witness:
  "\<exists>q q'. NewRingBufferQueue 2 = Some q
     \<and> rb_run [PushOp (zero_message\<lparr>ID := ''a''\<rparr>), PushOp (zero_message\<lparr>ID := ''b''\<rparr>), PopOp,
          PushOp (zero_message\<lparr>ID := ''c''\<rparr>), PopOp] q
        = Some ([zero_message\<lparr>ID := ''a''\<rparr>, zero_message\<lparr>ID := ''b''\<rparr>], q')
     \<and> rb_list q' = [zero_message\<lparr>ID := ''c''\<rparr>]"
proof -
  obtain q where q: "NewRingBufferQueue (int 2) = Some q"
    using NewRingBufferQueue_correct [of "int 2"] by auto
  have run: "list_run 2 [PushOp (zero_message\<lparr>ID := ''a''\<rparr>), PushOp (zero_message\<lparr>ID := ''b''\<rparr>), PopOp,
          PushOp (zero_message\<lparr>ID := ''c''\<rparr>), PopOp] []
        = Some ([zero_message\<lparr>ID := ''a''\<rparr>, zero_message\<lparr>ID := ''b''\<rparr>], [zero_message\<lparr>ID := ''c''\<rparr>])"
    by simp
  from ring_buffer_refines_fifo [OF q run] q show ?thesis by auto
qed

end
