(* ===== verification/Inflight_Manager.thy ===== *)
theory Inflight_Manager
  imports Messages
begin

text \<open>
  The clock, the in-flight manager of \<open>internal/inflight/manager.go\<close> and the consumer
  sessions of \<open>internal/session/session.go\<close>.

  \<open>time.Now\<close> is a stream of readings and a position in it: every call takes the next reading,
  so two calls in one operation may see different times. The manager is a map from ack tokens
  to messages; its interface is the locale \<open>in_flight\<close>, interpreted as \<open>ifm\<close>.
\<close>

subsection \<open>The clock\<close>

record clock =
  readings :: "nat \<Rightarrow> int"
  ticks :: nat

definition time_Now :: "clock \<Rightarrow> int \<times> clock" where
  "time_Now c = (readings c (ticks c), c\<lparr>ticks := ticks c + 1\<rparr>)"

lemma time_Now_simps [simp]:
  "fst (time_Now c) = readings c (ticks c)"
  "readings (snd (time_Now c)) = readings c"
  "ticks (snd (time_Now c)) = Suc (ticks c)"
  by (simp_all add: time_Now_def)

subsection \<open>The in-flight manager\<close>

record manager =
  deliveries :: "in_flight_message gomap"

definition NewManager :: manager where
  "NewManager = \<lparr>deliveries = []\<rparr>"

definition mgr_Add :: "string \<Rightarrow> message \<Rightarrow> string \<Rightarrow> clock \<Rightarrow> manager \<Rightarrow> manager \<times> clock" where
  "mgr_Add token m sessionID c mgr =
     (let (now, c) = time_Now c
      in (mgr\<lparr>deliveries := gm_put token
            \<lparr>if_Message = m, if_ConsumerID = sessionID, if_DeliveredAt = now\<rparr> (deliveries mgr)\<rparr>, c))"

definition mgr_Remove :: "string \<Rightarrow> manager \<Rightarrow> in_flight_message option \<times> manager" where
  "mgr_Remove token mgr =
     (case map_of (deliveries mgr) token of
        None \<Rightarrow> (None, mgr)
      | Some inflight \<Rightarrow> (Some inflight, mgr\<lparr>deliveries := gm_del token (deliveries mgr)\<rparr>))"

definition mgr_Get :: "string \<Rightarrow> manager \<Rightarrow> in_flight_message option" where
  "mgr_Get token mgr = map_of (deliveries mgr) token"

text \<open>
  \<open>Expired\<close> ranges over the map and compares each entry's age, read from the clock at that
  entry, with the timeout. \<open>order\<close> is the order in which the runtime visits the keys.
\<close>

fun mgr_Expired :: "int \<Rightarrow> string list \<Rightarrow> manager \<Rightarrow> clock \<Rightarrow> delivery list \<times> clock" where
  "mgr_Expired timeout [] mgr c = ([], c)"
| "mgr_Expired timeout (idx # order) mgr c =
     (case map_of (deliveries mgr) idx of
        None \<Rightarrow> mgr_Expired timeout order mgr c
      | Some item \<Rightarrow>
          (let (now, c1) = time_Now c;
               (rest, c2) = mgr_Expired timeout order mgr c1
           in (if now - if_DeliveredAt item > timeout
               then \<lparr>d_Message = if_Message item, d_AckToken = idx,
                     d_ConsumerID = if_ConsumerID item\<rparr> # rest
               else rest, c2)))"

definition mgr_IsPresent :: "string \<Rightarrow> manager \<Rightarrow> bool" where
  "mgr_IsPresent token mgr = (case map_of (deliveries mgr) token of None \<Rightarrow> False | Some _ \<Rightarrow> True)"

definition mgr_Size :: "manager \<Rightarrow> int" where
  "mgr_Size mgr = int (length (deliveries mgr))"

definition mgr_invar :: "manager \<Rightarrow> bool" where
  "mgr_invar mgr \<longleftrightarrow> gm_wf (deliveries mgr)"

definition mgr_messages :: "manager \<Rightarrow> message multiset" where
  "mgr_messages mgr = image_mset (\<lambda>p. if_Message (snd p)) (mset (deliveries mgr))"

lemmas mgr_defs = mgr_Add_def mgr_Remove_def mgr_Get_def mgr_IsPresent_def mgr_Size_def
  mgr_invar_def mgr_messages_def

subsection \<open>The interface of the manager\<close>

locale in_flight =
  fixes add :: "'t \<Rightarrow> 'm \<Rightarrow> 'i \<Rightarrow> 'c \<Rightarrow> 'q \<Rightarrow> 'q \<times> 'c"
    and remove :: "'t \<Rightarrow> 'q \<Rightarrow> 'e option \<times> 'q"
    and get :: "'t \<Rightarrow> 'q \<Rightarrow> 'e option"
    and len :: "'q \<Rightarrow> int"
    and message_of :: "'e \<Rightarrow> 'm"
    and consumer_of :: "'e \<Rightarrow> 'i"
    and content :: "'q \<Rightarrow> 'm multiset"
    and invar :: "'q \<Rightarrow> bool"
  assumes get_add: "get t' (fst (add t m i c q)) =
      (if t' = t then get t (fst (add t m i c q)) else get t' q)"
    and get_added: "\<exists>e. get t (fst (add t m i c q)) = Some e \<and> message_of e = m \<and> consumer_of e = i"
    and remove_result: "fst (remove t q) = get t q"
    and get_remove: "invar q \<Longrightarrow> get t' (snd (remove t q)) = (if t' = t then None else get t' q)"
    and content_add: "invar q \<Longrightarrow> get t q = None \<Longrightarrow>
      content (fst (add t m i c q)) = add_mset m (content q)"
    and content_remove: "invar q \<Longrightarrow> get t q = Some e \<Longrightarrow>
      content q = add_mset (message_of e) (content (snd (remove t q)))"
    and size_content: "invar q \<Longrightarrow> len q = int (size (content q))"
    and invar_add: "invar q \<Longrightarrow> invar (fst (add t m i c q))"
    and invar_remove: "invar q \<Longrightarrow> invar (snd (remove t q))"
begin

lemma remove_idem: "invar q \<Longrightarrow> fst (remove t (snd (remove t q))) = None"
  by (simp add: remove_result get_remove)

lemma size_add: "invar q \<Longrightarrow> get t q = None \<Longrightarrow> len (fst (add t m i c q)) = len q + 1"
  by (simp add: size_content invar_add content_add)

lemma size_remove: "invar q \<Longrightarrow> get t q = Some e \<Longrightarrow> len (snd (remove t q)) = len q - 1"
  using content_remove [of q t e] by (simp add: size_content invar_remove)

lemma get_in_content: "invar q \<Longrightarrow> get t q = Some e \<Longrightarrow> message_of e \<in># content q"
  by (metis content_remove union_single_eq_member)

lemma size_zero: "invar q \<Longrightarrow> len q = 0 \<longleftrightarrow> content q = {#}"
  by (simp add: size_content)

end

lemma mgr_Remove_absent: "mgr_Get t q = None \<Longrightarrow> mgr_Remove t q = (None, q)"
  by (simp add: mgr_defs)

interpretation ifm: in_flight mgr_Add mgr_Remove mgr_Get mgr_Size if_Message if_ConsumerID
  mgr_messages mgr_invar
proof unfold_locales
  fix q t m i c and e :: in_flight_message
  assume wf: "mgr_invar q"
  show "mgr_Get t q = None \<Longrightarrow>
      mgr_messages (fst (mgr_Add t m i c q)) = add_mset m (mgr_messages q)"
    by (simp add: mgr_defs time_Now_def gm_put_new)
  assume "mgr_Get t q = Some e"
  with wf show "mgr_messages q = add_mset (if_Message e) (mgr_messages (snd (mgr_Remove t q)))"
    by (simp add: mgr_defs mset_gm_del)
qed (auto simp: mgr_defs time_Now_def split: option.splits)

subsection \<open>What Expired returns\<close>

lemma mgr_Expired_entry:
  "d \<in> set (fst (mgr_Expired timeout order mgr c)) \<Longrightarrow>
   d_AckToken d \<in> set order \<and>
   (\<exists>e. mgr_Get (d_AckToken d) mgr = Some e \<and> if_Message e = d_Message d
      \<and> if_ConsumerID e = d_ConsumerID d)"
  by (induction timeout order mgr c rule: mgr_Expired.induct)
    (auto simp: Let_def mgr_Get_def split: option.splits if_splits prod.splits)

lemma mgr_Expired_distinct:
  "distinct order \<Longrightarrow> distinct (map d_AckToken (fst (mgr_Expired timeout order mgr c)))"
proof (induction timeout order mgr c rule: mgr_Expired.induct)
  case (2 timeout idx order mgr c)
  show ?case
  proof (cases "map_of (deliveries mgr) idx")
    case None
    with 2 show ?thesis by simp
  next
    case (Some item)
    let ?c = "snd (time_Now c)"
    have "distinct (map d_AckToken (fst (mgr_Expired timeout order mgr ?c)))"
      using 2 Some by (cases "time_Now c") auto
    moreover have "idx \<notin> d_AckToken ` set (fst (mgr_Expired timeout order mgr ?c))"
      using 2(3) mgr_Expired_entry by fastforce
    ultimately show ?thesis using Some
      by (cases "time_Now c"; cases "mgr_Expired timeout order mgr ?c") (auto simp: Let_def)
  qed
qed simp

lemma mgr_Expired_Some:
  assumes "map_of (deliveries mgr) idx = Some item"
  shows "fst (mgr_Expired timeout (idx # order) mgr c) =
     (if readings c (ticks c) - if_DeliveredAt item > timeout
      then [\<lparr>d_Message = if_Message item, d_AckToken = idx, d_ConsumerID = if_ConsumerID item\<rparr>]
      else []) @ fst (mgr_Expired timeout order mgr (snd (time_Now c)))"
    and "snd (mgr_Expired timeout (idx # order) mgr c)
       = snd (mgr_Expired timeout order mgr (snd (time_Now c)))"
  using assms by (auto simp: Let_def time_Now_def split: prod.splits)

lemma mgr_Expired_None:
  "map_of (deliveries mgr) idx = None \<Longrightarrow>
   mgr_Expired timeout (idx # order) mgr c = mgr_Expired timeout order mgr c"
  by simp

declare mgr_Expired.simps(2) [simp del]

lemmas mgr_Expired_cases = mgr_Expired_None mgr_Expired_Some

lemma mgr_Expired_readings [frame]:
  "readings (snd (mgr_Expired timeout order mgr c)) = readings c"
proof (induction order arbitrary: c)
  case (Cons idx order)
  then show ?case by (cases "map_of (deliveries mgr) idx") (simp_all add: mgr_Expired_cases)
qed simp

lemma mgr_Expired_ticks: "ticks c \<le> ticks (snd (mgr_Expired timeout order mgr c))"
proof (induction order arbitrary: c)
  case (Cons idx order)
  from Cons [of c] Cons [of "snd (time_Now c)"] show ?case
    by (cases "map_of (deliveries mgr) idx") (simp_all add: mgr_Expired_cases)
qed simp

lemma mgr_Expired_complete:
  "mono (readings c) \<Longrightarrow> k \<in> set order \<Longrightarrow> mgr_Get k mgr = Some e \<Longrightarrow>
   readings c (ticks c) - if_DeliveredAt e > timeout \<Longrightarrow>
   k \<in> d_AckToken ` set (fst (mgr_Expired timeout order mgr c))"
proof (induction order arbitrary: c)
  case Nil
  then show ?case by simp
next
  case (Cons idx order)
  let ?c = "snd (time_Now c)"
  have later: "readings ?c (ticks ?c) - if_DeliveredAt e > timeout"
    using Cons.prems(4) monoD [OF Cons.prems(1), of "ticks c" "Suc (ticks c)"] by simp
  show ?case
  proof (cases "map_of (deliveries mgr) idx")
    case None
    with Cons show ?thesis by (auto simp: mgr_Get_def mgr_Expired_None)
  next
    case (Some item)
    show ?thesis
    proof (cases "k = idx")
      case True
      with Some Cons.prems show ?thesis by (simp add: mgr_Expired_Some mgr_Get_def)
    next
      case False
      with Cons.prems(1-3) later have "k \<in> d_AckToken ` set (fst (mgr_Expired timeout order mgr ?c))"
        by (intro Cons.IH) auto
      with Some show ?thesis by (auto simp: mgr_Expired_Some)
    qed
  qed
qed

lemma mgr_Expired_sound:
  "d \<in> set (fst (mgr_Expired timeout order mgr c)) \<Longrightarrow>
   \<exists>e t. mgr_Get (d_AckToken d) mgr = Some e \<and> ticks c \<le> t
     \<and> t < ticks (snd (mgr_Expired timeout order mgr c))
     \<and> readings c t - if_DeliveredAt e > timeout"
proof (induction order arbitrary: c)
  case Nil
  then show ?case by simp
next
  case (Cons idx order)
  let ?c = "snd (time_Now c)"
  show ?case
  proof (cases "map_of (deliveries mgr) idx")
    case None
    with Cons show ?thesis by (auto simp: mgr_Expired_None)
  next
    case (Some item)
    note E = mgr_Expired_Some [OF Some, of timeout order c]
    consider "d \<in> set (fst (mgr_Expired timeout order mgr ?c))"
      | "readings c (ticks c) - if_DeliveredAt item > timeout" "d_AckToken d = idx"
      using Cons.prems E(1) by (auto split: if_splits)
    then show ?thesis
    proof cases
      case 1
      from Cons.IH [OF this] E(2) show ?thesis
        by (metis Suc_leD time_Now_simps(2,3))
    next
      case 2
      with Some E(2) mgr_Expired_ticks [of ?c timeout order mgr] show ?thesis
        by (auto simp: mgr_Get_def intro!: exI [of _ "ticks c"])
    qed
  qed
qed

subsection \<open>Consumer sessions\<close>

text \<open>
  A session is a heap object: the queue runtime, the distributor and the connection that
  serves the consumer hold the same pointer. \<open>Deliveries\<close> is a channel with room for 100
  deliveries, \<open>Closed\<close> a channel whose closing \<open>closeOnce\<close> makes idempotent.
\<close>

record consumer_session =
  cs_ID :: string
  Deliveries :: "delivery list"
  Closed :: bool
  UnackedCount :: int

definition DeliveriesCap :: nat where
  "DeliveriesCap = 100"

definition NewConsumerSession :: "string \<Rightarrow> consumer_session" where
  "NewConsumerSession i = \<lparr>cs_ID = i, Deliveries = [], Closed = False, UnackedCount = 0\<rparr>"

definition cs_Close :: "consumer_session \<Rightarrow> consumer_session" where
  "cs_Close cs = (if Closed cs then cs else cs\<lparr>Closed := True\<rparr>)"

definition IsEligible :: "int \<Rightarrow> consumer_session \<Rightarrow> bool" where
  "IsEligible maxPrefetchCount cs \<longleftrightarrow> UnackedCount cs < maxPrefetchCount"

lemma cs_Close_simps [simp]:
  "Closed (cs_Close cs)" "cs_ID (cs_Close cs) = cs_ID cs"
  "UnackedCount (cs_Close cs) = UnackedCount cs" "Deliveries (cs_Close cs) = Deliveries cs"
  "cs_Close (cs_Close cs) = cs_Close cs"
  by (simp_all add: cs_Close_def)

subsection \<open>Properties\<close>

text \<open>
  C15. With a clock that does not run backwards, \<open>Expired\<close>, whatever order the map is
  visited in, returns exactly the in-flight entries that are older than the timeout, each
  once: every entry whose age exceeds the timeout when the scan starts is returned, and
  every returned entry exceeds it at some reading taken during the scan.
\<close>

theorem Expired_exact:
  assumes "mono (readings c)" and "mset order = mset (map fst (deliveries mgr))"
    and "mgr_invar mgr" and "mgr_Expired timeout order mgr c = (ds, c')"
  shows "distinct (map d_AckToken ds)
    \<and> (\<forall>k e. mgr_Get k mgr = Some e \<and> readings c (ticks c) - if_DeliveredAt e > timeout \<longrightarrow>
      (\<exists>d \<in> set ds. d_AckToken d = k \<and> d_Message d = if_Message e))
    \<and> (\<forall>d \<in> set ds. \<exists>e t. mgr_Get (d_AckToken d) mgr = Some e \<and> ticks c \<le> t \<and> t < ticks c'
      \<and> readings c t - if_DeliveredAt e > timeout)"
proof (intro conjI)
  have ds: "ds = fst (mgr_Expired timeout order mgr c)"
    and c': "c' = snd (mgr_Expired timeout order mgr c)" using assms(4) by simp_all
  have keys: "set order = fst ` set (deliveries mgr)"
    using assms(2) by (metis set_map set_mset_mset)
  have "distinct order"
    using assms(2,3) by (metis mgr_invar_def gm_wf_def mset_eq_imp_distinct_iff)
  then show "distinct (map d_AckToken ds)" unfolding ds by (rule mgr_Expired_distinct)
  show "\<forall>k e. mgr_Get k mgr = Some e \<and> readings c (ticks c) - if_DeliveredAt e > timeout \<longrightarrow>
      (\<exists>d \<in> set ds. d_AckToken d = k \<and> d_Message d = if_Message e)"
  proof (intro allI impI)
    fix k e
    assume e: "mgr_Get k mgr = Some e \<and> readings c (ticks c) - if_DeliveredAt e > timeout"
    then have "k \<in> set order"
      using keys by (metis mgr_Get_def map_of_eq_None_iff option.distinct(1))
    with e assms(1) obtain d where d: "d \<in> set ds" "d_AckToken d = k"
      unfolding ds using mgr_Expired_complete [of c k order mgr e timeout] by auto
    with mgr_Expired_entry [of d timeout order mgr c] e ds
    show "\<exists>d \<in> set ds. d_AckToken d = k \<and> d_Message d = if_Message e" by auto
  qed
  show "\<forall>d \<in> set ds. \<exists>e t. mgr_Get (d_AckToken d) mgr = Some e \<and> ticks c \<le> t \<and> t < ticks c'
      \<and> readings c t - if_DeliveredAt e > timeout"
    unfolding ds c' by (blast intro: mgr_Expired_sound)
qed

theorem Expired_exact_witness:
  "\<exists>ds c'. mgr_Expired 5 [''t2'', ''t1'']
      \<lparr>deliveries = [(''t1'', \<lparr>if_Message = zero_message, if_ConsumerID = ''x'', if_DeliveredAt = 1\<rparr>),
        (''t2'', \<lparr>if_Message = zero_message, if_ConsumerID = ''y'', if_DeliveredAt = 9\<rparr>)]\<rparr>
      \<lparr>readings = int, ticks = 10\<rparr> = (ds, c')
    \<and> distinct (map d_AckToken ds) \<and> map d_AckToken ds = [''t1'']"
proof -
  let ?m = "\<lparr>deliveries = [(''t1'', \<lparr>if_Message = zero_message, if_ConsumerID = ''x'', if_DeliveredAt = 1\<rparr>),
        (''t2'', \<lparr>if_Message = zero_message, if_ConsumerID = ''y'', if_DeliveredAt = 9\<rparr>)]\<rparr>"
  let ?c = "\<lparr>readings = int, ticks = 10\<rparr>"
  have run: "mgr_Expired 5 [''t2'', ''t1''] ?m ?c
      = ([\<lparr>d_Message = zero_message, d_AckToken = ''t1'', d_ConsumerID = ''x''\<rparr>],
         \<lparr>readings = int, ticks = 12\<rparr>)"
    by (simp add: mgr_Expired.simps time_Now_def)
  have "mono (readings ?c)" by (simp add: mono_def)
  moreover have "mset [''t2'', ''t1''] = mset (map fst (deliveries ?m))" by simp
  moreover have "mgr_invar ?m" by (simp add: mgr_invar_def)
  ultimately show ?thesis using Expired_exact [OF _ _ _ run] run by simp
qed

end
