(* ===== verification/Json_Codec.thy ===== *)
theory Json_Codec
  imports Messages
begin

text \<open>
  The JSON form of messages and log records, as the struct tags of
  \<open>internal/model/message.go\<close> and \<open>internal/model/storage.go\<close> prescribe it: what
  \<open>json.Marshal\<close> writes for them (\<open>omitempty\<close>, \<open>omitzero\<close>, a nil pointer as null) and what
  \<open>json.Unmarshal\<close> reads back into them (fields in document order, names compared without
  regard to case, null leaving a field alone, a value of the wrong kind an error).

  JSON is modelled by its values, not by its text, and the documents are the ones this program
  writes: a JSON string is \<open>JTime\<close> where \<open>time.Time.MarshalJSON\<close> formatted an instant and
  \<open>JStr\<close> where a Go string was written. Go strings are valid UTF-8 here, as every string is
  that reaches the broker through \<open>json.Unmarshal\<close> (\<open>json.Marshal\<close> would replace other
  bytes), and numbers are in the range of Go's \<open>int\<close>.
\<close>

datatype json =
    JNull | JBool bool | JNum int | JStr string | JTime int
  | JArr "json list" | JObj "(string \<times> json) list"

subsection \<open>Record types as strings\<close>

fun record_type_string :: "record_type \<Rightarrow> string" where
  "record_type_string ExchangeCreated = ''exchange_created''"
| "record_type_string ExchangeDeleted = ''exchange_deleted''"
| "record_type_string QueueCreated = ''queue_created''"
| "record_type_string QueueDeleted = ''queue_deleted''"
| "record_type_string QueueBinded = ''queue_binded''"
| "record_type_string QueueUnbinded = ''queue_unbinded''"
| "record_type_string Published = ''published''"
| "record_type_string Acknowledged = ''acknowledged''"
| "record_type_string Requeued = ''requeued''"
| "record_type_string DeadLettered = ''dead_lettered''"
| "record_type_string NoType = ''''"
| "record_type_string (OtherType s) = s"

definition named_types :: "record_type list" where
  "named_types = [ExchangeCreated, ExchangeDeleted, QueueCreated, QueueDeleted, QueueBinded,
     QueueUnbinded, Published, Acknowledged, Requeued, DeadLettered, NoType]"

definition record_type_of :: "string \<Rightarrow> record_type" where
  "record_type_of s =
     (case find (\<lambda>t. record_type_string t = s) named_types of Some t \<Rightarrow> t | None \<Rightarrow> OtherType s)"

lemma record_type_of_string: "t \<in> set named_types \<Longrightarrow> record_type_of (record_type_string t) = t"
  by (cases t) (simp_all add: named_types_def record_type_of_def)

subsection \<open>Encoding\<close>

definition enc_message :: "message \<Rightarrow> json" where
  "enc_message m = JObj
     [(''id'', JStr (ID m)), (''payload'', JStr (Payload m)), (''timestamp'', JTime (Timestamp m)),
      (''retry'', JNum (Retry m)),
      (''expiry_at'', case ExpiryAt m of None \<Rightarrow> JNull | Some t \<Rightarrow> JTime t)]"

definition omitempty :: "string \<Rightarrow> string \<Rightarrow> (string \<times> json) list" where
  "omitempty name s = (if s = '''' then [] else [(name, JStr s)])"

definition enc_record :: "log_record \<Rightarrow> json" where
  "enc_record r = JObj
     (omitempty ''type'' (record_type_string (r_Type r)) @ omitempty ''exchange'' (r_Exchange r) @
      omitempty ''exchange_type'' (r_ExchangeType r) @ omitempty ''queue'' (r_Queue r) @
      (if r_Message r = zero_message then [] else [(''message'', enc_message (r_Message r))]) @
      omitempty ''message_id'' (r_MessageID r) @ omitempty ''binding_key'' (r_BindingKey r))"

subsection \<open>Decoding\<close>

definition ascii_lower :: "char \<Rightarrow> char" where
  "ascii_lower c = (let n = (of_char c :: nat) in if 65 \<le> n \<and> n \<le> 90 then char_of (n + 32) else c)"

definition field_is :: "string \<Rightarrow> string \<Rightarrow> bool" where
  "field_is name key \<longleftrightarrow> map ascii_lower key = name"

fun dec_string :: "json \<Rightarrow> string \<Rightarrow> string option" where
  "dec_string (JStr s) cur = Some s"
| "dec_string JNull cur = Some cur"
| "dec_string _ cur = None"

fun dec_int :: "json \<Rightarrow> int \<Rightarrow> int option" where
  "dec_int (JNum n) cur = Some n"
| "dec_int JNull cur = Some cur"
| "dec_int _ cur = None"

fun dec_time :: "json \<Rightarrow> int \<Rightarrow> int option" where
  "dec_time (JTime t) cur = Some t"
| "dec_time JNull cur = Some cur"
| "dec_time _ cur = None"

fun dec_time_ptr :: "json \<Rightarrow> int option option" where
  "dec_time_ptr (JTime t) = Some (Some t)"
| "dec_time_ptr JNull = Some None"
| "dec_time_ptr _ = None"

fun dec_fields :: "(string \<Rightarrow> json \<Rightarrow> 'a \<Rightarrow> 'a option) \<Rightarrow> (string \<times> json) list \<Rightarrow> 'a \<Rightarrow> 'a option" where
  "dec_fields f [] x = Some x"
| "dec_fields f ((k, v) # kvs) x = (case f k v x of None \<Rightarrow> None | Some y \<Rightarrow> dec_fields f kvs y)"

definition dec_message_field :: "string \<Rightarrow> json \<Rightarrow> message \<Rightarrow> message option" where
  "dec_message_field k v m =
     (if field_is ''id'' k then map_option (\<lambda>s. m\<lparr>ID := s\<rparr>) (dec_string v (ID m))
      else if field_is ''payload'' k then map_option (\<lambda>s. m\<lparr>Payload := s\<rparr>) (dec_string v (Payload m))
      else if field_is ''timestamp'' k then map_option (\<lambda>t. m\<lparr>Timestamp := t\<rparr>) (dec_time v (Timestamp m))
      else if field_is ''retry'' k then map_option (\<lambda>n. m\<lparr>Retry := n\<rparr>) (dec_int v (Retry m))
      else if field_is ''expiry_at'' k then map_option (\<lambda>t. m\<lparr>ExpiryAt := t\<rparr>) (dec_time_ptr v)
      else Some m)"

fun dec_message :: "json \<Rightarrow> message \<Rightarrow> message option" where
  "dec_message (JObj kvs) m = dec_fields dec_message_field kvs m"
| "dec_message JNull m = Some m"
| "dec_message _ m = None"

definition dec_record_field :: "string \<Rightarrow> json \<Rightarrow> log_record \<Rightarrow> log_record option" where
  "dec_record_field k v r =
     (if field_is ''type'' k then map_option (\<lambda>s. r\<lparr>r_Type := record_type_of s\<rparr>)
         (dec_string v (record_type_string (r_Type r)))
      else if field_is ''exchange'' k then map_option (\<lambda>s. r\<lparr>r_Exchange := s\<rparr>) (dec_string v (r_Exchange r))
      else if field_is ''exchange_type'' k then
        map_option (\<lambda>s. r\<lparr>r_ExchangeType := s\<rparr>) (dec_string v (r_ExchangeType r))
      else if field_is ''queue'' k then map_option (\<lambda>s. r\<lparr>r_Queue := s\<rparr>) (dec_string v (r_Queue r))
      else if field_is ''message'' k then map_option (\<lambda>m. r\<lparr>r_Message := m\<rparr>) (dec_message v (r_Message r))
      else if field_is ''message_id'' k then
        map_option (\<lambda>s. r\<lparr>r_MessageID := s\<rparr>) (dec_string v (r_MessageID r))
      else if field_is ''binding_key'' k then
        map_option (\<lambda>s. r\<lparr>r_BindingKey := s\<rparr>) (dec_string v (r_BindingKey r))
      else Some r)"

fun dec_record :: "json \<Rightarrow> log_record \<Rightarrow> log_record option" where
  "dec_record (JObj kvs) r = dec_fields dec_record_field kvs r"
| "dec_record JNull r = Some r"
| "dec_record _ r = None"

subsection \<open>Round trips\<close>

lemma dec_fields_append:
  "dec_fields f (xs @ ys) x = (case dec_fields f xs x of None \<Rightarrow> None | Some y \<Rightarrow> dec_fields f ys y)"
  by (induction f xs x rule: dec_fields.induct) (auto split: option.splits)

lemma field_is_lower [simp]:
  "field_is name ''id'' \<longleftrightarrow> name = ''id''" "field_is name ''payload'' \<longleftrightarrow> name = ''payload''"
  "field_is name ''timestamp'' \<longleftrightarrow> name = ''timestamp''" "field_is name ''retry'' \<longleftrightarrow> name = ''retry''"
  "field_is name ''expiry_at'' \<longleftrightarrow> name = ''expiry_at''" "field_is name ''type'' \<longleftrightarrow> name = ''type''"
  "field_is name ''exchange'' \<longleftrightarrow> name = ''exchange''"
  "field_is name ''exchange_type'' \<longleftrightarrow> name = ''exchange_type''"
  "field_is name ''queue'' \<longleftrightarrow> name = ''queue''" "field_is name ''message'' \<longleftrightarrow> name = ''message''"
  "field_is name ''message_id'' \<longleftrightarrow> name = ''message_id''"
  "field_is name ''binding_key'' \<longleftrightarrow> name = ''binding_key''"
  by (auto simp: field_is_def ascii_lower_def)

lemma dec_enc_message [simp]: "dec_message (enc_message m) x = Some m"
  by (cases m; cases "ExpiryAt m") (auto simp: enc_message_def dec_message_field_def)

lemma enc_message_not_null: "enc_message m \<noteq> JNull"
  by (simp add: enc_message_def)

lemma dec_omitempty:
  "dec_fields f (omitempty name s) x = (if s = '''' then Some x else f name (JStr s) x)"
  by (simp add: omitempty_def split: option.splits)

lemma record_type_string_empty: "t \<in> set named_types \<Longrightarrow> record_type_string t = '''' \<longleftrightarrow> t = NoType"
  by (auto simp: named_types_def)

lemma dec_enc_record:
  assumes "r_Type r \<in> set named_types"
  shows "dec_record (enc_record r) zero_record = Some r"
proof -
  have "dec_record (enc_record r) zero_record = Some
     \<lparr>r_Type = r_Type r, r_Exchange = r_Exchange r, r_ExchangeType = r_ExchangeType r,
      r_Queue = r_Queue r, r_Message = r_Message r, r_MessageID = r_MessageID r,
      r_BindingKey = r_BindingKey r\<rparr>"
    using assms
    by (simp add: enc_record_def dec_fields_append dec_omitempty dec_record_field_def zero_record_def
        record_type_of_string record_type_string_empty)
  then show ?thesis by simp
qed

text \<open>
  Every log record whose type is one of the ten record types is read back unchanged from
  its JSON form, although empty strings and a zero message are left out of that form.
\<close>

theorem record_roundtrip:
  assumes "r_Type r \<in> set named_types"
  shows "dec_record (enc_record r) zero_record = Some r"
  using assms by (rule dec_enc_record)

theorem record_roundtrip_witness:
  "dec_record (enc_record (zero_record\<lparr>r_Type := QueueCreated, r_Queue := ''orders''\<rparr>)) zero_record
     = Some (zero_record\<lparr>r_Type := QueueCreated, r_Queue := ''orders''\<rparr>)"
  by (rule record_roundtrip) (simp add: named_types_def)

end
