(* ===== verification/Write_Ahead_Log.thy ===== *)
theory Write_Ahead_Log
  imports Json_Codec
begin

text \<open>
  The write-ahead log of \<open>internal/storage/wal.go\<close>.

  A log file is a sequence of chunks: complete JSON values, and torn pieces that a failed or
  short write left behind. What the operating system answers to the \<open>n\<close>-th write is
  \<open>wf_io f n\<close>: the record is on disk, or the write failed (perhaps after a part of the
  record), or it was short, or the record was written but \<open>Sync\<close> failed. \<open>wf_open\<close> is its
  answer to \<open>os.Open\<close>. The writer goroutine handles one request at a time and the caller
  waits for its result, so an \<open>Append\<close> is one pass of \<open>runWriter\<close> over that request.

  The interface is the locale \<open>log_store\<close>: a successful append of a record extends what
  \<open>Load\<close> recovers by the effect of that record. It is interpreted as \<open>wal\<close>.
\<close>

subsection \<open>The log file\<close>

datatype chunk = Val json | Torn

datatype io_outcome = IoOk | IoWriteErr bool | IoShortWrite | IoSyncErr

datatype open_outcome = OpenOk | OpenNotExist | OpenFailed

record file_wal =
  wf_chunks :: "chunk list"
  wf_closed :: bool
  wf_io :: "nat \<Rightarrow> io_outcome"
  wf_writes :: nat
  wf_open :: open_outcome

definition NewFileWAL ::
  "bool \<Rightarrow> open_outcome \<Rightarrow> chunk list \<Rightarrow> (nat \<Rightarrow> io_outcome) \<Rightarrow> open_outcome \<Rightarrow> err + file_wal" where
  "NewFileWAL mkdir_ok openfile existing io reopen =
     (if \<not> mkdir_ok then Inl ErrWALOpen
      else case openfile of
        OpenOk \<Rightarrow> Inr \<lparr>wf_chunks = existing, wf_closed = False, wf_io = io, wf_writes = 0,
                       wf_open = reopen\<rparr>
      | _ \<Rightarrow> Inl ErrWALOpen)"

definition writeRecord :: "log_record \<Rightarrow> file_wal \<Rightarrow> err option \<times> file_wal" where
  "writeRecord record f =
     (let f1 = f\<lparr>wf_writes := wf_writes f + 1\<rparr>;
          written = f1\<lparr>wf_chunks := wf_chunks f @ [Val (enc_record record)]\<rparr>;
          torn = f1\<lparr>wf_chunks := wf_chunks f @ [Torn]\<rparr>
      in case wf_io f (wf_writes f) of
           IoOk \<Rightarrow> (None, written)
         | IoWriteErr partial \<Rightarrow> (Some ErrWALWrite, if partial then torn else f1)
         | IoShortWrite \<Rightarrow> (Some ErrShortWrite, torn)
         | IoSyncErr \<Rightarrow> (Some ErrWALSync, written))"

fun runWriter :: "log_record list \<Rightarrow> file_wal \<Rightarrow> err option list \<times> file_wal" where
  "runWriter [] f = ([], f)"
| "runWriter (req # reqs) f =
     (let (e, f1) = writeRecord req f; (es, f2) = runWriter reqs f1 in (e # es, f2))"

definition wal_Append :: "log_record \<Rightarrow> file_wal \<Rightarrow> err option \<times> file_wal" where
  "wal_Append record f =
     (if wf_closed f then (Some ErrWALClosed, f)
      else let (results, f1) = runWriter [record] f in (hd results, f1))"

definition wal_Close :: "file_wal \<Rightarrow> file_wal" where
  "wal_Close f = (if wf_closed f then f else f\<lparr>wf_closed := True\<rparr>)"

lemma wal_Append_eq:
  "wal_Append r f = (if wf_closed f then (Some ErrWALClosed, f) else writeRecord r f)"
  by (simp add: wal_Append_def Let_def split: prod.splits)

subsection \<open>Recovery\<close>

record exchange_state =
  es_ExchangeType :: string
  es_Bindings :: "binding list"

record recovered_state =
  PendingMessages :: "message list gomap"
  PendingExchanges :: "exchange_state gomap"

definition empty_state :: recovered_state where
  "empty_state = \<lparr>PendingMessages = [], PendingExchanges = []\<rparr>"

definition removeMessage :: "message list \<Rightarrow> string \<Rightarrow> message list" where
  "removeMessage messages messageID = DeleteFunc messages (\<lambda>m. ID m = messageID)"

text \<open>Indexing a map of slices yields the nil slice for an absent key.\<close>

definition pending :: "string \<Rightarrow> recovered_state \<Rightarrow> message list" where
  "pending q st = (case map_of (PendingMessages st) q of None \<Rightarrow> [] | Some ms \<Rightarrow> ms)"

definition set_pending :: "string \<Rightarrow> message list \<Rightarrow> recovered_state \<Rightarrow> recovered_state" where
  "set_pending q ms st = st\<lparr>PendingMessages := gm_put q ms (PendingMessages st)\<rparr>"

definition matches_unbind :: "string \<Rightarrow> string \<Rightarrow> binding \<Rightarrow> bool" where
  "matches_unbind bindingKey queueName b =
     (if bindingKey \<noteq> '''' then BindingKey b = bindingKey \<and> QueueName b = queueName
      else QueueName b = queueName)"

definition map_bindings ::
  "string \<Rightarrow> (binding list \<Rightarrow> binding list) \<Rightarrow> recovered_state \<Rightarrow> recovered_state" where
  "map_bindings ex f st =
     (case map_of (PendingExchanges st) ex of
        None \<Rightarrow> st
      | Some es \<Rightarrow> st\<lparr>PendingExchanges :=
          gm_put ex (es\<lparr>es_Bindings := f (es_Bindings es)\<rparr>) (PendingExchanges st)\<rparr>)"

fun apply_record :: "log_record \<Rightarrow> recovered_state \<Rightarrow> recovered_state" where
  "apply_record r st =
     (case r_Type r of
        QueueCreated \<Rightarrow>
          (case map_of (PendingMessages st) (r_Queue r) of
             None \<Rightarrow> set_pending (r_Queue r) [] st
           | Some _ \<Rightarrow> st)
      | Published \<Rightarrow> set_pending (r_Queue r) (pending (r_Queue r) st @ [r_Message r]) st
      | Requeued \<Rightarrow> set_pending (r_Queue r)
          (removeMessage (pending (r_Queue r) st) (r_MessageID r) @ [r_Message r]) st
      | Acknowledged \<Rightarrow> set_pending (r_Queue r)
          (removeMessage (pending (r_Queue r) st) (r_MessageID r)) st
      | DeadLettered \<Rightarrow> set_pending (r_Queue r)
          (removeMessage (pending (r_Queue r) st) (r_MessageID r)) st
      | QueueDeleted \<Rightarrow> st\<lparr>PendingMessages := gm_del (r_Queue r) (PendingMessages st)\<rparr>
      | QueueBinded \<Rightarrow> map_bindings (r_Exchange r)
          (\<lambda>bs. bs @ [\<lparr>QueueName = r_Queue r, BindingKey = r_BindingKey r\<rparr>]) st
      | QueueUnbinded \<Rightarrow> map_bindings (r_Exchange r)
          (\<lambda>bs. DeleteFunc bs (matches_unbind (r_BindingKey r) (r_Queue r))) st
      | ExchangeCreated \<Rightarrow> st\<lparr>PendingExchanges :=
          gm_put (r_Exchange r) \<lparr>es_ExchangeType = r_ExchangeType r, es_Bindings = []\<rparr>
            (PendingExchanges st)\<rparr>
      | ExchangeDeleted \<Rightarrow> st\<lparr>PendingExchanges := gm_del (r_Exchange r) (PendingExchanges st)\<rparr>
      | NoType \<Rightarrow> st
      | OtherType _ \<Rightarrow> st)"

declare apply_record.simps [simp del]

definition load_value :: "json \<Rightarrow> recovered_state \<Rightarrow> err + recovered_state" where
  "load_value raw st =
     (case dec_record raw zero_record of
        None \<Rightarrow> Inl ErrWALRecord
      | Some record \<Rightarrow>
          if r_Type record = NoType
          then (case dec_message raw zero_message of
                  None \<Rightarrow> Inl ErrWALRecord
                | Some m \<Rightarrow> Inr (set_pending DefaultQueueName
                                  (pending DefaultQueueName st @ [m]) st))
          else Inr (apply_record record st))"

fun load_loop :: "chunk list \<Rightarrow> recovered_state \<Rightarrow> err + recovered_state" where
  "load_loop [] st = Inr st"
| "load_loop (Torn # cs) st = Inl ErrWALEntry"
| "load_loop (Val raw # cs) st =
     (case load_value raw st of Inl e \<Rightarrow> Inl e | Inr st' \<Rightarrow> load_loop cs st')"

definition wal_Load :: "file_wal \<Rightarrow> err + recovered_state" where
  "wal_Load f =
     (case wf_open f of
        OpenNotExist \<Rightarrow> Inr empty_state
      | OpenFailed \<Rightarrow> Inl ErrWALOpen
      | OpenOk \<Rightarrow> load_loop (wf_chunks f) empty_state)"

subsection \<open>The interface of the log\<close>

definition loggable :: "log_record \<Rightarrow> bool" where
  "loggable r \<longleftrightarrow> r_Type r \<in> set named_types \<and> r_Type r \<noteq> NoType"

locale log_store =
  fixes append :: "'r \<Rightarrow> 'w \<Rightarrow> 'e option \<times> 'w"
    and load :: "'w \<Rightarrow> 'e + 's"
    and effect :: "'r \<Rightarrow> 's \<Rightarrow> 's"
    and ok :: "'r \<Rightarrow> bool"
    and usable :: "'w \<Rightarrow> bool"
  assumes append_ok: "usable w \<Longrightarrow> ok r \<Longrightarrow> append r w = (None, w') \<Longrightarrow> load w = Inr s \<Longrightarrow>
      load w' = Inr (effect r s)"
    and append_usable: "usable w \<Longrightarrow> append r w = (e, w') \<Longrightarrow> usable w'"
begin

primrec append_all :: "'r list \<Rightarrow> 'w \<Rightarrow> 'w option" where
  "append_all [] w = Some w"
| "append_all (r # rs) w =
     (case append r w of (None, w') \<Rightarrow> append_all rs w' | (Some e, w') \<Rightarrow> None)"

text \<open>Replaying a log gives the effects of the appended records, in their order.\<close>

lemma load_append_all:
  "append_all rs w = Some w' \<Longrightarrow> usable w \<Longrightarrow> load w = Inr s \<Longrightarrow> list_all ok rs \<Longrightarrow>
   load w' = Inr (fold effect rs s)"
proof (induction rs arbitrary: w s)
  case (Cons r rs)
  then obtain w1 where w1: "append r w = (None, w1)" "append_all rs w1 = Some w'"
    by (auto split: prod.splits option.splits)
  from Cons.prems(4) have "ok r" "list_all ok rs" by simp_all
  from append_ok [OF Cons.prems(2) this(1) w1(1) Cons.prems(3)]
    Cons.IH [OF w1(2) append_usable [OF Cons.prems(2) w1(1)] _ this(2)]
  show ?case by simp
qed simp

end

lemma load_loop_append:
  "load_loop (xs @ ys) st = (case load_loop xs st of Inl e \<Rightarrow> Inl e | Inr st' \<Rightarrow> load_loop ys st')"
  by (induction xs st rule: load_loop.induct) (auto split: sum.splits)

lemma load_value_enc [simp]:
  "loggable r \<Longrightarrow> load_value (enc_record r) st = Inr (apply_record r st)"
  by (auto simp: load_value_def loggable_def dec_enc_record)

lemma writeRecord_cases:
  assumes "writeRecord r f = (e, f')"
  obtains (written) "wf_chunks f' = wf_chunks f @ [Val (enc_record r)]" "e = None \<or> e = Some ErrWALSync"
  | (nothing) "wf_chunks f' = wf_chunks f" "e = Some ErrWALWrite"
  | (torn) "wf_chunks f' = wf_chunks f @ [Torn]" "e \<noteq> None"
  using assms by (auto simp: writeRecord_def Let_def split: io_outcome.splits if_splits)

lemma writeRecord_frame [frame]:
  "writeRecord r f = (e, f') \<Longrightarrow> wf_closed f' = wf_closed f \<and> wf_open f' = wf_open f \<and> wf_io f' = wf_io f"
  by (auto simp: writeRecord_def Let_def split: io_outcome.splits if_splits)

lemma wal_Append_frame [frame]:
  "wal_Append r f = (e, f') \<Longrightarrow> wf_closed f' = wf_closed f \<and> wf_open f' = wf_open f \<and> wf_io f' = wf_io f"
  by (auto simp: wal_Append_eq dest: writeRecord_frame split: if_splits)

lemma wal_Append_written:
  assumes "wal_Append r f = (None, f')"
  shows "wf_chunks f' = wf_chunks f @ [Val (enc_record r)]"
  using assms by (auto simp: wal_Append_eq elim!: writeRecord_cases split: if_splits)

interpretation wal: log_store wal_Append wal_Load apply_record loggable "\<lambda>f. wf_open f = OpenOk"
proof unfold_locales
  fix f r f' st
  assume "wf_open f = OpenOk" "loggable r" "wal_Append r f = (None, f')" "wal_Load f = Inr st"
  then show "wal_Load f' = Inr (apply_record r st)"
    using wal_Append_written [of r f f'] wal_Append_frame [of r f None f']
    by (simp add: wal_Load_def load_loop_append)
qed (auto dest: wal_Append_frame)

text \<open>
  A failed append leaves the recovered state as it was, or as if the record had been
  appended (the write succeeded and the sync failed), or it leaves the log unreadable.
\<close>

lemma wal_Append_failed:
  assumes "wf_open f = OpenOk" and "loggable r" and "wal_Append r f = (Some e, f')"
    and "wal_Load f = Inr st"
  shows "wal_Load f' = Inr st \<or> (wal_Load f' = Inr (apply_record r st) \<and> e = ErrWALSync)
    \<or> wal_Load f' = Inl ErrWALEntry"
proof (cases "wf_closed f")
  case True
  with assms show ?thesis by (simp add: wal_Append_eq)
next
  case False
  with assms have w: "writeRecord r f = (Some e, f')" by (simp add: wal_Append_eq)
  then show ?thesis
    using assms writeRecord_frame [OF w]
    by (cases rule: writeRecord_cases) (auto simp: wal_Load_def load_loop_append)
qed

subsection \<open>Effects of the records\<close>

lemma pending_set_pending [simp]:
  "pending q (set_pending q' ms st) = (if q = q' then ms else pending q st)"
  by (simp add: pending_def set_pending_def)

lemma PendingExchanges_set_pending [simp]:
  "PendingExchanges (set_pending q ms st) = PendingExchanges st"
  by (simp add: set_pending_def)

lemma PendingMessages_map_bindings [simp]:
  "PendingMessages (map_bindings ex f st) = PendingMessages st"
  by (simp add: map_bindings_def split: option.splits)

lemma pending_map_bindings [simp]: "pending q (map_bindings ex f st) = pending q st"
  by (simp add: pending_def)

lemma apply_record_types:
  "r_Type r = QueueCreated \<Longrightarrow> apply_record r st =
     (case map_of (PendingMessages st) (r_Queue r) of None \<Rightarrow> set_pending (r_Queue r) [] st | Some _ \<Rightarrow> st)"
  "r_Type r = Published \<Longrightarrow> apply_record r st =
     set_pending (r_Queue r) (pending (r_Queue r) st @ [r_Message r]) st"
  "r_Type r = Requeued \<Longrightarrow> apply_record r st =
     set_pending (r_Queue r) (removeMessage (pending (r_Queue r) st) (r_MessageID r) @ [r_Message r]) st"
  "r_Type r = Acknowledged \<Longrightarrow> apply_record r st =
     set_pending (r_Queue r) (removeMessage (pending (r_Queue r) st) (r_MessageID r)) st"
  "r_Type r = DeadLettered \<Longrightarrow> apply_record r st =
     set_pending (r_Queue r) (removeMessage (pending (r_Queue r) st) (r_MessageID r)) st"
  "r_Type r = QueueDeleted \<Longrightarrow> apply_record r st =
     st\<lparr>PendingMessages := gm_del (r_Queue r) (PendingMessages st)\<rparr>"
  "r_Type r = QueueBinded \<Longrightarrow> apply_record r st = map_bindings (r_Exchange r)
     (\<lambda>bs. bs @ [\<lparr>QueueName = r_Queue r, BindingKey = r_BindingKey r\<rparr>]) st"
  "r_Type r = QueueUnbinded \<Longrightarrow> apply_record r st = map_bindings (r_Exchange r)
     (\<lambda>bs. DeleteFunc bs (matches_unbind (r_BindingKey r) (r_Queue r))) st"
  "r_Type r = ExchangeCreated \<Longrightarrow> apply_record r st = st\<lparr>PendingExchanges :=
     gm_put (r_Exchange r) \<lparr>es_ExchangeType = r_ExchangeType r, es_Bindings = []\<rparr> (PendingExchanges st)\<rparr>"
  "r_Type r = ExchangeDeleted \<Longrightarrow> apply_record r st =
     st\<lparr>PendingExchanges := gm_del (r_Exchange r) (PendingExchanges st)\<rparr>"
  by (simp_all add: apply_record.simps)

lemma loggable_types [simp]:
  "r_Type r = QueueCreated \<Longrightarrow> loggable r" "r_Type r = Published \<Longrightarrow> loggable r"
  "r_Type r = Requeued \<Longrightarrow> loggable r" "r_Type r = Acknowledged \<Longrightarrow> loggable r"
  "r_Type r = DeadLettered \<Longrightarrow> loggable r" "r_Type r = QueueDeleted \<Longrightarrow> loggable r"
  "r_Type r = QueueBinded \<Longrightarrow> loggable r" "r_Type r = QueueUnbinded \<Longrightarrow> loggable r"
  "r_Type r = ExchangeCreated \<Longrightarrow> loggable r" "r_Type r = ExchangeDeleted \<Longrightarrow> loggable r"
  by (simp_all add: loggable_def named_types_def)

text \<open>Removing a message by its identifier from messages with different identifiers.\<close>

lemma removeMessage_unique:
  assumes "distinct (map ID ms)" and "m \<in> set ms"
  shows "mset ms = add_mset m (mset (removeMessage ms (ID m)))"
  using assms
proof (induction ms)
  case (Cons a ms)
  show ?case
  proof (cases "a = m")
    case True
    with Cons.prems have "ID m \<notin> ID ` set ms" by simp
    then have "removeMessage ms (ID m) = ms"
      unfolding removeMessage_def by (intro DeleteFunc_none) (metis imageI)
    with True show ?thesis by (simp add: removeMessage_def)
  next
    case False
    with Cons.prems have "ID a \<noteq> ID m" by force
    with False Cons show ?thesis by (simp add: removeMessage_def)
  qed
qed simp

lemma removeMessage_distinct: "distinct (map ID ms) \<Longrightarrow> distinct (map ID (removeMessage ms i))"
  by (simp add: removeMessage_def DeleteFunc_def distinct_map_filter)

lemma removeMessage_gone: "i \<notin> ID ` set (removeMessage ms i)"
  by (auto simp: removeMessage_def)

subsection \<open>Properties\<close>

lemma runWriter_append_all:
  "\<not> wf_closed f \<Longrightarrow> runWriter rs f = (replicate (length rs) None, f') \<Longrightarrow>
   wal.append_all rs f = Some f'"
proof (induction rs arbitrary: f)
  case (Cons r rs)
  obtain e f1 where w: "writeRecord r f = (e, f1)" by (cases "writeRecord r f")
  obtain es f2 where rw: "runWriter rs f1 = (es, f2)" by (cases "runWriter rs f1")
  from Cons.prems w rw have "e = None" and "runWriter rs f1 = (replicate (length rs) None, f')"
    by simp_all
  moreover from w Cons.prems \<open>e = None\<close> have "wal_Append r f = (None, f1)"
    by (simp add: wal_Append_eq)
  ultimately show ?case using Cons writeRecord_frame [OF w] by simp
qed simp

text \<open>
  C10. Replay: on an open log that loads, after the writer has handled any sequence of
  requests with success, \<open>Load\<close> recovers the state obtained by applying the records, in
  order, to what the log held before.
\<close>

theorem wal_replay:
  assumes "wf_open f = OpenOk" and "\<not> wf_closed f" and "wal_Load f = Inr st"
    and "list_all loggable rs" and "runWriter rs f = (replicate (length rs) None, f')"
  shows "wal_Load f' = Inr (fold apply_record rs st)"
  using wal.load_append_all [OF runWriter_append_all [OF assms(2,5)] assms(1,3,4)] .

abbreviation empty_wal :: file_wal where
  "empty_wal \<equiv> \<lparr>wf_chunks = [], wf_closed = False, wf_io = (\<lambda>_. IoOk), wf_writes = 0, wf_open = OpenOk\<rparr>"

theorem wal_replay_witness:
  "\<exists>f'. runWriter [zero_record\<lparr>r_Type := QueueCreated, r_Queue := ''a''\<rparr>,
       zero_record\<lparr>r_Type := Published, r_Queue := ''a'', r_Message := zero_message\<lparr>ID := ''1''\<rparr>\<rparr>]
       empty_wal = ([None, None], f')
     \<and> wal_Load f' = Inr \<lparr>PendingMessages = [(''a'', [zero_message\<lparr>ID := ''1''\<rparr>])], PendingExchanges = []\<rparr>"
proof -
  let ?rs = "[zero_record\<lparr>r_Type := QueueCreated, r_Queue := ''a''\<rparr>,
       zero_record\<lparr>r_Type := Published, r_Queue := ''a'', r_Message := zero_message\<lparr>ID := ''1''\<rparr>\<rparr>]"
  obtain f' where f': "runWriter ?rs empty_wal = (replicate (length ?rs) None, f')"
    by (simp add: writeRecord_def)
  have "wal_Load empty_wal = Inr empty_state" by (simp add: wal_Load_def)
  from wal_replay [OF _ _ this _ f'] f' show ?thesis
    by (simp add: apply_record_types empty_state_def set_pending_def pending_def)
qed

end
