(* ===== verification/Queue_Runtime.thy ===== *)
theory Queue_Runtime
  imports Ring_Buffer Inflight_Manager Write_Ahead_Log
begin

text \<open>
  The per-queue runtime of \<open>internal/engine/queue_runtime.go\<close>: its state and its operations.

  \<open>world\<close> holds what a runtime shares with the rest of the process: the clock, the generator
  of identifiers (\<open>uuid.NewString\<close> is not part of the repository: \<open>w_uuids\<close> is a parameter,
  the stream of strings it returns), the log, the heap of consumer sessions and the broker's
  map from ack tokens to the runtime that issued them. \<open>hooks\<close> stands for the two callbacks
  of \<open>SetTokenHooks\<close>: \<open>None\<close> while they are nil, \<open>Some a\<close> once the broker has installed
  the closures that register tokens for the runtime at address \<open>a\<close>.

  Each operation is the body of the Go method between \<open>Lock\<close> and \<open>Unlock\<close>. A result
  \<open>None\<close> is a run-time panic; \<open>Blocked\<close> is a \<open>Publish\<close> that waits on the condition variable
  for room. \<open>notifyDistributor\<close> is a channel of capacity one: full or empty.
\<close>

subsection \<open>The shared world\<close>

record world =
  w_clock :: clock
  w_uuids :: "nat \<Rightarrow> string"
  w_uuid_pos :: nat
  w_wal :: file_wal
  w_sessions :: "nat \<Rightarrow> consumer_session option"
  w_tokenOwners :: "nat gomap"

definition w_Now :: "world \<Rightarrow> int \<times> world" where
  "w_Now w = (let (t, c) = time_Now (w_clock w) in (t, w\<lparr>w_clock := c\<rparr>))"

definition NewString :: "world \<Rightarrow> string \<times> world" where
  "NewString w = (w_uuids w (w_uuid_pos w), w\<lparr>w_uuid_pos := w_uuid_pos w + 1\<rparr>)"

definition w_Append :: "log_record \<Rightarrow> world \<Rightarrow> err option \<times> world" where
  "w_Append r w = (let (e, f) = wal_Append r (w_wal w) in (e, w\<lparr>w_wal := f\<rparr>))"

definition upd_session :: "nat \<Rightarrow> (consumer_session \<Rightarrow> consumer_session) \<Rightarrow> world \<Rightarrow> world" where
  "upd_session a f w =
     (case w_sessions w a of
        None \<Rightarrow> w
      | Some s \<Rightarrow> w\<lparr>w_sessions := (w_sessions w)(a \<mapsto> f s)\<rparr>)"

subsection \<open>The runtime\<close>

record queue_runtime =
  q_name :: string
  q_config :: config
  q_closed :: bool
  q_queue :: ring_buffer
  q_inFlight :: manager
  q_dlq :: dlq
  consumerSessions :: "nat gomap"
  consumerOrder :: "string list"
  nextConsumer :: nat
  notifyDistributor :: bool
  hooks :: "nat option"
  ackedCount :: int
  producedCount :: int
  redeliveredCount :: int
  deadletteredCount :: int

definition notify :: "queue_runtime \<Rightarrow> queue_runtime" where
  "notify q = q\<lparr>notifyDistributor := True\<rparr>"

definition registerToken :: "string \<Rightarrow> queue_runtime \<Rightarrow> world \<Rightarrow> world" where
  "registerToken token q w =
     (case hooks q of
        None \<Rightarrow> w
      | Some a \<Rightarrow> w\<lparr>w_tokenOwners := gm_put token a (w_tokenOwners w)\<rparr>)"

definition removeToken :: "string \<Rightarrow> queue_runtime \<Rightarrow> world \<Rightarrow> world" where
  "removeToken token q w =
     (case hooks q of
        None \<Rightarrow> w
      | Some a \<Rightarrow> w\<lparr>w_tokenOwners := gm_del token (w_tokenOwners w)\<rparr>)"

definition SetTokenHooks :: "nat \<Rightarrow> queue_runtime \<Rightarrow> queue_runtime" where
  "SetTokenHooks a q = q\<lparr>hooks := Some a\<rparr>"

fun push_recovered :: "message list \<Rightarrow> queue_runtime \<Rightarrow> queue_runtime option" where
  "push_recovered [] q = Some q"
| "push_recovered (msg # messages) q =
     (case rb_Push msg (q_queue q) of
        None \<Rightarrow> None
      | Some r \<Rightarrow> push_recovered messages
          (q\<lparr>q_queue := r, producedCount := producedCount q + 1\<rparr>))"

definition NewQueueRuntime ::
  "string \<Rightarrow> config \<Rightarrow> message list \<Rightarrow> ring_buffer \<Rightarrow> dlq \<Rightarrow> manager \<Rightarrow> queue_runtime option" where
  "NewQueueRuntime name cfg messages q dlq manager =
     map_option notify (push_recovered messages
       \<lparr>q_name = name, q_config = cfg, q_closed = False, q_queue = q, q_inFlight = manager,
        q_dlq = dlq, consumerSessions = [], consumerOrder = [], nextConsumer = 0,
        notifyDistributor = False, hooks = None, ackedCount = 0, producedCount = 0,
        redeliveredCount = 0, deadletteredCount = 0\<rparr>)"

datatype publish_result = Accepted | Blocked | Refused err

definition stamp :: "message \<Rightarrow> int \<Rightarrow> world \<Rightarrow> message \<times> world" where
  "stamp message ttl w =
     (let (m1, w1) = (if ID message = '''' then let (u, w1) = NewString w in (message\<lparr>ID := u\<rparr>, w1)
                      else (message, w));
          (now, w2) = w_Now w1;
          m2 = m1\<lparr>Timestamp := now\<rparr>
      in (if ttl > 0 then m2\<lparr>ExpiryAt := Some (Timestamp m2 + ttl)\<rparr> else m2, w2))"

definition qr_Publish ::
  "message \<Rightarrow> int \<Rightarrow> world \<Rightarrow> queue_runtime \<Rightarrow> (publish_result \<times> world \<times> queue_runtime) option" where
  "qr_Publish message ttl w q =
     (if \<not> q_closed q \<and> rb_Size (q_queue q) = rb_Capacity (q_queue q) then Some (Blocked, w, q)
      else if q_closed q then Some (Refused ErrBrokerClosed, w, q)
      else let (m, w1) = stamp message ttl w
           in case w_Append (zero_record\<lparr>r_Type := Published, r_Queue := q_name q, r_Message := m,
                               r_MessageID := ID m\<rparr>) w1 of
                (Some e, w2) \<Rightarrow> Some (Refused e, w2, q)
              | (None, w2) \<Rightarrow>
                  (case rb_Push m (q_queue q) of
                     None \<Rightarrow> None
                   | Some r \<Rightarrow> Some (Accepted, w2,
                       notify (q\<lparr>q_queue := r, producedCount := producedCount q + 1\<rparr>))))"

definition release :: "string \<Rightarrow> queue_runtime \<Rightarrow> world \<Rightarrow> world" where
  "release consumerID q w =
     (case map_of (consumerSessions q) consumerID of
        None \<Rightarrow> w
      | Some a \<Rightarrow> upd_session a (\<lambda>s. s\<lparr>UnackedCount := UnackedCount s - 1\<rparr>) w)"

definition qr_Ack :: "string \<Rightarrow> world \<Rightarrow> queue_runtime \<Rightarrow> err option \<times> world \<times> queue_runtime" where
  "qr_Ack token w q =
     (case mgr_Get token (q_inFlight q) of
        None \<Rightarrow> (Some ErrInvalidAckToken, w, q)
      | Some inflight \<Rightarrow>
          (case w_Append (zero_record\<lparr>r_Type := Acknowledged, r_Queue := q_name q,
                            r_Message := if_Message inflight,
                            r_MessageID := ID (if_Message inflight)\<rparr>) w of
             (Some e, w1) \<Rightarrow> (Some e, w1, q)
           | (None, w1) \<Rightarrow>
               let q1 = q\<lparr>q_inFlight := snd (mgr_Remove token (q_inFlight q))\<rparr>;
                   w2 = removeToken token q1 w1;
                   q2 = q1\<lparr>ackedCount := ackedCount q1 + 1\<rparr>;
                   w3 = release (if_ConsumerID inflight) q2 w2
               in (None, w3, notify q2)))"

definition close_sessions :: "nat list \<Rightarrow> world \<Rightarrow> world" where
  "close_sessions as w = fold (\<lambda>a. upd_session a cs_Close) as w"

definition qr_Shutdown :: "world \<Rightarrow> queue_runtime \<Rightarrow> world \<times> queue_runtime" where
  "qr_Shutdown w q =
     (close_sessions (map snd (consumerSessions q)) w,
      q\<lparr>q_closed := True, consumerSessions := [], consumerOrder := [], nextConsumer := 0\<rparr>)"

definition qr_Metrics :: "queue_runtime \<Rightarrow> metric" where
  "qr_Metrics q =
     \<lparr>ProducedCount = producedCount q, AckedCount = ackedCount q, DlqCount = deadletteredCount q,
      InflightCount = mgr_Size (q_inFlight q), RedeliveredCount = redeliveredCount q,
      ConsumerSessionCount = int (length (consumerSessions q)), QueueDepth = rb_Size (q_queue q)\<rparr>"

definition qr_Subscribe ::
  "nat \<Rightarrow> world \<Rightarrow> queue_runtime \<Rightarrow> (err option \<times> queue_runtime) option" where
  "qr_Subscribe a w q =
     (if q_closed q then Some (Some ErrBrokerClosed, q)
      else case w_sessions w a of
        None \<Rightarrow> None
      | Some s \<Rightarrow>
          (case map_of (consumerSessions q) (cs_ID s) of
             Some _ \<Rightarrow> Some (None, q)
           | None \<Rightarrow> Some (None, notify (q\<lparr>
               consumerSessions := gm_put (cs_ID s) a (consumerSessions q),
               consumerOrder := consumerOrder q @ [cs_ID s]\<rparr>))))"

definition qr_Unsubscribe :: "string \<Rightarrow> world \<Rightarrow> queue_runtime \<Rightarrow> world \<times> queue_runtime" where
  "qr_Unsubscribe i w q =
     (case map_of (consumerSessions q) i of
        None \<Rightarrow> (w, q)
      | Some a \<Rightarrow>
          let order = DeleteFunc (consumerOrder q) (\<lambda>sessionId. sessionId = i)
          in (upd_session a cs_Close w,
              q\<lparr>consumerSessions := gm_del i (consumerSessions q), consumerOrder := order,
                nextConsumer := (if length order = 0 then 0
                                 else nextConsumer q mod length order)\<rparr>))"

definition qr_cancelReservation ::
  "delivery \<Rightarrow> world \<Rightarrow> queue_runtime \<Rightarrow> (world \<times> queue_runtime) option" where
  "qr_cancelReservation d w q =
     (let (removed, mgr) = mgr_Remove (d_AckToken d) (q_inFlight q);
          q1 = q\<lparr>q_inFlight := mgr\<rparr>;
          w1 = (case removed of None \<Rightarrow> w | Some _ \<Rightarrow> release (d_ConsumerID d) q1 w);
          w2 = removeToken (d_AckToken d) q1 w1
      in case rb_Push (d_Message d) (q_queue q1) of
           None \<Rightarrow> None
         | Some r \<Rightarrow> Some (w2, notify (q1\<lparr>q_queue := r\<rparr>)))"

text \<open>
  The search of \<open>nextSession\<close>: the body of the loop runs at most once per consumer, because
  the index returns to its start after one round; \<open>fuel\<close> is the number of consumers.
  A consumer in the order without an entry in the map would be a nil pointer (panic).
\<close>

fun next_loop :: "nat \<Rightarrow> nat \<Rightarrow> world \<Rightarrow> queue_runtime \<Rightarrow> (nat option \<times> queue_runtime) option" where
  "next_loop 0 start w q = None"
| "next_loop (Suc fuel) start w q =
     (let i = consumerOrder q ! nextConsumer q;
          q1 = q\<lparr>nextConsumer := (nextConsumer q + 1) mod length (consumerOrder q)\<rparr>
      in case map_of (consumerSessions q) i of
           None \<Rightarrow> None
         | Some a \<Rightarrow>
             (case w_sessions w a of
                None \<Rightarrow> None
              | Some s \<Rightarrow>
                  if IsEligible (ConsumerPrefetch (q_config q)) s then Some (Some a, q1)
                  else if nextConsumer q1 = start then Some (None, q1)
                  else next_loop fuel start w q1))"

definition nextSession :: "world \<Rightarrow> queue_runtime \<Rightarrow> (nat option \<times> queue_runtime) option" where
  "nextSession w q =
     (if length (consumerOrder q) = 0 then Some (None, q)
      else let q1 = (if nextConsumer q \<ge> length (consumerOrder q) then q\<lparr>nextConsumer := 0\<rparr> else q)
           in next_loop (length (consumerOrder q)) (nextConsumer q1) w q1)"

definition isExpired :: "message \<Rightarrow> world \<Rightarrow> bool \<times> world" where
  "isExpired m w =
     (case ExpiryAt m of
        None \<Rightarrow> (False, w)
      | Some t \<Rightarrow> let (now, w1) = w_Now w in (\<not> now < t, w1))"

function deadLetterExpiredMessages ::
  "world \<Rightarrow> queue_runtime \<Rightarrow> (err option \<times> world \<times> queue_runtime) option" where
  "deadLetterExpiredMessages w q =
     (if rb_Size (q_queue q) > 0 then
        (case rb_Peek (q_queue q) of
           None \<Rightarrow> None
         | Some m \<Rightarrow>
             (case isExpired m w of
                (False, w1) \<Rightarrow> Some (None, w1, q)
              | (True, w1) \<Rightarrow>
                  (case w_Append (zero_record\<lparr>r_Type := DeadLettered, r_Queue := q_name q,
                                    r_MessageID := ID m\<rparr>) w1 of
                     (Some e, w2) \<Rightarrow> Some (Some e, w2, q)
                   | (None, w2) \<Rightarrow>
                       (case rb_Pop (q_queue q) of
                          None \<Rightarrow> None
                        | Some (_, r) \<Rightarrow> deadLetterExpiredMessages w2
                            (q\<lparr>q_queue := r, q_dlq := dlq_Push m (q_dlq q),
                               deadletteredCount := deadletteredCount q + 1\<rparr>)))))
      else Some (None, w, q))"
  by pat_completeness auto
termination
  by (relation "measure (\<lambda>(w, q). nat (rb_Size (q_queue q)))")
    (auto simp: rb_Pop_def rb_Size_def split: if_splits)

declare deadLetterExpiredMessages.simps [simp del]

definition checkExpiredMessages ::
  "world \<Rightarrow> queue_runtime \<Rightarrow> (err option \<times> world \<times> queue_runtime) option" where
  "checkExpiredMessages w q = deadLetterExpiredMessages w q"

definition qr_reserveDelivery ::
  "world \<Rightarrow> queue_runtime \<Rightarrow> ((nat \<times> delivery) option \<times> world \<times> queue_runtime) option" where
  "qr_reserveDelivery w q =
     (case deadLetterExpiredMessages w q of
        None \<Rightarrow> None
      | Some (Some e, w1, q1) \<Rightarrow> Some (None, w1, q1)
      | Some (None, w1, q1) \<Rightarrow>
          if rb_Size (q_queue q1) = 0 \<or> length (consumerSessions q1) = 0 then Some (None, w1, q1)
          else
            (case nextSession w1 q1 of
               None \<Rightarrow> None
             | Some (None, q2) \<Rightarrow> Some (None, w1, q2)
             | Some (Some a, q2) \<Rightarrow>
                 let (token, w2) = NewString w1
                 in case (rb_Pop (q_queue q2), w_sessions w2 a) of
                      (Some (m, r), Some s) \<Rightarrow>
                        let (mgr, c) = mgr_Add token m (cs_ID s) (w_clock w2) (q_inFlight q2);
                            w3 = upd_session a (\<lambda>s. s\<lparr>UnackedCount := UnackedCount s + 1\<rparr>)
                                   (w2\<lparr>w_clock := c\<rparr>);
                            q3 = q2\<lparr>q_queue := r, q_inFlight := mgr\<rparr>;
                            w4 = registerToken token q3 w3
                        in Some (Some (a, \<lparr>d_Message = m, d_AckToken = token, d_ConsumerID = cs_ID s\<rparr>),
                                 w4, q3)
                    | _ \<Rightarrow> None))"

text \<open>One turn of the loop in \<open>processExpiredMessages\<close>.\<close>

definition redeliver_item ::
  "delivery \<Rightarrow> world \<Rightarrow> queue_runtime \<Rightarrow> (world \<times> queue_runtime) option" where
  "redeliver_item item w q =
     (if rb_Size (q_queue q) = rb_Capacity (q_queue q) then Some (w, q)
      else if Retry (d_Message item) \<ge> MaxRetries (q_config q) then
        (case w_Append (zero_record\<lparr>r_Type := DeadLettered, r_Queue := q_name q,
                          r_MessageID := ID (d_Message item)\<rparr>) w of
           (Some e, w1) \<Rightarrow> Some (w1, q)
         | (None, w1) \<Rightarrow>
             let q1 = q\<lparr>q_dlq := dlq_Push (d_Message item) (q_dlq q),
                        q_inFlight := snd (mgr_Remove (d_AckToken item) (q_inFlight q))\<rparr>;
                 w2 = removeToken (d_AckToken item) q1 w1;
                 q2 = q1\<lparr>deadletteredCount := deadletteredCount q1 + 1\<rparr>
             in Some (release (d_ConsumerID item) q2 w2, q2))
      else
        let m = (d_Message item)\<lparr>Retry := Retry (d_Message item) + 1\<rparr>
        in case w_Append (zero_record\<lparr>r_Type := Requeued, r_Queue := q_name q, r_Message := m,
                            r_MessageID := ID m\<rparr>) w of
             (Some e, w1) \<Rightarrow> Some (w1, q)
           | (None, w1) \<Rightarrow>
               (case rb_Push m (q_queue q) of
                  None \<Rightarrow> None
                | Some r \<Rightarrow>
                    let q1 = q\<lparr>q_queue := r,
                               q_inFlight := snd (mgr_Remove (d_AckToken item) (q_inFlight q))\<rparr>;
                        w2 = removeToken (d_AckToken item) q1 w1;
                        q2 = q1\<lparr>redeliveredCount := redeliveredCount q1 + 1\<rparr>
                    in Some (release (d_ConsumerID item) q2 w2, notify q2)))"

fun redeliver_loop ::
  "delivery list \<Rightarrow> world \<Rightarrow> queue_runtime \<Rightarrow> (world \<times> queue_runtime) option" where
  "redeliver_loop [] w q = Some (w, q)"
| "redeliver_loop (item # items) w q =
     (case redeliver_item item w q of
        None \<Rightarrow> None
      | Some (w1, q1) \<Rightarrow> redeliver_loop items w1 q1)"

definition processExpiredMessages ::
  "string list \<Rightarrow> world \<Rightarrow> queue_runtime \<Rightarrow> (world \<times> queue_runtime) option" where
  "processExpiredMessages order w q =
     (if q_closed q then Some (w, q)
      else let (items, c) = mgr_Expired (AckTimeout (q_config q)) order (q_inFlight q) (w_clock w)
           in redeliver_loop items (w\<lparr>w_clock := c\<rparr>) q)"

definition CloseIfEmpty :: "world \<Rightarrow> queue_runtime \<Rightarrow> bool \<times> world \<times> queue_runtime" where
  "CloseIfEmpty w q =
     (if rb_Size (q_queue q) \<noteq> 0 \<or> mgr_Size (q_inFlight q) \<noteq> 0 then (False, w, q)
      else (True, close_sessions (map snd (consumerSessions q)) w,
        q\<lparr>q_closed := True, consumerSessions := [], consumerOrder := [], nextConsumer := 0\<rparr>))"

end
