(* ===== verification/Queue_Invariants.thy ===== *)
theory Queue_Invariants
  imports Queue_Runtime
begin

text \<open>
  Well-formedness of a queue runtime, and that every operation keeps it and never panics.

  \<open>qr_wf\<close> is about the runtime alone: its ring buffer and in-flight map are well formed, the
  round-robin order lists the subscribed consumers once each, the next index is inside it and
  a closed runtime has no consumers. \<open>sess_ok\<close> ties it to the session heap: a subscribed
  consumer's session exists, carries its identifier and is open.
\<close>

definition qr_wf :: "queue_runtime \<Rightarrow> bool" where
  "qr_wf q \<longleftrightarrow> rb_invar (q_queue q) \<and> mgr_invar (q_inFlight q) \<and> gm_wf (consumerSessions q)
     \<and> distinct (consumerOrder q) \<and> set (consumerOrder q) = dom (map_of (consumerSessions q))
     \<and> (consumerOrder q = [] \<longrightarrow> nextConsumer q = 0)
     \<and> (consumerOrder q \<noteq> [] \<longrightarrow> nextConsumer q < length (consumerOrder q))
     \<and> (q_closed q \<longrightarrow> consumerSessions q = [])"

definition sess_ok :: "world \<Rightarrow> queue_runtime \<Rightarrow> bool" where
  "sess_ok w q \<longleftrightarrow> (\<forall>i a. map_of (consumerSessions q) i = Some a \<longrightarrow>
     (\<exists>s. w_sessions w a = Some s \<and> cs_ID s = i \<and> \<not> Closed s))"

definition qr_messages :: "queue_runtime \<Rightarrow> message multiset" where
  "qr_messages q = mset (rb_list (q_queue q)) + mgr_messages (q_inFlight q)"

subsection \<open>What the primitive steps leave alone\<close>

lemma w_Now_eq: "w_Now w = (readings (w_clock w) (ticks (w_clock w)),
    w\<lparr>w_clock := (w_clock w)\<lparr>ticks := ticks (w_clock w) + 1\<rparr>\<rparr>)"
  by (simp add: w_Now_def time_Now_def)

lemma w_Append_eq: "w_Append r w =
    (fst (wal_Append r (w_wal w)), w\<lparr>w_wal := snd (wal_Append r (w_wal w))\<rparr>)"
  by (simp add: w_Append_def split: prod.splits)

lemma w_Append_result:
  "w_Append r w = (e, w') \<longleftrightarrow> (\<exists>f. wal_Append r (w_wal w) = (e, f) \<and> w' = w\<lparr>w_wal := f\<rparr>)"
  by (auto simp: w_Append_def split: prod.splits)

lemma w_Append_frame:
  assumes "w_Append r w = (e, w')"
  shows "w_sessions w' = w_sessions w" "w_clock w' = w_clock w" "w_uuids w' = w_uuids w"
    "w_uuid_pos w' = w_uuid_pos w" "w_tokenOwners w' = w_tokenOwners w"
  using assms by (auto simp: w_Append_result)

lemma upd_session_simps [simp]:
  "w_clock (upd_session a f w) = w_clock w" "w_wal (upd_session a f w) = w_wal w"
  "w_uuids (upd_session a f w) = w_uuids w" "w_uuid_pos (upd_session a f w) = w_uuid_pos w"
  "w_tokenOwners (upd_session a f w) = w_tokenOwners w"
  "w_sessions (upd_session a f w) b = (if b = a then map_option f (w_sessions w a) else w_sessions w b)"
  by (auto simp: upd_session_def split: option.splits)

lemma release_simps [simp]:
  "w_clock (release i q w) = w_clock w" "w_wal (release i q w) = w_wal w"
  "w_uuids (release i q w) = w_uuids w" "w_uuid_pos (release i q w) = w_uuid_pos w"
  "w_tokenOwners (release i q w) = w_tokenOwners w"
  by (auto simp: release_def split: option.splits)

lemma token_simps [simp]:
  "w_clock (registerToken t q w) = w_clock w" "w_wal (registerToken t q w) = w_wal w"
  "w_uuids (registerToken t q w) = w_uuids w" "w_uuid_pos (registerToken t q w) = w_uuid_pos w"
  "w_sessions (registerToken t q w) = w_sessions w"
  "w_clock (removeToken t q w) = w_clock w" "w_wal (removeToken t q w) = w_wal w"
  "w_uuids (removeToken t q w) = w_uuids w" "w_uuid_pos (removeToken t q w) = w_uuid_pos w"
  "w_sessions (removeToken t q w) = w_sessions w"
  by (simp_all add: registerToken_def removeToken_def split: option.splits)

lemma release_cong: "consumerSessions q' = consumerSessions q \<Longrightarrow> release i q' w = release i q w"
  by (simp add: release_def)

lemma token_cong:
  "hooks q' = hooks q \<Longrightarrow> removeToken t q' w = removeToken t q w"
  "hooks q' = hooks q \<Longrightarrow> registerToken t q' w = registerToken t q w"
  by (simp_all add: removeToken_def registerToken_def)

lemma callback_upd [simp]:
  "release i (q\<lparr>q_inFlight := x\<rparr>) w = release i q w"
  "release i (q\<lparr>q_queue := r\<rparr>) w = release i q w"
  "release i (q\<lparr>q_dlq := d\<rparr>) w = release i q w"
  "release i (q\<lparr>ackedCount := n\<rparr>) w = release i q w"
  "release i (q\<lparr>redeliveredCount := n\<rparr>) w = release i q w"
  "release i (q\<lparr>deadletteredCount := n\<rparr>) w = release i q w"
  "removeToken t (q\<lparr>q_inFlight := x\<rparr>) w = removeToken t q w"
  "removeToken t (q\<lparr>q_queue := r\<rparr>) w = removeToken t q w"
  "removeToken t (q\<lparr>q_dlq := d\<rparr>) w = removeToken t q w"
  "registerToken t (q\<lparr>q_inFlight := x\<rparr>) w = registerToken t q w"
  "registerToken t (q\<lparr>q_queue := r\<rparr>) w = registerToken t q w"
  "registerToken t (q\<lparr>nextConsumer := k\<rparr>) w = registerToken t q w"
  by (auto intro!: release_cong token_cong)

lemma notify_simps [simp]:
  "q_name (notify q) = q_name q" "q_config (notify q) = q_config q" "q_closed (notify q) = q_closed q"
  "q_queue (notify q) = q_queue q" "q_inFlight (notify q) = q_inFlight q" "q_dlq (notify q) = q_dlq q"
  "consumerSessions (notify q) = consumerSessions q" "consumerOrder (notify q) = consumerOrder q"
  "nextConsumer (notify q) = nextConsumer q" "hooks (notify q) = hooks q"
  "ackedCount (notify q) = ackedCount q" "producedCount (notify q) = producedCount q"
  "redeliveredCount (notify q) = redeliveredCount q"
  "deadletteredCount (notify q) = deadletteredCount q" "notifyDistributor (notify q)"
  by (simp_all add: notify_def)

lemma close_sessions_simps [simp]:
  "w_clock (close_sessions as w) = w_clock w" "w_wal (close_sessions as w) = w_wal w"
  "w_uuids (close_sessions as w) = w_uuids w" "w_uuid_pos (close_sessions as w) = w_uuid_pos w"
  "w_tokenOwners (close_sessions as w) = w_tokenOwners w"
  unfolding close_sessions_def by (induction as arbitrary: w) simp_all

lemma close_sessions_closed:
  "w_sessions (close_sessions as w) b =
     (if b \<in> set as then map_option cs_Close (w_sessions w b) else w_sessions w b)"
  unfolding close_sessions_def
proof (induction as arbitrary: w)
  case (Cons a as)
  show ?case by (simp add: Cons option.map_comp comp_def)
qed simp

text \<open>
  \<open>same_sessions\<close>: a step may change counters and channel contents of sessions but neither
  their identifiers nor whether they are open.
\<close>

definition same_sessions :: "world \<Rightarrow> world \<Rightarrow> bool" where
  "same_sessions w w' \<longleftrightarrow> (\<forall>a. map_option (\<lambda>s. (cs_ID s, Closed s)) (w_sessions w' a)
     = map_option (\<lambda>s. (cs_ID s, Closed s)) (w_sessions w a))"

lemma same_sessions_refl [simp]: "w_sessions w' = w_sessions w \<Longrightarrow> same_sessions w w'"
  by (simp add: same_sessions_def)

lemma same_sessions_trans: "same_sessions w w' \<Longrightarrow> same_sessions w' w'' \<Longrightarrow> same_sessions w w''"
  by (simp add: same_sessions_def)

lemma sess_ok_cong:
  assumes "sess_ok w q" and "same_sessions w w'" and "consumerSessions q' = consumerSessions q"
  shows "sess_ok w' q'"
  unfolding sess_ok_def
proof (intro allI impI)
  fix i a
  assume "map_of (consumerSessions q') i = Some a"
  with assms(1,3) obtain s where "w_sessions w a = Some s" "cs_ID s = i" "\<not> Closed s"
    by (auto simp: sess_ok_def)
  with assms(2)[unfolded same_sessions_def, rule_format, of a]
  show "\<exists>s. w_sessions w' a = Some s \<and> cs_ID s = i \<and> \<not> Closed s"
    by (auto simp: map_option_eq_Some)
qed

lemma same_sessions_upd:
  "(\<And>s. cs_ID (f s) = cs_ID s \<and> Closed (f s) = Closed s) \<Longrightarrow> same_sessions w (upd_session a f w)"
  by (simp add: same_sessions_def option.map_comp comp_def)

lemma same_sessions_release [simp]: "same_sessions w (release i q w)"
  unfolding release_def by (cases "map_of (consumerSessions q) i") (simp_all add: same_sessions_upd)

lemma same_sessions_eqD:
  "w_sessions w1 = w_sessions w \<Longrightarrow> same_sessions w1 w' \<Longrightarrow> same_sessions w w'"
  by (simp add: same_sessions_def)

subsection \<open>Well-formedness as a function of the fields\<close>

lemma qr_wf_cong:
  assumes "qr_wf q" and "rb_invar (q_queue q')" and "mgr_invar (q_inFlight q')"
    and "consumerSessions q' = consumerSessions q" and "consumerOrder q' = consumerOrder q"
    and "nextConsumer q' = nextConsumer q" and "q_closed q' = q_closed q"
  shows "qr_wf q'"
  using assms by (simp add: qr_wf_def)

lemma qr_wf_parts:
  "qr_wf q \<Longrightarrow> rb_invar (q_queue q)" "qr_wf q \<Longrightarrow> mgr_invar (q_inFlight q)"
  "qr_wf q \<Longrightarrow> gm_wf (consumerSessions q)"
  by (simp_all add: qr_wf_def)

lemma consumerOrder_empty: "qr_wf q \<Longrightarrow> consumerOrder q = [] \<longleftrightarrow> consumerSessions q = []"
  unfolding qr_wf_def by (metis dom_eq_empty_conv empty_set map_of_eq_empty_iff set_empty)

lemma order_subscribed:
  assumes "qr_wf q" and "sess_ok w q" and "i \<in> set (consumerOrder q)"
  obtains a s where "map_of (consumerSessions q) i = Some a" and "w_sessions w a = Some s"
    and "cs_ID s = i" and "\<not> Closed s"
proof -
  from assms(1,3) obtain a where "map_of (consumerSessions q) i = Some a"
    by (auto simp: qr_wf_def)
  with assms(2) that show thesis by (auto simp: sess_ok_def)
qed

subsection \<open>The round-robin search\<close>

definition eligible :: "world \<Rightarrow> queue_runtime \<Rightarrow> string \<Rightarrow> bool" where
  "eligible w q i =
     (case map_of (consumerSessions q) i of
        None \<Rightarrow> False
      | Some a \<Rightarrow> (case w_sessions w a of
          None \<Rightarrow> False | Some s \<Rightarrow> IsEligible (ConsumerPrefetch (q_config q)) s))"

definition turn :: "queue_runtime \<Rightarrow> nat \<Rightarrow> nat \<Rightarrow> string" where
  "turn q start j = consumerOrder q ! ((start + j) mod length (consumerOrder q))"

lemma round_completed:
  assumes "k < n" and "start < n"
  shows "(start + Suc k) mod n = start \<longleftrightarrow> Suc k = n"
proof
  assume "(start + Suc k) mod n = start"
  then have "(start + Suc k) mod n = (start + 0) mod n" using assms(2) by simp
  with assms mod_add_inj [of start "Suc k" n 0] show "Suc k = n" by fastforce
next
  assume "Suc k = n"
  with assms(2) show "(start + Suc k) mod n = start" by simp
qed

lemma next_loop_finds:
  assumes all: "\<And>i. i \<in> set (consumerOrder q) \<Longrightarrow>
      \<exists>a s. map_of (consumerSessions q) i = Some a \<and> w_sessions w a = Some s"
    and len: "length (consumerOrder q) = n" and start: "start < n"
  shows "k < n \<Longrightarrow> nextConsumer q = (start + k) mod n \<Longrightarrow>
    next_loop (n - k) start w q = Some
      (case find (\<lambda>j. eligible w q (turn q start j)) [k..<n] of
         None \<Rightarrow> (None, q\<lparr>nextConsumer := start\<rparr>)
       | Some j \<Rightarrow> (map_of (consumerSessions q) (turn q start j),
                   q\<lparr>nextConsumer := (start + j + 1) mod n\<rparr>))"
  using all len
proof (induction "n - k" arbitrary: k q)
  case 0
  then show ?case by simp
next
  case (Suc d)
  let ?i = "consumerOrder q ! nextConsumer q"
  let ?q = "q\<lparr>nextConsumer := (nextConsumer q + 1) mod n\<rparr>"
  have i: "?i = turn q start k" using Suc.prems(2,4) by (simp add: turn_def)
  have "?i \<in> set (consumerOrder q)" using Suc.prems(2,4) start by simp
  from Suc.prems(3) [OF this] obtain a s where
    as: "map_of (consumerSessions q) ?i = Some a" "w_sessions w a = Some s" by blast
  have el: "eligible w q (turn q start k) = IsEligible (ConsumerPrefetch (q_config q)) s"
    using as i by (simp add: eligible_def)
  have nxt: "(nextConsumer q + 1) mod n = (start + Suc k) mod n"
    using Suc.prems(2) by (simp add: mod_Suc_eq)
  have fuel: "n - k = Suc (n - Suc k)" using Suc.prems(1) by simp
  have upt: "[k..<n] = k # [Suc k..<n]" using Suc.prems(1) by (simp add: upt_conv_Cons)
  have same: "eligible w ?q = eligible w q" "turn ?q = turn q"
    by (simp_all add: eligible_def turn_def fun_eq_iff split: option.splits)
  show ?case
  proof (cases "IsEligible (ConsumerPrefetch (q_config q)) s")
    case True
    with as el i nxt show ?thesis unfolding fuel upt using Suc.prems(4) by simp
  next
    case no: False
    show ?thesis
    proof (cases "Suc k = n")
      case True
      then have "(nextConsumer q + 1) mod n = start"
        using nxt round_completed [OF Suc.prems(1) start] by simp
      with True no as el show ?thesis unfolding fuel upt using Suc.prems(4) by simp
    next
      case False
      then have k: "Suc k < n" using Suc.prems(1) by simp
      have "next_loop (n - Suc k) start w ?q = Some
        (case find (\<lambda>j. eligible w ?q (turn ?q start j)) [Suc k..<n] of
           None \<Rightarrow> (None, ?q\<lparr>nextConsumer := start\<rparr>)
         | Some j \<Rightarrow> (map_of (consumerSessions ?q) (turn ?q start j),
                     ?q\<lparr>nextConsumer := (start + j + 1) mod n\<rparr>))"
        using Suc.hyps(2) k Suc.prems nxt by (intro Suc.hyps(1)) auto
      moreover have "(nextConsumer q + 1) mod n \<noteq> start"
        using False nxt round_completed [OF Suc.prems(1) start] by simp
      ultimately show ?thesis unfolding fuel upt using no as el same Suc.prems(4)
        by (simp split: option.splits)
    qed
  qed
qed

lemma nextSession_spec:
  assumes wf: "qr_wf q" and ok: "sess_ok w q"
  shows "nextSession w q = Some
    (case find (\<lambda>j. eligible w q (turn q (nextConsumer q) j)) [0..<length (consumerOrder q)] of
       None \<Rightarrow> (None, q)
     | Some j \<Rightarrow> (map_of (consumerSessions q) (turn q (nextConsumer q) j),
          q\<lparr>nextConsumer := (nextConsumer q + j + 1) mod length (consumerOrder q)\<rparr>))"
proof (cases "consumerOrder q = []")
  case True
  then show ?thesis by (simp add: nextSession_def)
next
  case False
  with wf have n: "nextConsumer q < length (consumerOrder q)" by (simp add: qr_wf_def)
  have "\<exists>a s. map_of (consumerSessions q) i = Some a \<and> w_sessions w a = Some s"
    if "i \<in> set (consumerOrder q)" for i
    using order_subscribed [OF wf ok that] by metis
  from next_loop_finds [OF this refl n, of 0] False n show ?thesis
    by (simp add: nextSession_def split: option.splits)
qed

lemma nextSession_cases:
  assumes wf: "qr_wf q" and ok: "sess_ok w q" and res: "nextSession w q = Some (r, q')"
  shows "\<exists>n. q' = q\<lparr>nextConsumer := n\<rparr>" and "qr_wf q'" and "sess_ok w q'"
    and "\<And>a. r = Some a \<Longrightarrow> \<exists>i s. map_of (consumerSessions q) i = Some a \<and> w_sessions w a = Some s
      \<and> cs_ID s = i \<and> \<not> Closed s \<and> UnackedCount s < ConsumerPrefetch (q_config q)"
proof -
  let ?n = "length (consumerOrder q)"
  note res' = res[unfolded nextSession_spec [OF wf ok]]
  show ex: "\<exists>n. q' = q\<lparr>nextConsumer := n\<rparr>"
    using res' by (auto split: option.splits intro: exI [of _ "nextConsumer q"])
  then show "sess_ok w q'" using ok by (auto simp: sess_ok_def)
  have "consumerOrder q \<noteq> [] \<longrightarrow> nextConsumer q' < ?n" "consumerOrder q = [] \<longrightarrow> nextConsumer q' = 0"
    using res' wf by (auto simp: qr_wf_def split: option.splits)
  with ex wf show "qr_wf q'" by (elim exE) (simp add: qr_wf_def)
  fix a
  assume "r = Some a"
  with res' obtain j where j: "eligible w q (turn q (nextConsumer q) j)"
    "map_of (consumerSessions q) (turn q (nextConsumer q) j) = Some a"
    by (auto simp: find_Some_iff split: option.splits)
  from j(2) ok obtain s where s: "w_sessions w a = Some s" "cs_ID s = turn q (nextConsumer q) j"
    "\<not> Closed s" by (auto simp: sess_ok_def)
  with j have "UnackedCount s < ConsumerPrefetch (q_config q)"
    by (simp add: eligible_def IsEligible_def)
  with j(2) s show "\<exists>i s. map_of (consumerSessions q) i = Some a \<and> w_sessions w a = Some s
      \<and> cs_ID s = i \<and> \<not> Closed s \<and> UnackedCount s < ConsumerPrefetch (q_config q)"
    by blast
qed

subsection \<open>Publishing\<close>

definition publish_record :: "queue_runtime \<Rightarrow> message \<Rightarrow> log_record" where
  "publish_record q m = zero_record\<lparr>r_Type := Published, r_Queue := q_name q, r_Message := m,
     r_MessageID := ID m\<rparr>"

lemma stamp_world:
  assumes "stamp m ttl w = (m', w')"
  shows "w_sessions w' = w_sessions w" "w_wal w' = w_wal w" "w_tokenOwners w' = w_tokenOwners w"
    "w_uuids w' = w_uuids w" "w_uuid_pos w \<le> w_uuid_pos w'"
    "readings (w_clock w') = readings (w_clock w)" "ticks (w_clock w') = Suc (ticks (w_clock w))"
  using assms by (auto simp: stamp_def Let_def NewString_def w_Now_eq split: if_splits)

lemma stamp_message:
  assumes "stamp m ttl w = (m', w')"
  shows "ID m' = (if ID m = '''' then w_uuids w (w_uuid_pos w) else ID m)"
    "Payload m' = Payload m" "Retry m' = Retry m"
    "Timestamp m' = readings (w_clock w) (ticks (w_clock w))"
    "ExpiryAt m' = (if ttl > 0 then Some (Timestamp m' + ttl) else ExpiryAt m)"
  using assms by (auto simp: stamp_def Let_def NewString_def w_Now_eq split: if_splits)

lemma qr_Publish_cases:
  assumes wf: "qr_wf q" and res: "qr_Publish m ttl w q = Some (out, w', q')"
  obtains
    (blocked) "out = Blocked" "w' = w" "q' = q" "\<not> q_closed q"
      "rb_Size (q_queue q) = rb_Capacity (q_queue q)"
  | (closed) "out = Refused ErrBrokerClosed" "w' = w" "q' = q" "q_closed q"
  | (log_failed) e m' w1 where "out = Refused e" "q' = q" "\<not> q_closed q"
      "stamp m ttl w = (m', w1)" "w_Append (publish_record q m') w1 = (Some e, w')"
  | (accepted) m' w1 r where "out = Accepted" "\<not> q_closed q" "stamp m ttl w = (m', w1)"
      "w_Append (publish_record q m') w1 = (None, w')" "rb_invar r"
      "rb_list r = rb_list (q_queue q) @ [m']" "rb_Capacity r = rb_Capacity (q_queue q)"
      "rb_Size r = rb_Size (q_queue q) + 1"
      "q' = notify (q\<lparr>q_queue := r, producedCount := producedCount q + 1\<rparr>)"
proof (cases "rb_Size (q_queue q) = rb_Capacity (q_queue q)")
  case True
  with res blocked closed show thesis by (auto simp: qr_Publish_def split: if_splits)
next
  case room: False
  show thesis
  proof (cases "q_closed q")
    case True
    with res closed show thesis by (auto simp: qr_Publish_def)
  next
    case open': False
    obtain m' w1 where st: "stamp m ttl w = (m', w1)" by (cases "stamp m ttl w")
    obtain e w2 where ap: "w_Append (publish_record q m') w1 = (e, w2)"
      by (cases "w_Append (publish_record q m') w1")
    note inv = qr_wf_parts(1) [OF wf]
    obtain r where r: "rb_Push m' (q_queue q) = Some r" using rb.push_ok [OF inv room] by blast
    note run = res[unfolded qr_Publish_def publish_record_def [symmetric]]
    show thesis
    proof (cases e)
      case None
      with run room open' st ap r have
        "out = Accepted" "w' = w2" "q' = notify (q\<lparr>q_queue := r, producedCount := producedCount q + 1\<rparr>)"
        by simp_all
      with accepted [of m' w1 r] open' st ap None rb.push_content [OF inv room r] show thesis by simp
    next
      case (Some e')
      with run room open' st ap have "out = Refused e'" "w' = w2" "q' = q" by simp_all
      with log_failed [of e' m' w1] open' st ap Some show thesis by simp
    qed
  qed
qed

lemma qr_Publish_total: "qr_wf q \<Longrightarrow> \<exists>out w' q'. qr_Publish m ttl w q = Some (out, w', q')"
  using rb.push_ok [of "q_queue q" "fst (stamp m ttl w)"]
  by (cases "rb_Size (q_queue q) = rb_Capacity (q_queue q)")
    (auto simp: qr_wf_parts qr_Publish_def split: prod.splits option.splits)

lemma qr_Publish_wf:
  assumes "qr_wf q" and "qr_Publish m ttl w q = Some (out, w', q')"
  shows "qr_wf q'"
  using assms by (cases rule: qr_Publish_cases) (use assms(1) in \<open>simp_all add: qr_wf_def\<close>)

lemma qr_Publish_sess_ok:
  assumes "qr_wf q" and "sess_ok w q" and "qr_Publish m ttl w q = Some (out, w', q')"
  shows "sess_ok w' q'"
  using assms(1,3)
proof (cases rule: qr_Publish_cases)
  case (log_failed e m' w1)
  then show ?thesis
    by (intro sess_ok_cong [OF assms(2)]) (auto simp: w_Append_result stamp_world)
next
  case (accepted m' w1 r)
  then show ?thesis
    by (intro sess_ok_cong [OF assms(2)]) (auto simp: w_Append_result stamp_world)
qed (use assms(2) in simp_all)

subsection \<open>Acknowledging\<close>

definition ack_record :: "queue_runtime \<Rightarrow> message \<Rightarrow> log_record" where
  "ack_record q m = zero_record\<lparr>r_Type := Acknowledged, r_Queue := q_name q, r_Message := m,
     r_MessageID := ID m\<rparr>"

lemma qr_Ack_cases:
  assumes res: "qr_Ack t w q = (out, w', q')"
  obtains
    (unknown) "mgr_Get t (q_inFlight q) = None" "out = Some ErrInvalidAckToken" "w' = w" "q' = q"
  | (log_failed) e i where "mgr_Get t (q_inFlight q) = Some i" "out = Some e" "q' = q"
      "w_Append (ack_record q (if_Message i)) w = (Some e, w')"
  | (acked) i w1 where "mgr_Get t (q_inFlight q) = Some i" "out = None"
      "w_Append (ack_record q (if_Message i)) w = (None, w1)"
      "w' = release (if_ConsumerID i) q (removeToken t q w1)"
      "q' = notify (q\<lparr>q_inFlight := snd (mgr_Remove t (q_inFlight q)), ackedCount := ackedCount q + 1\<rparr>)"
proof (cases "mgr_Get t (q_inFlight q)")
  case None
  show thesis by (rule unknown) (use res None in \<open>simp_all add: qr_Ack_def\<close>)
next
  case (Some i)
  obtain e w1 where ap: "w_Append (ack_record q (if_Message i)) w = (e, w1)"
    by (cases "w_Append (ack_record q (if_Message i)) w")
  note run = res[unfolded qr_Ack_def ack_record_def [symmetric]]
  show thesis
  proof (cases e)
    case None
    with run Some ap have "out = None"
      "w' = release (if_ConsumerID i) q (removeToken t q w1)"
      "q' = notify (q\<lparr>q_inFlight := snd (mgr_Remove t (q_inFlight q)), ackedCount := ackedCount q + 1\<rparr>)"
      by (simp_all add: Let_def)
    from acked [OF Some this(1) ap [unfolded None] this(2,3)] show thesis .
  next
    case (Some e')
    note get = \<open>mgr_Get t (q_inFlight q) = Some i\<close>
    show thesis by (rule log_failed [OF get, of e']) (use run get ap Some in simp_all)
  qed
qed

lemma qr_Ack_wf:
  assumes "qr_wf q" and "qr_Ack t w q = (out, w', q')"
  shows "qr_wf q'"
  using assms(2)
  by (cases rule: qr_Ack_cases) (use assms(1) in \<open>simp_all add: qr_wf_def ifm.invar_remove\<close>)

lemma qr_Ack_sess_ok:
  assumes "sess_ok w q" and "qr_Ack t w q = (out, w', q')"
  shows "sess_ok w' q'"
  using assms(2)
proof (cases rule: qr_Ack_cases)
  case (acked i w1)
  have "w_sessions (removeToken t q w1) = w_sessions w"
    using w_Append_frame(1) [OF acked(3)] by simp
  from same_sessions_eqD [OF this] have "same_sessions w w'" unfolding acked(4) by simp
  with acked(5) show ?thesis by (intro sess_ok_cong [OF assms(1)]) simp_all
next
  case (log_failed e i)
  with w_Append_frame(1) [OF log_failed(4)] show ?thesis
    by (intro sess_ok_cong [OF assms(1)]) simp_all
qed (use assms(1) in simp)

subsection \<open>Subscribing, unsubscribing, closing\<close>

lemma qr_Shutdown_wf:
  assumes "qr_wf q" and "qr_Shutdown w q = (w', q')"
  shows "qr_wf q'" and "sess_ok w' q'"
  using assms by (auto simp: qr_Shutdown_def qr_wf_def sess_ok_def)

lemma CloseIfEmpty_wf:
  assumes "qr_wf q" and "CloseIfEmpty w q = (b, w', q')"
  shows "qr_wf q'" and "sess_ok w q \<Longrightarrow> sess_ok w' q'"
  using assms by (auto simp: CloseIfEmpty_def qr_wf_def sess_ok_def split: if_splits)

lemma qr_Subscribe_wf:
  assumes wf: "qr_wf q" and res: "qr_Subscribe a w q = Some (e, q')"
  shows "qr_wf q'"
proof (cases "w_sessions w a")
  case None
  with res wf show ?thesis by (simp add: qr_Subscribe_def split: if_splits)
next
  case (Some s)
  show ?thesis
  proof (cases "q_closed q \<or> map_of (consumerSessions q) (cs_ID s) \<noteq> None")
    case True
    with res wf Some show ?thesis by (auto simp: qr_Subscribe_def split: if_splits)
  next
    case False
    with res Some have "q' = notify (q\<lparr>consumerSessions := gm_put (cs_ID s) a (consumerSessions q),
        consumerOrder := consumerOrder q @ [cs_ID s]\<rparr>)"
      by (simp add: qr_Subscribe_def)
    with False wf show ?thesis by (cases "consumerOrder q = []") (auto simp: qr_wf_def domIff)
  qed
qed

lemma qr_Subscribe_sess_ok:
  assumes "sess_ok w q" and "w_sessions w a = Some s" and "\<not> Closed s"
    and "qr_Subscribe a w q = Some (e, q')"
  shows "sess_ok w q'"
  using assms by (auto simp: qr_Subscribe_def sess_ok_def split: if_splits option.splits)

lemma qr_Unsubscribe_wf:
  assumes wf: "qr_wf q" and res: "qr_Unsubscribe i w q = (w', q')"
  shows "qr_wf q'"
proof (cases "map_of (consumerSessions q) i")
  case None
  with res wf show ?thesis by (simp add: qr_Unsubscribe_def)
next
  case (Some a)
  let ?order = "DeleteFunc (consumerOrder q) (\<lambda>sessionId. sessionId = i)"
  from wf have "set ?order = dom (map_of (gm_del i (consumerSessions q)))"
    by (auto simp: qr_wf_def)
  moreover from wf Some have "\<not> q_closed q" by (auto simp: qr_wf_def)
  moreover have "q' = q\<lparr>consumerSessions := gm_del i (consumerSessions q), consumerOrder := ?order,
      nextConsumer := (if length ?order = 0 then 0 else nextConsumer q mod length ?order)\<rparr>"
    using res Some by (simp add: qr_Unsubscribe_def Let_def)
  ultimately show ?thesis using wf by (simp add: qr_wf_def)
qed

text \<open>Two subscribed consumers never share a session object.\<close>

lemma sess_ok_inj:
  "sess_ok w q \<Longrightarrow> map_of (consumerSessions q) i = Some a \<Longrightarrow> map_of (consumerSessions q) j = Some a
   \<Longrightarrow> i = j"
  unfolding sess_ok_def by (metis option.inject)

lemma qr_Unsubscribe_sess_ok:
  assumes ok: "sess_ok w q" and res: "qr_Unsubscribe i w q = (w', q')"
  shows "sess_ok w' q'"
proof (cases "map_of (consumerSessions q) i")
  case None
  with res ok show ?thesis by (simp add: qr_Unsubscribe_def)
next
  case (Some a)
  with res have w': "w' = upd_session a cs_Close w"
    and q': "consumerSessions q' = gm_del i (consumerSessions q)"
    by (auto simp: qr_Unsubscribe_def Let_def)
  have "b \<noteq> a" if "map_of (consumerSessions q) j = Some b" "j \<noteq> i" for j b
    using that sess_ok_inj [OF ok _ Some] by blast
  with ok show ?thesis unfolding sess_ok_def w' q' by simp
qed

subsection \<open>Cancelling a reservation\<close>

lemma qr_cancelReservation_eq:
  "qr_cancelReservation d w q =
     map_option (\<lambda>r. (removeToken (d_AckToken d) q
         (case mgr_Get (d_AckToken d) (q_inFlight q) of
            None \<Rightarrow> w | Some _ \<Rightarrow> release (d_ConsumerID d) q w),
       notify (q\<lparr>q_inFlight := snd (mgr_Remove (d_AckToken d) (q_inFlight q)), q_queue := r\<rparr>)))
     (rb_Push (d_Message d) (q_queue q))"
  by (simp add: qr_cancelReservation_def mgr_Remove_def mgr_Get_def split: option.splits)

lemma qr_cancelReservation_wf:
  assumes "qr_wf q" and "rb_Size (q_queue q) \<noteq> rb_Capacity (q_queue q)"
    and "qr_cancelReservation d w q = Some (w', q')"
  shows "qr_wf q'" and "rb_list (q_queue q') = rb_list (q_queue q) @ [d_Message d]"
    and "rb_Size (q_queue q') = rb_Size (q_queue q) + 1"
proof -
  from assms(3) obtain r where r: "rb_Push (d_Message d) (q_queue q) = Some r"
    and q': "q' = notify (q\<lparr>q_inFlight := snd (mgr_Remove (d_AckToken d) (q_inFlight q)), q_queue := r\<rparr>)"
    by (auto simp: qr_cancelReservation_eq)
  note pc = rb.push_content [OF qr_wf_parts(1) [OF assms(1)] assms(2) r]
  show "qr_wf q'" using assms(1) pc(1) by (simp add: q' qr_wf_def ifm.invar_remove)
  show "rb_list (q_queue q') = rb_list (q_queue q) @ [d_Message d]"
    and "rb_Size (q_queue q') = rb_Size (q_queue q) + 1" using pc q' by simp_all
qed

lemma qr_cancelReservation_sess_ok:
  assumes "sess_ok w q" and "qr_cancelReservation d w q = Some (w', q')"
  shows "sess_ok w' q'"
proof (rule sess_ok_cong [OF assms(1)])
  let ?w = "case mgr_Get (d_AckToken d) (q_inFlight q) of
              None \<Rightarrow> w | Some _ \<Rightarrow> release (d_ConsumerID d) q w"
  from assms(2) have "w_sessions w' = w_sessions ?w"
    and "consumerSessions q' = consumerSessions q"
    by (auto simp: qr_cancelReservation_eq)
  moreover have "same_sessions w ?w" by (simp split: option.splits)
  ultimately show "same_sessions w w'" and "consumerSessions q' = consumerSessions q"
    by (simp_all add: same_sessions_def)
qed

end
