(* ===== verification/Queue_Loops.thy ===== *)
theory Queue_Loops
  imports Queue_Invariants
begin

text \<open>
  The operations of the queue runtime that loop: dead-lettering expired messages, reserving a
  delivery and redelivering unacknowledged messages. Each loop gets one rule
  (\<open>deadLetter_rule\<close>, \<open>redeliver_rule\<close>): a predicate kept by every kind of turn holds at the
  end. The invariants of the later theories are instances of these rules.
\<close>

subsection \<open>Dead-lettering expired messages\<close>

definition dead_record :: "queue_runtime \<Rightarrow> message \<Rightarrow> log_record" where
  "dead_record q m = zero_record\<lparr>r_Type := DeadLettered, r_Queue := q_name q, r_MessageID := ID m\<rparr>"

definition drop_head :: "ring_buffer \<Rightarrow> message \<Rightarrow> queue_runtime \<Rightarrow> queue_runtime" where
  "drop_head r m q = q\<lparr>q_queue := r, q_dlq := dlq_Push m (q_dlq q),
     deadletteredCount := deadletteredCount q + 1\<rparr>"

lemma drop_head_simps [simp]:
  "q_name (drop_head r m q) = q_name q" "q_config (drop_head r m q) = q_config q"
  "q_closed (drop_head r m q) = q_closed q" "q_queue (drop_head r m q) = r"
  "q_inFlight (drop_head r m q) = q_inFlight q" "q_dlq (drop_head r m q) = dlq_Push m (q_dlq q)"
  "consumerSessions (drop_head r m q) = consumerSessions q"
  "consumerOrder (drop_head r m q) = consumerOrder q"
  "nextConsumer (drop_head r m q) = nextConsumer q" "hooks (drop_head r m q) = hooks q"
  "ackedCount (drop_head r m q) = ackedCount q" "producedCount (drop_head r m q) = producedCount q"
  "redeliveredCount (drop_head r m q) = redeliveredCount q"
  "deadletteredCount (drop_head r m q) = deadletteredCount q + 1"
  by (simp_all add: drop_head_def)

lemma qr_wf_drop_head: "qr_wf q \<Longrightarrow> rb_invar r \<Longrightarrow> qr_wf (drop_head r m q)"
  by (simp add: qr_wf_def)

lemma isExpired_world:
  assumes "isExpired m w = (b, w')"
  shows "w_sessions w' = w_sessions w" "w_wal w' = w_wal w" "w_tokenOwners w' = w_tokenOwners w"
    "w_uuids w' = w_uuids w" "w_uuid_pos w' = w_uuid_pos w"
    "readings (w_clock w') = readings (w_clock w)" "ticks (w_clock w) \<le> ticks (w_clock w')"
  using assms by (auto simp: isExpired_def w_Now_eq split: option.splits)

text \<open>One turn of the loop, on a well-formed runtime.\<close>

lemma deadLetter_unfold:
  assumes wf: "qr_wf q"
  shows "deadLetterExpiredMessages w q =
    (case rb_list (q_queue q) of
       [] \<Rightarrow> Some (None, w, q)
     | m # ms \<Rightarrow>
        (case isExpired m w of
           (False, w1) \<Rightarrow> Some (None, w1, q)
         | (True, w1) \<Rightarrow>
             (case w_Append (dead_record q m) w1 of
                (Some e, w2) \<Rightarrow> Some (Some e, w2, q)
              | (None, w2) \<Rightarrow>
                  deadLetterExpiredMessages w2 (drop_head (snd (the (rb_Pop (q_queue q)))) m q))))"
proof (cases "rb_list (q_queue q)")
  case Nil
  with rb.nonempty [OF qr_wf_parts(1) [OF wf]] show ?thesis
    by (subst deadLetterExpiredMessages.simps) simp
next
  case (Cons m ms)
  note inv = qr_wf_parts(1) [OF wf]
  from rb.pop_law [OF inv Cons] rb.peek_law [OF inv Cons] rb.nonempty [OF inv] Cons
  show ?thesis
    by (subst deadLetterExpiredMessages.simps)
      (auto simp: dead_record_def drop_head_def split: prod.splits option.splits bool.splits)
qed

lemma popped:
  assumes "rb_invar q" and "rb_list q = m # ms" and "r = snd (the (rb_Pop q))"
  shows "rb_invar r" and "rb_list r = ms" and "rb_Capacity r = rb_Capacity q"
    and "rb_Size r = rb_Size q - 1" and "rb_Pop q = Some (m, r)"
proof -
  from rb.pop_law [OF assms(1,2)] assms(3)
  show r: "rb_invar r" "rb_list r = ms" "rb_Capacity r = rb_Capacity q" "rb_Pop q = Some (m, r)"
    by auto
  with assms(1,2) show "rb_Size r = rb_Size q - 1" by (simp add: rb.size_content)
qed

lemma deadLetter_rule:
  assumes wf: "qr_wf q" and run: "deadLetterExpiredMessages w q = Some (e, w', q')" and base: "P w q"
    and tick: "\<And>w q m. qr_wf q \<Longrightarrow> P w q \<Longrightarrow> P (snd (isExpired m w)) q"
    and failed: "\<And>w w1 q m e. qr_wf q \<Longrightarrow> P w q \<Longrightarrow>
      w_Append (dead_record q m) w = (Some e, w1) \<Longrightarrow> P w1 q"
    and dropped: "\<And>w0 w w1 q m r. qr_wf q \<Longrightarrow> P w q \<Longrightarrow> isExpired m w0 = (True, w) \<Longrightarrow>
      rb_list (q_queue q) = m # rb_list r \<Longrightarrow> rb_invar r \<Longrightarrow>
      rb_Capacity r = rb_Capacity (q_queue q) \<Longrightarrow> rb_Size r = rb_Size (q_queue q) - 1 \<Longrightarrow>
      w_Append (dead_record q m) w = (None, w1) \<Longrightarrow> P w1 (drop_head r m q)"
  shows "P w' q' \<and> qr_wf q'"
  using wf run base
proof (induction "length (rb_list (q_queue q))" arbitrary: w q)
  case 0
  then show ?case by (simp add: deadLetter_unfold)
next
  case (Suc n)
  then obtain m ms where ms: "rb_list (q_queue q) = m # ms" by (cases "rb_list (q_queue q)") auto
  note inv = qr_wf_parts(1) [OF Suc.prems(1)]
  obtain b w1 where x: "isExpired m w = (b, w1)" by (cases "isExpired m w")
  obtain e1 w2 where a: "w_Append (dead_record q m) w1 = (e1, w2)"
    by (cases "w_Append (dead_record q m) w1")
  note run = Suc.prems(2)[unfolded deadLetter_unfold [OF Suc.prems(1)] ms]
  have P1: "P w1 q" using tick [OF Suc.prems(1,3), of m] x by simp
  consider "\<not> b" | e2 where b "e1 = Some e2" | b "e1 = None" by (cases e1) auto
  then show ?case
  proof cases
    case 1
    with run x P1 Suc.prems(1) show ?thesis by simp
  next
    case 2
    with run x a have "w' = w2" "q' = q" by simp_all
    with failed [OF Suc.prems(1) P1] a 2 Suc.prems(1) show ?thesis by simp
  next
    case 3
    define r where "r = snd (the (rb_Pop (q_queue q)))"
    note p = popped [OF inv ms r_def]
    from 3 x a have "P w2 (drop_head r m q)"
      using dropped [OF Suc.prems(1) P1 _ _ p(1,3,4)] ms p(2) by simp
    moreover from run 3 x a have "deadLetterExpiredMessages w2 (drop_head r m q) = Some (e, w', q')"
      by (simp add: r_def)
    moreover have "n = length (rb_list (q_queue (drop_head r m q)))"
      using Suc.hyps(2) ms p(2) by simp
    ultimately show ?thesis using Suc.hyps(1) qr_wf_drop_head [OF Suc.prems(1) p(1)] by blast
  qed
qed

lemma deadLetter_total:
  "qr_wf q \<Longrightarrow> \<exists>e w' q'. deadLetterExpiredMessages w q = Some (e, w', q')"
proof (induction "length (rb_list (q_queue q))" arbitrary: w q)
  case 0
  then show ?case by (simp add: deadLetter_unfold)
next
  case (Suc n)
  then obtain m ms where ms: "rb_list (q_queue q) = m # ms" by (cases "rb_list (q_queue q)") auto
  define r where "r = snd (the (rb_Pop (q_queue q)))"
  note p = popped [OF qr_wf_parts(1) [OF Suc.prems] ms r_def]
  have "\<exists>e w' q'. deadLetterExpiredMessages w2 (drop_head r m q) = Some (e, w', q')" for w2
    using Suc.hyps ms p(1,2) qr_wf_drop_head [OF Suc.prems p(1)] by simp
  with ms show ?case
    by (subst deadLetter_unfold [OF Suc.prems])
      (auto simp: r_def [symmetric] split: prod.splits bool.splits option.splits)
qed

text \<open>When the loop ends without an error, no expired message is at the head of the queue.\<close>

lemma deadLetter_head:
  assumes "qr_wf q" and "deadLetterExpiredMessages w q = Some (None, w', q')"
  shows "rb_list (q_queue q') = [] \<or> (\<exists>w0. isExpired (hd (rb_list (q_queue q'))) w0 = (False, w'))"
  using assms
proof (induction "length (rb_list (q_queue q))" arbitrary: w q)
  case 0
  then show ?case by (simp add: deadLetter_unfold)
next
  case (Suc n)
  then obtain m ms where ms: "rb_list (q_queue q) = m # ms" by (cases "rb_list (q_queue q)") auto
  obtain b w1 where x: "isExpired m w = (b, w1)" by (cases "isExpired m w")
  define r where "r = snd (the (rb_Pop (q_queue q)))"
  note p = popped [OF qr_wf_parts(1) [OF Suc.prems(1)] ms r_def]
  note run = Suc.prems(2)[unfolded deadLetter_unfold [OF Suc.prems(1)] ms]
  show ?case
  proof (cases b)
    case False
    with run x have "w' = w1" "q' = q" by simp_all
    with x ms False show ?thesis by auto
  next
    case True
    with run x obtain w2 where "deadLetterExpiredMessages w2 (drop_head r m q) = Some (None, w', q')"
      by (auto simp: r_def split: prod.splits option.splits)
    moreover have "n = length (rb_list (q_queue (drop_head r m q)))"
      using Suc.hyps(2) ms p(2) by simp
    ultimately show ?thesis using Suc.hyps(1) qr_wf_drop_head [OF Suc.prems(1) p(1)] by blast
  qed
qed

lemma deadLetter_frame:
  assumes "qr_wf q" and "deadLetterExpiredMessages w q = Some (e, w', q')"
  shows "consumerSessions q' = consumerSessions q \<and> q_config q' = q_config q
    \<and> q_inFlight q' = q_inFlight q \<and> w_sessions w' = w_sessions w"
proof -
  let ?P = "\<lambda>(w' :: world) (q' :: queue_runtime). consumerSessions q' = consumerSessions q \<and> q_config q' = q_config q
    \<and> q_inFlight q' = q_inFlight q \<and> w_sessions w' = w_sessions w"
  have "?P w' q' \<and> qr_wf q'"
  proof (rule deadLetter_rule [where P = ?P, OF assms])
    fix w1 q1 and m :: message
    assume "?P w1 q1"
    then show "?P (snd (isExpired m w1)) q1" by (cases "isExpired m w1") (simp add: isExpired_world)
  next
    fix w1 w2 q1 m e
    assume "?P w1 q1" "w_Append (dead_record q1 m) w1 = (Some e, w2)"
    with w_Append_frame(1) [OF this(2)] show "?P w2 q1" by simp
  next
    fix w0 w1 w2 q1 m r
    assume "?P w1 q1" "w_Append (dead_record q1 m) w1 = (None, w2)"
    with w_Append_frame(1) [OF this(2)] show "?P w2 (drop_head r m q1)" by simp
  qed simp
  then show ?thesis by simp
qed

lemma deadLetter_sess_ok:
  assumes "qr_wf q" and "sess_ok w q" and "deadLetterExpiredMessages w q = Some (e, w', q')"
  shows "sess_ok w' q'"
proof -
  have "sess_ok w' q' \<and> qr_wf q'"
  proof (rule deadLetter_rule [where P = sess_ok, OF assms(1,3,2)])
    fix w q and m :: message
    assume "sess_ok w q"
    then show "sess_ok (snd (isExpired m w)) q"
      by (rule sess_ok_cong) (cases "isExpired m w"; simp add: isExpired_world)+
  next
    fix w w1 q m e
    assume "sess_ok w q" "w_Append (dead_record q m) w = (Some e, w1)"
    then show "sess_ok w1 q" using w_Append_frame(1) by (metis sess_ok_cong same_sessions_refl)
  next
    fix w0 w w1 q m r
    assume ok: "sess_ok w q" and "w_Append (dead_record q m) w = (None, w1)"
    then have "same_sessions w w1" using w_Append_frame(1) by (metis same_sessions_refl)
    then show "sess_ok w1 (drop_head r m q)" by (rule sess_ok_cong [OF ok]) simp
  qed
  then show ?thesis by simp
qed

subsection \<open>Reserving a delivery\<close>

text \<open>
  \<open>take_head\<close> is the part of \<open>reserveDelivery\<close> after a consumer has been chosen: the head
  of the queue moves to the in-flight map under a fresh token, the consumer's counter goes up
  and the token is registered.
\<close>

definition take_head ::
  "nat \<Rightarrow> consumer_session \<Rightarrow> message \<Rightarrow> ring_buffer \<Rightarrow> world \<Rightarrow> queue_runtime \<Rightarrow>
   delivery \<times> world \<times> queue_runtime" where
  "take_head a s m r w q =
     (let token = w_uuids w (w_uuid_pos w);
          (mgr, c) = mgr_Add token m (cs_ID s) (w_clock w) (q_inFlight q)
      in (\<lparr>d_Message = m, d_AckToken = token, d_ConsumerID = cs_ID s\<rparr>,
          registerToken token q (upd_session a (\<lambda>s. s\<lparr>UnackedCount := UnackedCount s + 1\<rparr>)
            (w\<lparr>w_uuid_pos := w_uuid_pos w + 1, w_clock := c\<rparr>)),
          q\<lparr>q_queue := r, q_inFlight := mgr\<rparr>))"

lemma qr_reserveDelivery_cases:
  assumes wf: "qr_wf q" and ok: "sess_ok w q"
    and res: "qr_reserveDelivery w q = Some (out, w', q')"
  obtains
    (idle) e n where "out = None" "deadLetterExpiredMessages w q = Some (e, w', q'\<lparr>nextConsumer := n\<rparr>)"
      "qr_wf q'"
  | (reserved) a s m r w1 q1 n d where "out = Some (a, d)"
      "deadLetterExpiredMessages w q = Some (None, w1, q1)" "qr_wf q1"
      "map_of (consumerSessions q1) (cs_ID s) = Some a" "w_sessions w1 a = Some s" "\<not> Closed s"
      "UnackedCount s < ConsumerPrefetch (q_config q1)" "qr_wf (q1\<lparr>nextConsumer := n\<rparr>)"
      "rb_list (q_queue q1) = m # rb_list r" "rb_invar r"
      "rb_Capacity r = rb_Capacity (q_queue q1)" "rb_Size r = rb_Size (q_queue q1) - 1"
      "take_head a s m r w1 (q1\<lparr>nextConsumer := n\<rparr>) = (d, w', q')"
proof -
  obtain e w1 q1 where dl: "deadLetterExpiredMessages w q = Some (e, w1, q1)"
    using deadLetter_total [OF wf, of w] by blast
  have wf1: "qr_wf q1" using deadLetter_rule [OF wf dl, of "\<lambda>_ _. True"] by simp
  note ok1 = deadLetter_sess_ok [OF wf ok dl]
  show thesis
  proof (cases "e = None \<and> rb_Size (q_queue q1) \<noteq> 0 \<and> length (consumerSessions q1) \<noteq> 0")
    case False
    with res dl have "out = None" "w' = w1" "q' = q1"
      by (auto simp: qr_reserveDelivery_def split: option.splits if_splits)
    with idle [of e "nextConsumer q1"] dl wf1 show thesis by simp
  next
    case True
    obtain x q2 where ns: "nextSession w1 q1 = Some (x, q2)"
      using nextSession_spec [OF wf1 ok1] by (auto split: option.splits)
    note nc = nextSession_cases [OF wf1 ok1 ns]
    obtain n where n: "q2 = q1\<lparr>nextConsumer := n\<rparr>" using nc(1) by blast
    show thesis
    proof (cases x)
      case None
      with res dl True ns have "out = None" "w' = w1" "q' = q2"
        by (simp_all add: qr_reserveDelivery_def)
      with idle [of e "nextConsumer q1"] dl nc(2) n show thesis by simp
    next
      case (Some a)
      from nc(4) [OF Some] obtain s where s: "map_of (consumerSessions q1) (cs_ID s) = Some a"
        "w_sessions w1 a = Some s" "\<not> Closed s" "UnackedCount s < ConsumerPrefetch (q_config q1)"
        by blast
      have inv: "rb_invar (q_queue q1)" using wf1 by (rule qr_wf_parts)
      with True obtain m ms where ms: "rb_list (q_queue q1) = m # ms"
        by (cases "rb_list (q_queue q1)") (auto simp: rb.size_content)
      then obtain r where p: "rb_invar r" "rb_list r = ms" "rb_Capacity r = rb_Capacity (q_queue q1)"
        "rb_Size r = rb_Size (q_queue q1) - 1" "rb_Pop (q_queue q1) = Some (m, r)"
        using popped [OF inv ms refl] by blast
      obtain d w2 q3 where th: "take_head a s m r w1 q2 = (d, w2, q3)"
        by (cases "take_head a s m r w1 q2") auto
      have "Some (out, w', q') = Some (Some (a, d), w2, q3)"
        using res dl True ns Some s(2) p(5) th n
        by (simp add: qr_reserveDelivery_def take_head_def NewString_def Let_def split: prod.splits)
      with reserved [of a d w1 q1 s n m r] dl True wf1 s nc(2) n ms p th show thesis by simp
    qed
  qed
qed

lemma take_head_wf:
  assumes "qr_wf q" and "rb_invar r" and "take_head a s m r w q = (d, w', q')"
  shows "qr_wf q'"
proof -
  let ?add = "mgr_Add (w_uuids w (w_uuid_pos w)) m (cs_ID s) (w_clock w) (q_inFlight q)"
  from assms(3) have "q' = q\<lparr>q_queue := r, q_inFlight := fst ?add\<rparr>"
    by (simp add: take_head_def Let_def split: prod.splits)
  with assms(1,2) show ?thesis by (simp add: qr_wf_def ifm.invar_add)
qed

lemma take_head_sess_ok:
  assumes "sess_ok w q" and "take_head a s m r w q = (d, w', q')"
  shows "sess_ok w' q'"
proof (rule sess_ok_cong [OF assms(1)])
  show "same_sessions w w'" and "consumerSessions q' = consumerSessions q"
    using assms(2) by (auto simp: take_head_def Let_def same_sessions_def option.map_comp comp_def
        split: prod.splits)
qed

lemma qr_reserveDelivery_wf:
  assumes "qr_wf q" and "sess_ok w q" and "qr_reserveDelivery w q = Some (out, w', q')"
  shows "qr_wf q'" and "sess_ok w' q'"
proof -
  note dl = deadLetter_sess_ok [OF assms(1,2)]
  have "qr_wf q' \<and> sess_ok w' q'"
    using assms
  proof (cases rule: qr_reserveDelivery_cases)
    case (idle e n)
    with dl [OF idle(2)] show ?thesis by (simp add: sess_ok_def)
  next
    case (reserved a s m r w1 q1 n d)
    from dl [OF reserved(2)] have "sess_ok w1 (q1\<lparr>nextConsumer := n\<rparr>)" by (simp add: sess_ok_def)
    with reserved show ?thesis using take_head_wf take_head_sess_ok by blast
  qed
  then show "qr_wf q'" and "sess_ok w' q'" by simp_all
qed

lemma qr_reserveDelivery_total:
  assumes wf: "qr_wf q" and ok: "sess_ok w q"
  shows "\<exists>out w' q'. qr_reserveDelivery w q = Some (out, w', q')"
proof -
  obtain e w1 q1 where dl: "deadLetterExpiredMessages w q = Some (e, w1, q1)"
    using deadLetter_total [OF wf, of w] by blast
  have wf1: "qr_wf q1" using deadLetter_rule [OF wf dl, of "\<lambda>_ _. True"] by simp
  note ok1 = deadLetter_sess_ok [OF wf ok dl]
  obtain x q2 where ns: "nextSession w1 q1 = Some (x, q2)"
    using nextSession_spec [OF wf1 ok1] by (auto split: option.splits)
  note nc = nextSession_cases [OF wf1 ok1 ns]
  show ?thesis
  proof (cases "e = None \<and> rb_Size (q_queue q1) \<noteq> 0 \<and> length (consumerSessions q1) \<noteq> 0 \<and> x \<noteq> None")
    case False
    with dl ns show ?thesis by (auto simp: qr_reserveDelivery_def split: option.splits)
  next
    case True
    then obtain a where a: "x = Some a" by auto
    from nc(4) [OF a] obtain s where s: "w_sessions w1 a = Some s" by blast
    have "rb_invar (q_queue q2)" using nc(2) by (rule qr_wf_parts)
    moreover have "0 < rb_Size (q_queue q2)"
      using True nc(1) wf1 rb.size_content [of "q_queue q1"] by (auto simp: qr_wf_def)
    ultimately obtain m r where "rb_Pop (q_queue q2) = Some (m, r)" using rb.pop_ok by blast
    with dl True ns a s show ?thesis
      by (simp add: qr_reserveDelivery_def NewString_def Let_def split: prod.splits)
  qed
qed

subsection \<open>Redelivering unacknowledged messages\<close>

definition in_flight_as :: "delivery \<Rightarrow> queue_runtime \<Rightarrow> bool" where
  "in_flight_as d q \<longleftrightarrow> (\<exists>e. mgr_Get (d_AckToken d) (q_inFlight q) = Some e
     \<and> if_Message e = d_Message d \<and> if_ConsumerID e = d_ConsumerID d)"

lemma in_flight_as_code [code]:
  "in_flight_as d q =
     (case mgr_Get (d_AckToken d) (q_inFlight q) of
        None \<Rightarrow> False
      | Some e \<Rightarrow> if_Message e = d_Message d \<and> if_ConsumerID e = d_ConsumerID d)"
  by (simp add: in_flight_as_def split: option.splits)

definition bump :: "message \<Rightarrow> message" where
  "bump m = m\<lparr>Retry := Retry m + 1\<rparr>"

definition requeue_record :: "queue_runtime \<Rightarrow> message \<Rightarrow> log_record" where
  "requeue_record q m = zero_record\<lparr>r_Type := Requeued, r_Queue := q_name q, r_Message := m,
     r_MessageID := ID m\<rparr>"

definition settle_dead :: "delivery \<Rightarrow> queue_runtime \<Rightarrow> queue_runtime" where
  "settle_dead d q = q\<lparr>q_dlq := dlq_Push (d_Message d) (q_dlq q),
     q_inFlight := snd (mgr_Remove (d_AckToken d) (q_inFlight q)),
     deadletteredCount := deadletteredCount q + 1\<rparr>"

definition settle_requeued :: "ring_buffer \<Rightarrow> delivery \<Rightarrow> queue_runtime \<Rightarrow> queue_runtime" where
  "settle_requeued r d q = notify (q\<lparr>q_queue := r,
     q_inFlight := snd (mgr_Remove (d_AckToken d) (q_inFlight q)),
     redeliveredCount := redeliveredCount q + 1\<rparr>)"

definition settled :: "delivery \<Rightarrow> queue_runtime \<Rightarrow> world \<Rightarrow> world" where
  "settled d q w = release (d_ConsumerID d) q (removeToken (d_AckToken d) q w)"

lemma bump_simps [simp]:
  "ID (bump m) = ID m" "Payload (bump m) = Payload m" "Retry (bump m) = Retry m + 1"
  "ExpiryAt (bump m) = ExpiryAt m" "Timestamp (bump m) = Timestamp m"
  by (simp_all add: bump_def)

lemma settle_simps [simp]:
  "q_name (settle_dead d q) = q_name q" "q_config (settle_dead d q) = q_config q"
  "q_closed (settle_dead d q) = q_closed q" "q_queue (settle_dead d q) = q_queue q"
  "consumerSessions (settle_dead d q) = consumerSessions q"
  "consumerOrder (settle_dead d q) = consumerOrder q" "nextConsumer (settle_dead d q) = nextConsumer q"
  "hooks (settle_dead d q) = hooks q" "q_dlq (settle_dead d q) = dlq_Push (d_Message d) (q_dlq q)"
  "ackedCount (settle_dead d q) = ackedCount q" "producedCount (settle_dead d q) = producedCount q"
  "deadletteredCount (settle_dead d q) = deadletteredCount q + 1"
  "q_inFlight (settle_dead d q) = snd (mgr_Remove (d_AckToken d) (q_inFlight q))"
  "q_name (settle_requeued r d q) = q_name q" "q_config (settle_requeued r d q) = q_config q"
  "q_closed (settle_requeued r d q) = q_closed q" "q_queue (settle_requeued r d q) = r"
  "consumerSessions (settle_requeued r d q) = consumerSessions q"
  "consumerOrder (settle_requeued r d q) = consumerOrder q"
  "nextConsumer (settle_requeued r d q) = nextConsumer q"
  "hooks (settle_requeued r d q) = hooks q" "q_dlq (settle_requeued r d q) = q_dlq q"
  "ackedCount (settle_requeued r d q) = ackedCount q"
  "producedCount (settle_requeued r d q) = producedCount q"
  "deadletteredCount (settle_requeued r d q) = deadletteredCount q"
  "q_inFlight (settle_requeued r d q) = snd (mgr_Remove (d_AckToken d) (q_inFlight q))"
  by (simp_all add: settle_dead_def settle_requeued_def)

lemma settled_world [simp]:
  "w_clock (settled d q w) = w_clock w" "w_wal (settled d q w) = w_wal w"
  "w_uuids (settled d q w) = w_uuids w" "w_uuid_pos (settled d q w) = w_uuid_pos w"
  by (simp_all add: settled_def)

lemma same_sessions_settled [simp]: "same_sessions w (settled d q w)"
  unfolding settled_def by (rule same_sessions_eqD [OF _ same_sessions_release]) simp

lemma redeliver_item_cases:
  assumes wf: "qr_wf q" and res: "redeliver_item d w q = Some (w', q')"
  obtains
    (full) "rb_Size (q_queue q) = rb_Capacity (q_queue q)" "w' = w" "q' = q"
  | (log_failed) e rec where "rec = dead_record q (d_Message d) \<or> rec = requeue_record q (bump (d_Message d))"
      "w_Append rec w = (Some e, w')" "q' = q"
  | (dead) w1 where "rb_Size (q_queue q) \<noteq> rb_Capacity (q_queue q)"
      "MaxRetries (q_config q) \<le> Retry (d_Message d)"
      "w_Append (dead_record q (d_Message d)) w = (None, w1)"
      "w' = settled d q w1" "q' = settle_dead d q"
  | (requeued) w1 r where "Retry (d_Message d) < MaxRetries (q_config q)"
      "w_Append (requeue_record q (bump (d_Message d))) w = (None, w1)" "rb_invar r"
      "rb_list r = rb_list (q_queue q) @ [bump (d_Message d)]"
      "rb_Size r = rb_Size (q_queue q) + 1" "rb_Capacity r = rb_Capacity (q_queue q)"
      "w' = settled d q w1" "q' = settle_requeued r d q"
proof (cases "rb_Size (q_queue q) = rb_Capacity (q_queue q)")
  case True
  show thesis by (rule full) (use res True in \<open>simp_all add: redeliver_item_def\<close>)
next
  case room: False
  note run = res[unfolded redeliver_item_def dead_record_def [symmetric] requeue_record_def [symmetric]
      bump_def [symmetric]]
  show thesis
  proof (cases "MaxRetries (q_config q) \<le> Retry (d_Message d)")
    case True
    obtain e w1 where ap: "w_Append (dead_record q (d_Message d)) w = (e, w1)"
      by (cases "w_Append (dead_record q (d_Message d)) w")
    show thesis
    proof (cases e)
      case None
      show thesis by (rule dead [OF room True ap [unfolded None]])
        (use run room True ap None in \<open>simp_all add: settled_def settle_dead_def Let_def\<close>)
    next
      case (Some e')
      show thesis by (rule log_failed [of "dead_record q (d_Message d)" e'])
        (use run room True ap Some in simp_all)
    qed
  next
    case False
    let ?m = "bump (d_Message d)"
    obtain e w1 where ap: "w_Append (requeue_record q ?m) w = (e, w1)"
      by (cases "w_Append (requeue_record q ?m) w")
    note inv = qr_wf_parts(1) [OF wf]
    obtain r where r: "rb_Push ?m (q_queue q) = Some r" using rb.push_ok [OF inv room] by blast
    note pc = rb.push_content [OF inv room r]
    show thesis
    proof (cases e)
      case None
      show thesis by (rule requeued [OF _ ap [unfolded None] pc(1,2,4,3)])
        (use run room False ap None r in \<open>simp_all add: settled_def settle_requeued_def Let_def\<close>)
    next
      case (Some e')
      show thesis by (rule log_failed [of "requeue_record q ?m" e'])
        (use run room False ap Some in simp_all)
    qed
  qed
qed

lemma settle_wf:
  assumes "qr_wf q"
  shows "qr_wf (settle_dead d q)" and "rb_invar r \<Longrightarrow> qr_wf (settle_requeued r d q)"
  using assms ifm.invar_remove by (simp_all add: qr_wf_def)

lemma in_flight_as_other:
  assumes "qr_wf q" and "in_flight_as d' q" and "d_AckToken d' \<noteq> d_AckToken d"
  shows "in_flight_as d' (settle_dead d q)" and "in_flight_as d' (settle_requeued r d q)"
  using assms by (simp_all add: in_flight_as_def ifm.get_remove qr_wf_def)

lemma redeliver_rule:
  assumes wf: "qr_wf q" and run: "redeliver_loop ds w q = Some (w', q')" and base: "P w q"
    and dist: "distinct (map d_AckToken ds)" and fl: "\<forall>d \<in> set ds. in_flight_as d q"
    and failed: "\<And>w w1 q (d :: delivery) e rec. qr_wf q \<Longrightarrow> P w q \<Longrightarrow>
      rec = dead_record q (d_Message d) \<or> rec = requeue_record q (bump (d_Message d)) \<Longrightarrow>
      w_Append rec w = (Some e, w1) \<Longrightarrow> P w1 q"
    and dead: "\<And>w w1 q d. qr_wf q \<Longrightarrow> P w q \<Longrightarrow> in_flight_as d q \<Longrightarrow>
      MaxRetries (q_config q) \<le> Retry (d_Message d) \<Longrightarrow>
      w_Append (dead_record q (d_Message d)) w = (None, w1) \<Longrightarrow> P (settled d q w1) (settle_dead d q)"
    and requeued: "\<And>w w1 q d r. qr_wf q \<Longrightarrow> P w q \<Longrightarrow> in_flight_as d q \<Longrightarrow>
      Retry (d_Message d) < MaxRetries (q_config q) \<Longrightarrow>
      w_Append (requeue_record q (bump (d_Message d))) w = (None, w1) \<Longrightarrow> rb_invar r \<Longrightarrow>
      rb_list r = rb_list (q_queue q) @ [bump (d_Message d)] \<Longrightarrow>
      rb_Size r = rb_Size (q_queue q) + 1 \<Longrightarrow> rb_Capacity r = rb_Capacity (q_queue q) \<Longrightarrow>
      P (settled d q w1) (settle_requeued r d q)"
  shows "P w' q' \<and> qr_wf q'"
  using wf run base dist fl
proof (induction ds arbitrary: w q)
  case Nil
  then show ?case by simp
next
  case (Cons d ds)
  then obtain w1 q1 where one: "redeliver_item d w q = Some (w1, q1)"
    and rest: "redeliver_loop ds w1 q1 = Some (w', q')" by (auto split: option.splits)
  have d: "in_flight_as d q" and ds: "\<forall>d' \<in> set ds. in_flight_as d' q \<and> d_AckToken d' \<noteq> d_AckToken d"
    using Cons.prems(4,5) by (auto simp: image_iff)
  have "qr_wf q1 \<and> P w1 q1 \<and> (\<forall>d' \<in> set ds. in_flight_as d' q1)"
    using Cons.prems(1) one
  proof (cases rule: redeliver_item_cases)
    case (log_failed e rec)
    from failed [OF Cons.prems(1,3) log_failed(1,2)] log_failed(3) ds Cons.prems(1)
    show ?thesis by simp
  next
    case (dead w2)
    from assms(7) [OF Cons.prems(1,3) d dead(2,3)] settle_wf(1) [OF Cons.prems(1)] dead(4,5)
      in_flight_as_other(1) [OF Cons.prems(1)] ds show ?thesis by simp
  next
    case (requeued w2 r)
    from assms(8) [OF Cons.prems(1,3) d requeued(1-6)] settle_wf(2) [OF Cons.prems(1) requeued(3)]
      requeued(7,8) in_flight_as_other(2) [OF Cons.prems(1)] ds show ?thesis by simp
  qed (use Cons.prems ds in auto)
  with Cons.IH [OF _ rest] Cons.prems(4) show ?case by simp
qed

lemma redeliver_total: "qr_wf q \<Longrightarrow> \<exists>w' q'. redeliver_loop ds w q = Some (w', q')"
proof (induction ds arbitrary: w q)
  case (Cons d ds)
  have "\<exists>w1 q1. redeliver_item d w q = Some (w1, q1)"
    using rb.push_ok [of "q_queue q" "bump (d_Message d)"] Cons.prems
    by (cases "rb_Size (q_queue q) = rb_Capacity (q_queue q)")
      (auto simp: redeliver_item_def qr_wf_parts bump_def Let_def split: prod.splits option.splits)
  then obtain w1 q1 where one: "redeliver_item d w q = Some (w1, q1)" by blast
  from Cons.prems one have "qr_wf q1"
    by (cases rule: redeliver_item_cases) (use Cons.prems settle_wf in auto)
  with one Cons.IH [of q1 w1] show ?case by simp
qed simp

lemma processExpired_rule:
  assumes wf: "qr_wf q" and run: "processExpiredMessages order w q = Some (w', q')"
    and order: "distinct order" and base: "P w q"
    and clock: "\<And>c. readings c = readings (w_clock w) \<Longrightarrow> ticks (w_clock w) \<le> ticks c \<Longrightarrow>
      P (w\<lparr>w_clock := c\<rparr>) q"
    and failed: "\<And>w w1 q (d :: delivery) e rec. qr_wf q \<Longrightarrow> P w q \<Longrightarrow>
      rec = dead_record q (d_Message d) \<or> rec = requeue_record q (bump (d_Message d)) \<Longrightarrow>
      w_Append rec w = (Some e, w1) \<Longrightarrow> P w1 q"
    and dead: "\<And>w w1 q d. qr_wf q \<Longrightarrow> P w q \<Longrightarrow> in_flight_as d q \<Longrightarrow>
      MaxRetries (q_config q) \<le> Retry (d_Message d) \<Longrightarrow>
      w_Append (dead_record q (d_Message d)) w = (None, w1) \<Longrightarrow> P (settled d q w1) (settle_dead d q)"
    and requeued: "\<And>w w1 q d r. qr_wf q \<Longrightarrow> P w q \<Longrightarrow> in_flight_as d q \<Longrightarrow>
      Retry (d_Message d) < MaxRetries (q_config q) \<Longrightarrow>
      w_Append (requeue_record q (bump (d_Message d))) w = (None, w1) \<Longrightarrow> rb_invar r \<Longrightarrow>
      rb_list r = rb_list (q_queue q) @ [bump (d_Message d)] \<Longrightarrow>
      rb_Size r = rb_Size (q_queue q) + 1 \<Longrightarrow> rb_Capacity r = rb_Capacity (q_queue q) \<Longrightarrow>
      P (settled d q w1) (settle_requeued r d q)"
  shows "P w' q' \<and> qr_wf q'"
proof (cases "q_closed q")
  case True
  with run base wf show ?thesis by (simp add: processExpiredMessages_def)
next
  case False
  let ?x = "mgr_Expired (AckTimeout (q_config q)) order (q_inFlight q) (w_clock w)"
  have loop: "redeliver_loop (fst ?x) (w\<lparr>w_clock := snd ?x\<rparr>) q = Some (w', q')"
    using run False by (simp add: processExpiredMessages_def split: prod.splits)
  have "P (w\<lparr>w_clock := snd ?x\<rparr>) q"
    by (rule clock) (simp_all add: mgr_Expired_readings mgr_Expired_ticks)
  moreover have "\<forall>d \<in> set (fst ?x). in_flight_as d q"
    using mgr_Expired_entry by (fastforce simp: in_flight_as_def)
  ultimately show ?thesis
    by (rule redeliver_rule [where P = P, OF wf loop _ mgr_Expired_distinct [OF order]])
      (blast intro: failed dead requeued)+
qed

lemma processExpired_total:
  "qr_wf q \<Longrightarrow> \<exists>w' q'. processExpiredMessages order w q = Some (w', q')"
  by (auto simp: processExpiredMessages_def redeliver_total split: prod.splits)

lemma processExpired_sess_ok:
  assumes "qr_wf q" and "sess_ok w q" and "distinct order"
    and "processExpiredMessages order w q = Some (w', q')"
  shows "sess_ok w' q' \<and> qr_wf q'"
proof (rule processExpired_rule [where P = sess_ok, OF assms(1,4,3,2)])
  fix w w1 q e and d :: delivery and rec
  assume "sess_ok w q" "w_Append rec w = (Some e, w1)"
  then show "sess_ok w1 q" using w_Append_frame(1) by (metis sess_ok_cong same_sessions_refl)
next
  fix w w1 q d r
  assume ok: "sess_ok w q"
  { fix rec assume "w_Append rec w = (None, w1)"
    from w_Append_frame(1) [OF this] same_sessions_settled [of w1 d q]
    have "same_sessions w (settled d q w1)" by (rule same_sessions_eqD) }
  note same = this
  show "w_Append (dead_record q (d_Message d)) w = (None, w1) \<Longrightarrow> sess_ok (settled d q w1) (settle_dead d q)"
    by (rule sess_ok_cong [OF ok same]) simp_all
  show "w_Append (requeue_record q (bump (d_Message d))) w = (None, w1) \<Longrightarrow>
      sess_ok (settled d q w1) (settle_requeued r d q)"
    by (rule sess_ok_cong [OF ok same]) simp_all
qed (use assms(2) in \<open>simp add: sess_ok_def\<close>)

end
