(* ===== verification/Queue_System.thy ===== *)
theory Queue_System
  imports Queue_Loops
begin

text \<open>
  A queue runtime at work: the state machine whose events are the critical sections of
  \<open>internal/engine/queue_runtime.go\<close>, in any interleaving. The clients' calls (publish, ack,
  subscribe, unsubscribe, shutdown, the emptiness test of a deletion), the turns of
  \<open>RunDistributor\<close>, of \<open>StartInflightRedeliveryWorker\<close> and of \<open>StartExpiryWorker\<close>, and a
  connection taking a delivery from its session's channel are one event each.

  The distributor's program counter is a value of \<open>distributor\<close>. Between \<open>reserveDelivery\<close>
  and the \<open>select\<close> that sends the delivery it holds no lock, so other events can happen while
  it is in \<open>D_Holding\<close>. A Go \<open>select\<close> picks any ready case, hence the events \<open>EvSend\<close> and
  \<open>EvCancel\<close> can both be enabled; the \<open>default\<close> case is taken only when neither is ready.

  An event that is not possible in a state is \<open>Disabled\<close>; a run-time panic is \<open>Panicked\<close>.
\<close>

datatype distributor = D_Top | D_Select | D_Drain | D_Holding nat delivery | D_Exited

record queue_system =
  qs_world :: world
  qs_queue :: queue_runtime
  qs_dist :: distributor

datatype event =
    EvPublish message int | EvAck string | EvSubscribe nat string | EvUnsubscribe string
  | EvShutdown | EvCloseIfEmpty
  | EvTop | EvNotified | EvDone | EvReserve | EvSend | EvCancel
  | EvRedeliver bool "string list" | EvExpire bool | EvReceive nat

datatype outcome = Disabled | Panicked | Next queue_system

definition channel_ready :: "nat \<Rightarrow> world \<Rightarrow> bool" where
  "channel_ready a w =
     (case w_sessions w a of None \<Rightarrow> False | Some s \<Rightarrow> length (Deliveries s) < DeliveriesCap)"

definition session_closed :: "nat \<Rightarrow> world \<Rightarrow> bool" where
  "session_closed a w = (case w_sessions w a of None \<Rightarrow> False | Some s \<Rightarrow> Closed s)"

definition send_delivery :: "nat \<Rightarrow> delivery \<Rightarrow> world \<Rightarrow> world" where
  "send_delivery a d w = upd_session a (\<lambda>s. s\<lparr>Deliveries := Deliveries s @ [d]\<rparr>) w"

definition RunDistributor_turn :: "event \<Rightarrow> queue_system \<Rightarrow> outcome" where
  "RunDistributor_turn ev s =
     (case (qs_dist s, ev) of
        (D_Top, EvTop) \<Rightarrow>
          Next (s\<lparr>qs_dist := (if q_closed (qs_queue s) then D_Exited else D_Select)\<rparr>)
      | (D_Select, EvNotified) \<Rightarrow>
          (if notifyDistributor (qs_queue s)
           then Next (s\<lparr>qs_dist := D_Drain, qs_queue := (qs_queue s)\<lparr>notifyDistributor := False\<rparr>\<rparr>)
           else Disabled)
      | (D_Select, EvDone) \<Rightarrow> Next (s\<lparr>qs_dist := D_Exited\<rparr>)
      | (D_Drain, EvReserve) \<Rightarrow>
          (case qr_reserveDelivery (qs_world s) (qs_queue s) of
             None \<Rightarrow> Panicked
           | Some (None, w, q) \<Rightarrow> Next (s\<lparr>qs_world := w, qs_queue := q, qs_dist := D_Top\<rparr>)
           | Some (Some (a, d), w, q) \<Rightarrow>
               Next (s\<lparr>qs_world := w, qs_queue := q, qs_dist := D_Holding a d\<rparr>))
      | (D_Holding a d, EvSend) \<Rightarrow>
          (if channel_ready a (qs_world s)
           then Next (s\<lparr>qs_world := send_delivery a d (qs_world s), qs_dist := D_Drain\<rparr>)
           else Disabled)
      | (D_Holding a d, EvCancel) \<Rightarrow>
          (if session_closed a (qs_world s) \<or> \<not> channel_ready a (qs_world s)
           then (case qr_cancelReservation d (qs_world s) (qs_queue s) of
                   None \<Rightarrow> Panicked
                 | Some (w, q) \<Rightarrow> Next (s\<lparr>qs_world := w, qs_queue := q, qs_dist := D_Drain\<rparr>))
           else Disabled)
      | _ \<Rightarrow> Disabled)"

text \<open>
  A worker reads \<open>closed\<close> in a critical section of its own and, unless it is set, calls its
  function in a second one: \<open>closed\<close> is the value read, which may have become stale since. A
  worker that reads true returns, so it makes no turn.
\<close>

definition StartInflightRedeliveryWorker_turn ::
  "bool \<Rightarrow> string list \<Rightarrow> queue_system \<Rightarrow> outcome" where
  "StartInflightRedeliveryWorker_turn closed order s =
     (if mset order \<noteq> mset (map fst (deliveries (q_inFlight (qs_queue s)))) then Disabled
      else if closed then Disabled
      else case processExpiredMessages order (qs_world s) (qs_queue s) of
        None \<Rightarrow> Panicked
      | Some (w, q) \<Rightarrow> Next (s\<lparr>qs_world := w, qs_queue := q\<rparr>))"

definition StartExpiryWorker_turn :: "bool \<Rightarrow> queue_system \<Rightarrow> outcome" where
  "StartExpiryWorker_turn closed s =
     (if closed then Disabled
      else case checkExpiredMessages (qs_world s) (qs_queue s) of
        None \<Rightarrow> Panicked
      | Some (_, w, q) \<Rightarrow> Next (s\<lparr>qs_world := w, qs_queue := q\<rparr>))"

definition connect_and_subscribe :: "nat \<Rightarrow> string \<Rightarrow> queue_system \<Rightarrow> outcome" where
  "connect_and_subscribe a i s =
     (if w_sessions (qs_world s) a \<noteq> None then Disabled
      else let w = (qs_world s)\<lparr>w_sessions := (w_sessions (qs_world s))(a \<mapsto> NewConsumerSession i)\<rparr>
           in case qr_Subscribe a w (qs_queue s) of
                None \<Rightarrow> Panicked
              | Some (_, q) \<Rightarrow> Next (s\<lparr>qs_world := w, qs_queue := q\<rparr>))"

definition receive :: "nat \<Rightarrow> queue_system \<Rightarrow> outcome" where
  "receive a s =
     (case w_sessions (qs_world s) a of
        None \<Rightarrow> Disabled
      | Some cs \<Rightarrow>
          (case Deliveries cs of
             [] \<Rightarrow> Disabled
           | d # ds \<Rightarrow>
               Next (s\<lparr>qs_world := upd_session a (\<lambda>s. s\<lparr>Deliveries := ds\<rparr>) (qs_world s)\<rparr>)))"

fun qs_exec :: "event \<Rightarrow> queue_system \<Rightarrow> outcome" where
  "qs_exec (EvPublish m ttl) s =
     (case qr_Publish m ttl (qs_world s) (qs_queue s) of
        None \<Rightarrow> Panicked
      | Some (out, w, q) \<Rightarrow> Next (s\<lparr>qs_world := w, qs_queue := q\<rparr>))"
| "qs_exec (EvAck t) s =
     (case qr_Ack t (qs_world s) (qs_queue s) of
        (_, w, q) \<Rightarrow> Next (s\<lparr>qs_world := w, qs_queue := q\<rparr>))"
| "qs_exec (EvSubscribe a i) s = connect_and_subscribe a i s"
| "qs_exec (EvUnsubscribe i) s =
     (case qr_Unsubscribe i (qs_world s) (qs_queue s) of
        (w, q) \<Rightarrow> Next (s\<lparr>qs_world := w, qs_queue := q\<rparr>))"
| "qs_exec EvShutdown s =
     (case qr_Shutdown (qs_world s) (qs_queue s) of
        (w, q) \<Rightarrow> Next (s\<lparr>qs_world := w, qs_queue := q\<rparr>))"
| "qs_exec EvCloseIfEmpty s =
     (case CloseIfEmpty (qs_world s) (qs_queue s) of
        (_, w, q) \<Rightarrow> Next (s\<lparr>qs_world := w, qs_queue := q\<rparr>))"
| "qs_exec (EvRedeliver closed order) s = StartInflightRedeliveryWorker_turn closed order s"
| "qs_exec (EvExpire closed) s = StartExpiryWorker_turn closed s"
| "qs_exec (EvReceive a) s = receive a s"
| "qs_exec ev s = RunDistributor_turn ev s"

subsection \<open>Base invariant: no operation panics\<close>

definition tokens_ok :: "world \<Rightarrow> queue_runtime \<Rightarrow> bool" where
  "tokens_ok w q \<longleftrightarrow> inj (w_uuids w) \<and>
     (\<forall>t. mgr_Get t (q_inFlight q) \<noteq> None \<longrightarrow> (\<exists>i < w_uuid_pos w. t = w_uuids w i))"

definition base :: "world \<Rightarrow> queue_runtime \<Rightarrow> bool" where
  "base w q \<longleftrightarrow> qr_wf q \<and> sess_ok w q \<and> tokens_ok w q"

lemma token_fresh: "tokens_ok w q \<Longrightarrow> mgr_Get (w_uuids w (w_uuid_pos w)) (q_inFlight q) = None"
  unfolding tokens_ok_def by (metis injD nat_less_le)

lemma tokens_ok_mono:
  assumes "tokens_ok w q" and "w_uuids w' = w_uuids w" and "w_uuid_pos w \<le> w_uuid_pos w'"
    and "\<And>t. mgr_Get t (q_inFlight q') \<noteq> None \<Longrightarrow> mgr_Get t (q_inFlight q) \<noteq> None"
  shows "tokens_ok w' q'"
  using assms unfolding tokens_ok_def by (metis order_less_le_trans)

text \<open>
  What the environment has to respect for the messages to be accounted for: a published
  message gets an identifier that no live message of the queue has, and a reservation is
  cancelled only while it is still in flight and while the queue has room. The second part
  is not guaranteed by the code; see \<open>cancel_loses_a_message\<close> and
  \<open>cancel_duplicates_a_message\<close> below.
\<close>

fun safe :: "event \<Rightarrow> queue_system \<Rightarrow> bool" where
  "safe (EvPublish m ttl) s \<longleftrightarrow>
     ID (fst (stamp m ttl (qs_world s))) \<notin> ID ` set_mset (qr_messages (qs_queue s))"
| "safe EvCancel s \<longleftrightarrow>
     (case qs_dist s of
        D_Holding a d \<Rightarrow> in_flight_as d (qs_queue s) \<and>
          rb_Size (q_queue (qs_queue s)) \<noteq> rb_Capacity (q_queue (qs_queue s))
      | _ \<Rightarrow> True)"
| "safe _ s \<longleftrightarrow> True"

inductive reaches :: "(event \<Rightarrow> queue_system \<Rightarrow> bool) \<Rightarrow> queue_system \<Rightarrow> queue_system \<Rightarrow> bool"
  for allowed s0 where
  start: "reaches allowed s0 s0"
| step: "reaches allowed s0 s \<Longrightarrow> allowed ev s \<Longrightarrow> qs_exec ev s = Next t \<Longrightarrow> reaches allowed s0 t"

inductive_cases reaches_last: "reaches allowed s0 t"

lemma base_parts: "base w q \<Longrightarrow> qr_wf q" "base w q \<Longrightarrow> sess_ok w q" "base w q \<Longrightarrow> tokens_ok w q"
  by (simp_all add: base_def)

definition base_sys :: "queue_system \<Rightarrow> bool" where
  "base_sys s \<longleftrightarrow> base (qs_world s) (qs_queue s)"

lemma get_after_remove: "qr_wf q \<Longrightarrow>
   mgr_Get t (snd (mgr_Remove t' (q_inFlight q))) \<noteq> None \<Longrightarrow> mgr_Get t (q_inFlight q) \<noteq> None"
  using ifm.get_remove [OF qr_wf_parts(2)] by (metis (full_types))

lemma take_head_result:
  assumes "take_head a s m r w q = (d, w', q')"
  shows "d = \<lparr>d_Message = m, d_AckToken = w_uuids w (w_uuid_pos w), d_ConsumerID = cs_ID s\<rparr>"
    and "q' = q\<lparr>q_queue := r,
      q_inFlight := fst (mgr_Add (d_AckToken d) m (cs_ID s) (w_clock w) (q_inFlight q))\<rparr>"
    and "w_wal w' = w_wal w" and "w_uuids w' = w_uuids w" and "w_uuid_pos w' = Suc (w_uuid_pos w)"
    and "w_sessions w' = w_sessions (upd_session a (\<lambda>s. s\<lparr>UnackedCount := UnackedCount s + 1\<rparr>) w)"
    and "w_tokenOwners w' = w_tokenOwners (registerToken (d_AckToken d) q w)"
  using assms
  by (auto simp: take_head_def Let_def fun_eq_iff registerToken_def split: prod.splits option.splits)

lemma take_head_clock:
  assumes "take_head a s m r w q = (d, w', q')"
  shows "readings (w_clock w') = readings (w_clock w)" and "ticks (w_clock w') = Suc (ticks (w_clock w))"
  using assms by (auto simp: take_head_def mgr_Add_def time_Now_def Let_def split: prod.splits)

subsection \<open>The events, one by one\<close>

text \<open>The distributor's events, one by one.\<close>

lemma turn_EvTop: "qs_exec EvTop s = Next t \<longleftrightarrow> qs_dist s = D_Top \<and>
    t = s\<lparr>qs_dist := (if q_closed (qs_queue s) then D_Exited else D_Select)\<rparr>"
  by (cases "qs_dist s") (auto simp: RunDistributor_turn_def)

lemma turn_EvNotified: "qs_exec EvNotified s = Next t \<longleftrightarrow> qs_dist s = D_Select \<and>
    notifyDistributor (qs_queue s) \<and>
    t = s\<lparr>qs_dist := D_Drain, qs_queue := (qs_queue s)\<lparr>notifyDistributor := False\<rparr>\<rparr>"
  by (cases "qs_dist s") (auto simp: RunDistributor_turn_def)

lemma turn_EvDone: "qs_exec EvDone s = Next t \<longleftrightarrow> qs_dist s = D_Select \<and> t = s\<lparr>qs_dist := D_Exited\<rparr>"
  by (cases "qs_dist s") (auto simp: RunDistributor_turn_def)

lemma turn_EvReserve: "qs_exec EvReserve s = Next t \<longleftrightarrow> qs_dist s = D_Drain \<and>
    (\<exists>out w q. qr_reserveDelivery (qs_world s) (qs_queue s) = Some (out, w, q) \<and>
       t = s\<lparr>qs_world := w, qs_queue := q,
             qs_dist := (case out of None \<Rightarrow> D_Top | Some (a, d) \<Rightarrow> D_Holding a d)\<rparr>)"
  by (cases "qs_dist s") (auto simp: RunDistributor_turn_def split: option.splits)

lemma turn_EvSend: "qs_exec EvSend s = Next t \<longleftrightarrow>
    (\<exists>a d. qs_dist s = D_Holding a d \<and> channel_ready a (qs_world s) \<and>
       t = s\<lparr>qs_world := send_delivery a d (qs_world s), qs_dist := D_Drain\<rparr>)"
  by (cases "qs_dist s") (auto simp: RunDistributor_turn_def)

lemma turn_EvCancel: "qs_exec EvCancel s = Next t \<longleftrightarrow>
    (\<exists>a d w q. qs_dist s = D_Holding a d
       \<and> (session_closed a (qs_world s) \<or> \<not> channel_ready a (qs_world s))
       \<and> qr_cancelReservation d (qs_world s) (qs_queue s) = Some (w, q)
       \<and> t = s\<lparr>qs_world := w, qs_queue := q, qs_dist := D_Drain\<rparr>)"
  by (cases "qs_dist s") (auto simp: RunDistributor_turn_def split: option.splits)

lemmas turns = turn_EvTop turn_EvNotified turn_EvDone turn_EvReserve turn_EvSend turn_EvCancel

subsection \<open>Runs as event lists\<close>

fun trace ::
  "(event \<Rightarrow> queue_system \<Rightarrow> bool) \<Rightarrow> event list \<Rightarrow> queue_system \<Rightarrow> queue_system option" where
  "trace allowed [] s = Some s"
| "trace allowed (ev # evs) s =
     (if allowed ev s
      then (case qs_exec ev s of Next t \<Rightarrow> trace allowed evs t | _ \<Rightarrow> None)
      else None)"

lemma reaches_trans: "reaches allowed s1 s2 \<Longrightarrow> reaches allowed s0 s1 \<Longrightarrow> reaches allowed s0 s2"
  by (induction rule: reaches.induct) (auto intro: reaches.step)

lemma trace_reaches: "trace allowed evs s = Some t \<Longrightarrow> reaches allowed s t"
proof (induction evs arbitrary: s)
  case Nil
  then show ?case by (simp add: reaches.start)
next
  case (Cons ev evs)
  then obtain s1 where "allowed ev s" "qs_exec ev s = Next s1" "trace allowed evs s1 = Some t"
    by (auto split: if_splits outcome.splits)
  with Cons.IH [of s1] reaches.step [OF reaches.start [of allowed s]] show ?case
    by (blast intro: reaches_trans)
qed

end
