(* ===== verification/Atomic_Steps.thy ===== *)
theory Atomic_Steps
  imports Queue_System
begin

text \<open>
  Every event of the queue system as a sequence of atomic transitions. A transition is one
  logged change of the queue (put, take, return, ack, drop, bury, requeue), a failed append, a
  change of the set of consumers or a step that no invariant sees.

  The interface \<open>atomic_invariant\<close> says what an invariant has to satisfy, once per kind of
  transition; its lemma \<open>reaches_keep\<close> lifts that to every reachable state of the system, in
  every interleaving of the clients, the distributor and the two workers.
\<close>

datatype label = Tick | Sched | Channel | Join string | Leave | Failed log_record
  | Put message | Take delivery | Return delivery | Acked string in_flight_message
  | Drop message | Bury delivery | Requeue delivery

definition with_session :: "nat \<Rightarrow> string \<Rightarrow> world \<Rightarrow> world" where
  "with_session a i w = w\<lparr>w_sessions := (w_sessions w)(a \<mapsto> NewConsumerSession i)\<rparr>"

definition removed :: "string \<Rightarrow> queue_runtime \<Rightarrow> queue_runtime" where
  "removed t q = q\<lparr>q_inFlight := snd (mgr_Remove t (q_inFlight q))\<rparr>"

definition rb_became :: "ring_buffer \<Rightarrow> ring_buffer \<Rightarrow> message list \<Rightarrow> bool" where
  "rb_became r q ms \<longleftrightarrow> rb_invar r \<and> rb_list r = ms \<and> rb_Capacity r = rb_Capacity q"

inductive atomic :: "label \<Rightarrow> world \<Rightarrow> queue_runtime \<Rightarrow> world \<Rightarrow> queue_runtime \<Rightarrow> bool" where
  tick: "w_wal w' = w_wal w \<Longrightarrow> w_uuids w' = w_uuids w \<Longrightarrow> w_uuid_pos w \<le> w_uuid_pos w' \<Longrightarrow>
    w_sessions w' = w_sessions w \<Longrightarrow> w_tokenOwners w' = w_tokenOwners w \<Longrightarrow>
    readings (w_clock w') = readings (w_clock w) \<Longrightarrow> ticks (w_clock w) \<le> ticks (w_clock w') \<Longrightarrow>
    atomic Tick w q w' q"
| sched: "q' = q\<lparr>nextConsumer := n, notifyDistributor := b\<rparr> \<Longrightarrow> qr_wf q' \<Longrightarrow> atomic Sched w q w q'"
| channel: "atomic Channel w q (upd_session a (\<lambda>s. s\<lparr>Deliveries := f s\<rparr>) w) q"
| join: "w_sessions w a = None \<Longrightarrow> qr_wf q' \<Longrightarrow>
    q' = q \<or> map_of (consumerSessions q) i = None \<and>
      q' = notify (q\<lparr>consumerSessions := gm_put i a (consumerSessions q), consumerOrder := consumerOrder q @ [i]\<rparr>) \<Longrightarrow>
    atomic (Join i) w q (with_session a i w) q'"
| leave: "q' = q\<lparr>q_closed := c, consumerSessions := m, consumerOrder := order, nextConsumer := n\<rparr> \<Longrightarrow>
    map_of m \<subseteq>\<^sub>m map_of (consumerSessions q) \<Longrightarrow> qr_wf q' \<Longrightarrow> sess_ok (close_sessions as w) q' \<Longrightarrow>
    set as \<subseteq> ran (map_of (consumerSessions q)) \<Longrightarrow> q_closed q \<longrightarrow> c \<Longrightarrow>
    atomic Leave w q (close_sessions as w) q'"
| failed: "loggable rec \<Longrightarrow> w_Append rec w = (Some e, w') \<Longrightarrow> atomic (Failed rec) w q w' q"
| put: "ID m \<notin> ID ` set_mset (qr_messages q) \<Longrightarrow> w_Append (publish_record q m) w = (None, w') \<Longrightarrow>
    rb_became r (q_queue q) (rb_list (q_queue q) @ [m]) \<Longrightarrow> \<not> q_closed q \<Longrightarrow>
    atomic (Put m) w q w' (notify (q\<lparr>q_queue := r, producedCount := producedCount q + 1\<rparr>))"
| take: "map_of (consumerSessions q) (cs_ID s) = Some a \<Longrightarrow> w_sessions w a = Some s \<Longrightarrow>
    UnackedCount s < ConsumerPrefetch (q_config q) \<Longrightarrow>
    rb_list (q_queue q) = m # ms \<Longrightarrow> rb_became r (q_queue q) ms \<Longrightarrow>
    take_head a s m r w q = (d, w', q') \<Longrightarrow> atomic (Take d) w q w' q'"
| return: "in_flight_as d q \<Longrightarrow> rb_became r (q_queue q) (rb_list (q_queue q) @ [d_Message d]) \<Longrightarrow>
    atomic (Return d) w q (removeToken (d_AckToken d) q (release (d_ConsumerID d) q w))
      (notify ((removed (d_AckToken d) q)\<lparr>q_queue := r\<rparr>))"
| acked: "mgr_Get t (q_inFlight q) = Some i \<Longrightarrow> w_Append (ack_record q (if_Message i)) w = (None, w1) \<Longrightarrow>
    atomic (Acked t i) w q (release (if_ConsumerID i) q (removeToken t q w1))
      (notify ((removed t q)\<lparr>ackedCount := ackedCount q + 1\<rparr>))"
| drop: "isExpired m w0 = (True, w) \<Longrightarrow> rb_list (q_queue q) = m # ms \<Longrightarrow> rb_became r (q_queue q) ms \<Longrightarrow>
    w_Append (dead_record q m) w = (None, w') \<Longrightarrow> atomic (Drop m) w q w' (drop_head r m q)"
| bury: "in_flight_as d q \<Longrightarrow> MaxRetries (q_config q) \<le> Retry (d_Message d) \<Longrightarrow>
    w_Append (dead_record q (d_Message d)) w = (None, w1) \<Longrightarrow>
    atomic (Bury d) w q (settled d q w1) (settle_dead d q)"
| requeue: "in_flight_as d q \<Longrightarrow> Retry (d_Message d) < MaxRetries (q_config q) \<Longrightarrow>
    w_Append (requeue_record q (bump (d_Message d))) w = (None, w1) \<Longrightarrow>
    rb_became r (q_queue q) (rb_list (q_queue q) @ [bump (d_Message d)]) \<Longrightarrow>
    atomic (Requeue d) w q (settled d q w1) (settle_requeued r d q)"

lemma removed_simps [simp]:
  "q_name (removed t q) = q_name q" "q_config (removed t q) = q_config q"
  "q_closed (removed t q) = q_closed q" "q_queue (removed t q) = q_queue q"
  "q_inFlight (removed t q) = snd (mgr_Remove t (q_inFlight q))"
  "consumerSessions (removed t q) = consumerSessions q" "consumerOrder (removed t q) = consumerOrder q"
  "nextConsumer (removed t q) = nextConsumer q" "hooks (removed t q) = hooks q"
  "q_dlq (removed t q) = q_dlq q" "ackedCount (removed t q) = ackedCount q"
  "producedCount (removed t q) = producedCount q" "deadletteredCount (removed t q) = deadletteredCount q"
  "redeliveredCount (removed t q) = redeliveredCount q"
  by (simp_all add: removed_def)

lemma with_session_simps [simp]:
  "w_wal (with_session a i w) = w_wal w" "w_clock (with_session a i w) = w_clock w"
  "w_uuids (with_session a i w) = w_uuids w" "w_uuid_pos (with_session a i w) = w_uuid_pos w"
  "w_tokenOwners (with_session a i w) = w_tokenOwners w"
  "w_sessions (with_session a i w) = (w_sessions w)(a \<mapsto> NewConsumerSession i)"
  by (simp_all add: with_session_def)

subsection \<open>Transitions keep the base invariant\<close>

lemma atomic_wf:
  assumes "atomic l w q w' q'" and "qr_wf q"
  shows "qr_wf q'"
  using assms
proof (cases rule: atomic.cases)
  case (take s a m ms r d)
  with assms(2) take_head_wf [of q r] show ?thesis by (simp add: rb_became_def)
next
  case (drop m w0 ms r)
  with assms(2) qr_wf_drop_head [of q r m] show ?thesis by (simp add: rb_became_def)
qed (use assms(2) settle_wf in \<open>auto simp: rb_became_def qr_wf_def ifm.invar_remove\<close>)

lemma with_session_same:
  "sess_ok w q \<Longrightarrow> w_sessions w a = None \<Longrightarrow> sess_ok (with_session a i w) q"
  unfolding sess_ok_def by fastforce

lemma same_sessions_token [simp]:
  "same_sessions w (removeToken t q w)" "same_sessions w (registerToken t q w)"
  by simp_all

lemma atomic_sess_ok:
  assumes "atomic l w q w' q'" and "sess_ok w q"
  shows "sess_ok w' q'"
  using assms(1)
proof (cases rule: atomic.cases)
  case (channel a f)
  show ?thesis unfolding channel
    by (rule sess_ok_cong [OF assms(2) same_sessions_upd]) simp_all
next
  case (join a i)
  note ok = with_session_same [OF assms(2) join(3), of i]
  show ?thesis using join(5)
  proof
    assume "q' = q"
    with ok join(2) show ?thesis by simp
  next
    assume "map_of (consumerSessions q) i = None \<and> q' = notify (q\<lparr>consumerSessions :=
        gm_put i a (consumerSessions q), consumerOrder := consumerOrder q @ [i]\<rparr>)"
    with ok join(2) show ?thesis by (auto simp: sess_ok_def NewConsumerSession_def)
  qed
next
  case (failed rec e)
  with w_Append_frame(1) [OF failed(4)] show ?thesis
    by (intro sess_ok_cong [OF assms(2)]) simp_all
next
  case (put m r)
  with w_Append_frame(1) [OF put(4)] show ?thesis
    by (intro sess_ok_cong [OF assms(2)]) simp_all
next
  case (take s a m ms r d)
  with assms(2) show ?thesis by (blast intro: take_head_sess_ok)
next
  case (return d r)
  have "same_sessions w w'" unfolding return
    by (rule same_sessions_trans [OF same_sessions_release [of w "d_ConsumerID d" q]]) simp
  with return show ?thesis by (intro sess_ok_cong [OF assms(2)]) simp_all
next
  case (acked t i w1)
  have "same_sessions w w'" unfolding acked
    by (rule same_sessions_eqD [OF _ same_sessions_release]) (use w_Append_frame(1) [OF acked(5)] in simp)
  with acked show ?thesis by (intro sess_ok_cong [OF assms(2)]) simp_all
next
  case (drop m w0 ms r)
  with w_Append_frame(1) [OF drop(6)] show ?thesis
    by (intro sess_ok_cong [OF assms(2)]) simp_all
next
  case (bury d w1)
  have "same_sessions w w'" unfolding bury
    by (rule same_sessions_eqD [OF _ same_sessions_settled]) (use w_Append_frame(1) [OF bury(6)] in simp)
  with bury show ?thesis by (intro sess_ok_cong [OF assms(2)]) simp_all
next
  case (requeue d w1 r)
  have "same_sessions w w'" unfolding requeue
    by (rule same_sessions_eqD [OF _ same_sessions_settled]) (use w_Append_frame(1) [OF requeue(6)] in simp)
  with requeue show ?thesis by (intro sess_ok_cong [OF assms(2)]) simp_all
qed (use assms(2) in \<open>simp_all add: sess_ok_def\<close>)

lemma atomic_uuids:
  assumes "atomic l w q w' q'"
  shows "w_uuids w' = w_uuids w \<and> w_uuid_pos w \<le> w_uuid_pos w'"
  using assms
proof (cases rule: atomic.cases)
  case (failed rec e)
  with w_Append_frame [OF failed(4)] show ?thesis by simp
next
  case (put m r)
  with w_Append_frame [OF put(4)] show ?thesis by simp
next
  case (take s a m ms r d)
  with take_head_result [OF take(7)] show ?thesis by simp
next
  case (acked t i w1)
  with w_Append_frame [OF acked(5)] show ?thesis by simp
next
  case (drop m w0 ms r)
  with w_Append_frame [OF drop(6)] show ?thesis by simp
next
  case (bury d w1)
  with w_Append_frame [OF bury(6)] show ?thesis by simp
next
  case (requeue d w1 r)
  with w_Append_frame [OF requeue(6)] show ?thesis by simp
qed simp_all

lemma atomic_clock:
  assumes "atomic l w q w' q'"
  shows "readings (w_clock w') = readings (w_clock w) \<and> ticks (w_clock w) \<le> ticks (w_clock w')"
  using assms
proof (cases rule: atomic.cases)
  case (failed rec e)
  with w_Append_frame [OF failed(4)] show ?thesis by simp
next
  case (put m r)
  with w_Append_frame [OF put(4)] show ?thesis by simp
next
  case (take s a m ms r d)
  with take_head_clock [OF take(7)] show ?thesis by simp
next
  case (acked t i w1)
  with w_Append_frame [OF acked(5)] show ?thesis by simp
next
  case (drop m w0 ms r)
  with w_Append_frame [OF drop(6)] show ?thesis by simp
next
  case (bury d w1)
  with w_Append_frame [OF bury(6)] show ?thesis by simp
next
  case (requeue d w1 r)
  with w_Append_frame [OF requeue(6)] show ?thesis by simp
qed simp_all

text \<open>What is in flight after a transition was in flight before, the taken message apart.\<close>

lemma atomic_in_flight:
  assumes "atomic l w q w' q'" and "qr_wf q" and "mgr_Get t (q_inFlight q') \<noteq> None"
  shows "mgr_Get t (q_inFlight q) \<noteq> None
    \<or> (t = w_uuids w (w_uuid_pos w) \<and> w_uuid_pos w' = Suc (w_uuid_pos w))"
  using assms(1)
proof (cases rule: atomic.cases)
  case (take s a m ms r d)
  note th = take_head_result [OF take(7)]
  have "mgr_Get t (q_inFlight q) \<noteq> None" if "t \<noteq> d_AckToken d"
    using assms(3) that th(2) ifm.get_add [of t "d_AckToken d" m "cs_ID s" "w_clock w" "q_inFlight q"]
    by simp
  with th(1,5) show ?thesis by auto
next
  case (join a i)
  with assms(3) show ?thesis by auto
qed (use assms(3) get_after_remove [OF assms(2)] in auto)

lemma atomic_base: "atomic l w q w' q' \<Longrightarrow> base w q \<Longrightarrow> base w' q'"
proof -
  assume a: "atomic l w q w' q'" and b: "base w q"
  note p = base_parts [OF b]
  note u = atomic_uuids [OF a]
  have "\<exists>i < w_uuid_pos w'. t = w_uuids w' i" if "mgr_Get t (q_inFlight q') \<noteq> None" for t
    using atomic_in_flight [OF a p(1) that]
  proof
    assume "mgr_Get t (q_inFlight q) \<noteq> None"
    with p(3) obtain i where "i < w_uuid_pos w" "t = w_uuids w i" by (auto simp: tokens_ok_def)
    with u show ?thesis by (intro exI [of _ i]) simp
  next
    assume "t = w_uuids w (w_uuid_pos w) \<and> w_uuid_pos w' = Suc (w_uuid_pos w)"
    with u show ?thesis by auto
  qed
  with p(3) u have "tokens_ok w' q'" by (simp add: tokens_ok_def)
  with atomic_wf [OF a p(1)] atomic_sess_ok [OF a p(2)] show "base w' q'" by (simp add: base_def)
qed

subsection \<open>Sequences of transitions\<close>

inductive steps :: "(string \<Rightarrow> queue_runtime \<Rightarrow> bool) \<Rightarrow> world \<Rightarrow> queue_runtime \<Rightarrow> world \<Rightarrow> queue_runtime \<Rightarrow> bool"
  for admit w q where
  none: "steps admit w q w q"
| more: "steps admit w q w1 q1 \<Longrightarrow> atomic l w1 q1 w2 q2 \<Longrightarrow> (\<forall>i. l = Join i \<longrightarrow> admit i q1) \<Longrightarrow>
    steps admit w q w2 q2"

lemma steps_base: "steps admit w q w' q' \<Longrightarrow> base w q \<Longrightarrow> base w' q'"
  by (induction rule: steps.induct) (auto intro: atomic_base)

lemma steps_one: "atomic l w q w' q' \<Longrightarrow> (\<forall>i. l = Join i \<longrightarrow> admit i q) \<Longrightarrow> steps admit w q w' q'"
  by (rule steps.more [OF steps.none])

lemma steps_trans: "steps admit w1 q1 w2 q2 \<Longrightarrow> steps admit w q w1 q1 \<Longrightarrow> steps admit w q w2 q2"
  by (induction rule: steps.induct) (auto intro: steps.more)

lemma steps_Tick:
  "w_wal w' = w_wal w \<Longrightarrow> w_uuids w' = w_uuids w \<Longrightarrow> w_uuid_pos w \<le> w_uuid_pos w' \<Longrightarrow>
   w_sessions w' = w_sessions w \<Longrightarrow> w_tokenOwners w' = w_tokenOwners w \<Longrightarrow>
   readings (w_clock w') = readings (w_clock w) \<Longrightarrow> ticks (w_clock w) \<le> ticks (w_clock w') \<Longrightarrow>
   steps admit w q w' q"
  by (rule steps_one [OF atomic.tick]) simp_all

lemma steps_Publish:
  assumes "base w q" and "qr_Publish m ttl w q = Some (out, w', q')"
    and "ID (fst (stamp m ttl w)) \<notin> ID ` set_mset (qr_messages q)"
  shows "steps admit w q w' q'"
  using base_parts(1) [OF assms(1)] assms(2)
proof (cases rule: qr_Publish_cases)
  case (log_failed e m' w1)
  have "steps admit w q w1 q" by (rule steps_Tick) (use stamp_world [OF log_failed(4)] in simp_all)
  moreover have "atomic (Failed (publish_record q m')) w1 q w' q'"
    unfolding log_failed(2) by (rule atomic.failed [OF _ log_failed(5)]) (simp add: publish_record_def)
  ultimately show ?thesis by (rule steps.more) simp
next
  case (accepted m' w1 r)
  have "steps admit w q w1 q" by (rule steps_Tick) (use stamp_world [OF accepted(3)] in simp_all)
  moreover have "atomic (Put m') w1 q w' q'"
    unfolding accepted(9)
    by (rule atomic.put [OF _ accepted(4)]) (use assms(3) accepted in \<open>simp_all add: rb_became_def\<close>)
  ultimately show ?thesis by (rule steps.more) simp
qed (simp_all add: steps.none)

lemma steps_Ack:
  assumes "qr_Ack t w q = (out, w', q')"
  shows "steps admit w q w' q'"
  using assms
proof (cases rule: qr_Ack_cases)
  case (log_failed e i)
  have "atomic (Failed (ack_record q (if_Message i))) w q w' q'"
    unfolding log_failed(3) by (rule atomic.failed [OF _ log_failed(4)]) (simp add: ack_record_def)
  then show ?thesis by (rule steps_one) simp
next
  case (acked i w1)
  show ?thesis using atomic.acked [OF acked(1,3)]
    by (intro steps_one [where l = "Acked t i"]) (simp_all add: acked removed_def)
qed (simp_all add: steps.none)

lemma steps_cancel:
  assumes "base w q" and "in_flight_as d q" and "rb_Size (q_queue q) \<noteq> rb_Capacity (q_queue q)"
    and "qr_cancelReservation d w q = Some (w', q')"
  shows "steps admit w q w' q'"
proof -
  note inv = qr_wf_parts(1) [OF base_parts(1) [OF assms(1)]]
  obtain r where r: "rb_Push (d_Message d) (q_queue q) = Some r" using rb.push_ok [OF inv assms(3)] by blast
  have "rb_became r (q_queue q) (rb_list (q_queue q) @ [d_Message d])"
    using rb.push_content [OF inv assms(3) r] by (simp add: rb_became_def)
  note ret = atomic.return [OF assms(2) this]
  from assms(2) obtain e where "mgr_Get (d_AckToken d) (q_inFlight q) = Some e"
    by (auto simp: in_flight_as_def)
  with assms(4) r have "w' = removeToken (d_AckToken d) q (release (d_ConsumerID d) q w)"
    "q' = notify ((removed (d_AckToken d) q)\<lparr>q_queue := r\<rparr>)"
    by (auto simp: qr_cancelReservation_eq removed_def)
  with ret show ?thesis by (intro steps_one [where l = "Return d"]) simp_all
qed

lemma steps_deadLetter:
  assumes "base w q" and "deadLetterExpiredMessages w q = Some (e, w', q')"
  shows "steps admit w q w' q'"
proof -
  have "steps admit w q w' q' \<and> qr_wf q'"
  proof (rule deadLetter_rule [where P = "steps admit w q", OF base_parts(1) [OF assms(1)] assms(2) steps.none])
    fix w1 q1 and m :: message
    assume "steps admit w q w1 q1"
    moreover have "steps admit w1 q1 (snd (isExpired m w1)) q1"
      by (rule steps_Tick) (cases "isExpired m w1"; simp add: isExpired_world)+
    ultimately show "steps admit w q (snd (isExpired m w1)) q1" by (blast intro: steps_trans)
  next
    fix w1 w2 q1 m e
    assume st: "steps admit w q w1 q1" and ap: "w_Append (dead_record q1 m) w1 = (Some e, w2)"
    have "loggable (dead_record q1 m)" by (simp add: dead_record_def)
    from steps.more [OF st atomic.failed [OF this ap]] show "steps admit w q w2 q1" by simp
  next
    fix w0 w1 w2 q1 m r
    assume *: "steps admit w q w1 q1" "isExpired m w0 = (True, w1)"
      "rb_list (q_queue q1) = m # rb_list r" "rb_invar r" "rb_Capacity r = rb_Capacity (q_queue q1)"
      "w_Append (dead_record q1 m) w1 = (None, w2)"
    then have "rb_became r (q_queue q1) (rb_list r)" by (simp add: rb_became_def)
    from steps.more [OF *(1) atomic.drop [OF *(2,3) this *(6)]]
    show "steps admit w q w2 (drop_head r m q1)" by simp
  qed
  then show ?thesis by simp
qed

lemma steps_Sched:
  "qr_wf (q\<lparr>nextConsumer := n, notifyDistributor := b\<rparr>) \<Longrightarrow>
   steps admit w q w (q\<lparr>nextConsumer := n, notifyDistributor := b\<rparr>)"
  by (rule steps_one [OF atomic.sched]) simp_all

lemma steps_nextConsumer:
  "qr_wf (q\<lparr>nextConsumer := n\<rparr>) \<Longrightarrow> steps admit w q w (q\<lparr>nextConsumer := n\<rparr>)"
  using steps_Sched [where q = q and n = n and b = "notifyDistributor q"] by simp

lemma steps_reserve:
  assumes "base w q" and "qr_reserveDelivery w q = Some (out, w', q')"
  shows "steps admit w q w' q'"
  using base_parts(1,2) [OF assms(1)] assms(2)
proof (cases rule: qr_reserveDelivery_cases)
  case (idle e n)
  from steps_nextConsumer [where q = "q'\<lparr>nextConsumer := n\<rparr>" and n = "nextConsumer q'"] idle(3)
  have "steps admit w' (q'\<lparr>nextConsumer := n\<rparr>) w' q'" by simp
  with steps_deadLetter [OF assms(1) idle(2)] show ?thesis by (blast intro: steps_trans)
next
  case (reserved a s m r w1 q1 n d)
  let ?q = "q1\<lparr>nextConsumer := n\<rparr>"
  have "steps admit w q w1 ?q"
    using steps_trans steps_deadLetter [OF assms(1) reserved(2)] steps_nextConsumer [OF reserved(8)] by blast
  moreover have "atomic (Take d) w1 ?q w' q'"
    by (rule atomic.take [where s = s and a = a and r = r, OF _ reserved(5) _ _ _ reserved(13)])
      (use reserved in \<open>simp_all add: rb_became_def\<close>)
  ultimately show ?thesis by (rule steps.more) simp
qed

lemma steps_processExpired:
  assumes "base w q" and "distinct order" and "processExpiredMessages order w q = Some (w', q')"
  shows "steps admit w q w' q'"
proof -
  have "steps admit w q w' q' \<and> qr_wf q'"
  proof (rule processExpired_rule [where P = "steps admit w q",
        OF base_parts(1) [OF assms(1)] assms(3,2) steps.none])
    fix w1 w2 q1 e rec and d :: delivery
    assume st: "steps admit w q w1 q1" and ap: "w_Append rec w1 = (Some e, w2)"
      and "rec = dead_record q1 (d_Message d) \<or> rec = requeue_record q1 (bump (d_Message d))"
    then have "loggable rec" by (auto simp: dead_record_def requeue_record_def)
    from steps.more [OF st atomic.failed [OF this ap]] show "steps admit w q w2 q1" by simp
  next
    fix w1 w2 q1 and d :: delivery
    assume *: "steps admit w q w1 q1" "in_flight_as d q1" "MaxRetries (q_config q1) \<le> Retry (d_Message d)"
      "w_Append (dead_record q1 (d_Message d)) w1 = (None, w2)"
    from steps.more [OF *(1) atomic.bury [OF *(2-4)]]
    show "steps admit w q (settled d q1 w2) (settle_dead d q1)" by simp
  next
    fix w1 w2 q1 r and d :: delivery
    assume *: "steps admit w q w1 q1" "in_flight_as d q1" "Retry (d_Message d) < MaxRetries (q_config q1)"
      "w_Append (requeue_record q1 (bump (d_Message d))) w1 = (None, w2)" "rb_invar r"
      "rb_list r = rb_list (q_queue q1) @ [bump (d_Message d)]" "rb_Capacity r = rb_Capacity (q_queue q1)"
    then have "rb_became r (q_queue q1) (rb_list (q_queue q1) @ [bump (d_Message d)])"
      by (simp add: rb_became_def)
    from steps.more [OF *(1) atomic.requeue [OF *(2-4) this]]
    show "steps admit w q (settled d q1 w2) (settle_requeued r d q1)" by simp
  qed (simp add: steps_Tick)
  then show ?thesis by simp
qed

lemma steps_Subscribe:
  assumes "base w q" and "w_sessions w a = None" and "admit i q"
    and "qr_Subscribe a (with_session a i w) q = Some (e, q')"
  shows "steps admit w q (with_session a i w) q'"
proof (rule steps_one [OF atomic.join [OF assms(2)]])
  show "qr_wf q'" by (rule qr_Subscribe_wf [OF base_parts(1) [OF assms(1)] assms(4)])
  show "q' = q \<or> map_of (consumerSessions q) i = None \<and> q' = notify (q\<lparr>consumerSessions :=
      gm_put i a (consumerSessions q), consumerOrder := consumerOrder q @ [i]\<rparr>)"
    using assms(4) by (auto simp: qr_Subscribe_def NewConsumerSession_def split: if_splits option.splits)
qed (use assms(3) in simp)

lemma steps_Leave:
  assumes "base w q" and "qr_wf q'" and "sess_ok (close_sessions as w) q'"
    and "q' = q\<lparr>q_closed := c, consumerSessions := m, consumerOrder := order, nextConsumer := n\<rparr>"
    and "map_of m \<subseteq>\<^sub>m map_of (consumerSessions q)"
    and "set as \<subseteq> ran (map_of (consumerSessions q))" and "q_closed q \<longrightarrow> c"
  shows "steps admit w q (close_sessions as w) q'"
  by (rule steps_one [OF atomic.leave [OF assms(4,5,2,3,6,7)]]) simp

lemma subscribed_addresses: "qr_wf q \<Longrightarrow> set (map snd (consumerSessions q)) \<subseteq> ran (map_of (consumerSessions q))"
  unfolding qr_wf_def gm_wf_def by (auto simp: ran_distinct)

lemma steps_leaving:
  assumes "base w q"
  shows "qr_Unsubscribe i w q = (w', q') \<Longrightarrow> steps admit w q w' q'"
    and "qr_Shutdown w q = (w', q') \<Longrightarrow> steps admit w q w' q'"
    and "CloseIfEmpty w q = (b, w', q') \<Longrightarrow> steps admit w q w' q'"
proof -
  note p = base_parts [OF assms]
  show "steps admit w q w' q'" if u: "qr_Unsubscribe i w q = (w', q')"
  proof (cases "map_of (consumerSessions q) i")
    case None
    with u show ?thesis by (simp add: qr_Unsubscribe_def steps.none)
  next
    case (Some a)
    then have w': "w' = close_sessions [a] w"
      using u by (simp add: qr_Unsubscribe_def Let_def close_sessions_def)
    show ?thesis unfolding w'
      by (rule steps_Leave [OF assms qr_Unsubscribe_wf [OF p(1) u]
            qr_Unsubscribe_sess_ok [OF p(2) u, unfolded w'],
            where c = "q_closed q" and m = "gm_del i (consumerSessions q)" and order = "consumerOrder q'"
            and n = "nextConsumer q'"])
        (use Some u in \<open>auto simp: qr_Unsubscribe_def Let_def map_le_def ranI split: if_splits\<close>)
  qed
  show "steps admit w q w' q'" if u: "qr_Shutdown w q = (w', q')"
  proof -
    have w': "w' = close_sessions (map snd (consumerSessions q)) w" using u by (simp add: qr_Shutdown_def)
    show ?thesis unfolding w'
      by (rule steps_Leave [OF assms qr_Shutdown_wf(1) [OF p(1) u] qr_Shutdown_wf(2) [OF p(1) u, unfolded w']])
        (use u subscribed_addresses [OF p(1)] in \<open>auto simp: qr_Shutdown_def\<close>)
  qed
  show "steps admit w q w' q'" if u: "CloseIfEmpty w q = (b, w', q')"
  proof (cases b)
    case False
    with u show ?thesis by (auto simp: CloseIfEmpty_def steps.none split: if_splits)
  next
    case True
    then have "qr_Shutdown w q = (w', q')"
      using u by (auto simp: CloseIfEmpty_def qr_Shutdown_def split: if_splits)
    then have w': "w' = close_sessions (map snd (consumerSessions q)) w" by (simp add: qr_Shutdown_def)
    show ?thesis unfolding w'
      by (rule steps_Leave [OF assms CloseIfEmpty_wf(1) [OF p(1) u] CloseIfEmpty_wf(2) [OF p(1) u p(2), unfolded w']])
        (use True u subscribed_addresses [OF p(1)] in \<open>auto simp: CloseIfEmpty_def split: if_splits\<close>)
  qed
qed

subsection \<open>Every event is a sequence of transitions\<close>

definition admitted ::
  "(string \<Rightarrow> queue_runtime \<Rightarrow> bool) \<Rightarrow> event \<Rightarrow> queue_system \<Rightarrow> bool" where
  "admitted admit ev s \<longleftrightarrow> safe ev s \<and> (case ev of EvSubscribe a i \<Rightarrow> admit i (qs_queue s) | _ \<Rightarrow> True)"

lemma steps_Channel: "steps admit w q (upd_session a (\<lambda>s. s\<lparr>Deliveries := f s\<rparr>) w) q"
  by (rule steps_one [OF atomic.channel]) simp

lemma order_distinct:
  "mset order = mset (map fst (deliveries (q_inFlight q))) \<Longrightarrow> qr_wf q \<Longrightarrow> distinct order"
  unfolding qr_wf_def mgr_invar_def gm_wf_def by (metis mset_eq_imp_distinct_iff)

lemma event_steps:
  assumes b: "base_sys s" and ok: "admitted admit ev s" and run: "qs_exec ev s = Next t"
  shows "steps admit (qs_world s) (qs_queue s) (qs_world t) (qs_queue t)"
proof (cases ev)
  case (EvPublish m ttl)
  with run ok show ?thesis
    by (auto simp: admitted_def split: option.splits intro: steps_Publish [OF b [unfolded base_sys_def]])
next
  case (EvAck x)
  with run show ?thesis by (auto split: prod.splits intro: steps_Ack)
next
  case (EvSubscribe a i)
  with run ok show ?thesis
    by (auto simp: connect_and_subscribe_def with_session_def [symmetric] Let_def admitted_def
        split: if_splits option.splits intro: steps_Subscribe [OF b [unfolded base_sys_def]])
next
  case (EvUnsubscribe i)
  with run show ?thesis by (auto split: prod.splits intro: steps_leaving [OF b [unfolded base_sys_def]])
next
  case EvShutdown
  with run show ?thesis by (auto split: prod.splits intro: steps_leaving [OF b [unfolded base_sys_def]])
next
  case EvCloseIfEmpty
  with run show ?thesis by (auto split: prod.splits intro: steps_leaving [OF b [unfolded base_sys_def]])
next
  case EvTop
  with run show ?thesis by (simp only: turns) (simp add: steps.none)
next
  case EvNotified
  with base_parts(1) [OF b [unfolded base_sys_def]] have
    "qr_wf ((qs_queue s)\<lparr>nextConsumer := nextConsumer (qs_queue s), notifyDistributor := False\<rparr>)"
    by (simp add: qr_wf_def)
  from steps_Sched [OF this] EvNotified run show ?thesis by (simp only: turns) simp
next
  case EvDone
  with run show ?thesis by (simp only: turns) (simp add: steps.none)
next
  case EvReserve
  with run show ?thesis
    by (simp only: turns) (auto intro: steps_reserve [OF b [unfolded base_sys_def]])
next
  case EvSend
  with run show ?thesis
    by (simp only: turns) (auto simp: send_delivery_def intro: steps_Channel)
next
  case EvCancel
  with run ok show ?thesis
    by (simp only: turns)
      (auto simp: admitted_def intro: steps_cancel [OF b [unfolded base_sys_def]])
next
  case (EvRedeliver closed order)
  with run have m: "mset order = mset (map fst (deliveries (q_inFlight (qs_queue s))))"
    and p: "processExpiredMessages order (qs_world s) (qs_queue s) = Some (qs_world t, qs_queue t)"
    by (auto simp: StartInflightRedeliveryWorker_turn_def split: if_splits option.splits)
  note b' = b [unfolded base_sys_def]
  from steps_processExpired [OF b' order_distinct [OF m base_parts(1) [OF b']] p] show ?thesis .
next
  case (EvExpire closed)
  with run show ?thesis
    by (auto simp: StartExpiryWorker_turn_def checkExpiredMessages_def split: if_splits option.splits
        intro: steps_deadLetter [OF b [unfolded base_sys_def]])
next
  case (EvReceive a)
  with run show ?thesis
    by (auto simp: receive_def split: option.splits list.splits intro: steps_Channel)
qed

subsection \<open>The interface of an invariant\<close>

locale atomic_invariant =
  fixes I :: "world \<Rightarrow> queue_runtime \<Rightarrow> bool"
    and admit :: "string \<Rightarrow> queue_runtime \<Rightarrow> bool"
  assumes keeps: "base w q \<Longrightarrow> I w q \<Longrightarrow> atomic l w q w' q' \<Longrightarrow> \<forall>i. l = Join i \<longrightarrow> admit i q \<Longrightarrow>
    I w' q'"
begin

lemma steps_keep: "steps admit w q w' q' \<Longrightarrow> base w q \<Longrightarrow> I w q \<Longrightarrow> I w' q'"
proof (induction rule: steps.induct)
  case (more w1 q1 l w2 q2)
  with keeps [OF steps_base [OF more.hyps(1)]] show ?case by blast
qed simp

lemma event_keeps:
  assumes "base_sys s" and "I (qs_world s) (qs_queue s)" and "admitted admit ev s"
    and "qs_exec ev s = Next t"
  shows "base_sys t" and "I (qs_world t) (qs_queue t)"
  using steps_base [OF event_steps [OF assms(1,3,4)]] steps_keep [OF event_steps [OF assms(1,3,4)]]
    assms(1,2) by (simp_all add: base_sys_def)

lemma reaches_keep:
  "reaches (admitted admit) s0 s \<Longrightarrow> base_sys s0 \<Longrightarrow> I (qs_world s0) (qs_queue s0) \<Longrightarrow>
   base_sys s \<and> I (qs_world s) (qs_queue s)"
proof (induction rule: reaches.induct)
  case (step s ev t)
  with event_keeps [of s ev t] show ?case by blast
qed simp

end

end
