(* ===== verification/Queue_Properties.thy ===== *)
theory Queue_Properties
  imports Atomic_Steps
begin

text \<open>
  The properties of a running queue, over every interleaving of its clients, its distributor
  and its two workers. A queue starts as the broker's \<open>newQueueRuntime\<close> makes it, with the
  messages recovered from the log. Each invariant is an interpretation of \<open>atomic_invariant\<close>:
  \<open>bal\<close> (the counters account for every message), \<open>dur\<close> (the log holds exactly the live
  messages), \<open>reg\<close> (the broker's token registry), \<open>pre\<close> (the prefetch limit), \<open>cau\<close> (nothing
  is dead-lettered without a cause).
\<close>

subsection \<open>Starting a queue\<close>

definition newQueueRuntime :: "config \<Rightarrow> nat \<Rightarrow> string \<Rightarrow> message list \<Rightarrow> queue_runtime option" where
  "newQueueRuntime cfg a name messages =
     (case NewRingBufferQueue (max (QueueSize cfg) (int (length messages))) of
        None \<Rightarrow> None
      | Some rb \<Rightarrow>
          map_option (SetTokenHooks a) (NewQueueRuntime name cfg messages rb NewDLQ NewManager))"

definition started :: "world \<Rightarrow> queue_runtime \<Rightarrow> queue_system" where
  "started w q = \<lparr>qs_world = w, qs_queue = q, qs_dist = D_Top\<rparr>"

lemma started_simps [simp]:
  "qs_world (started w q) = w" "qs_queue (started w q) = q" "qs_dist (started w q) = D_Top"
  by (simp_all add: started_def)

lemma push_recovered_correct:
  "rb_invar (q_queue q) \<Longrightarrow> rb_Size (q_queue q) + int (length ms) \<le> rb_Capacity (q_queue q) \<Longrightarrow>
   \<exists>r. push_recovered ms q = Some (q\<lparr>q_queue := r, producedCount := producedCount q + int (length ms)\<rparr>)
     \<and> rb_became r (q_queue q) (rb_list (q_queue q) @ ms)"
proof (induction ms arbitrary: q)
  case Nil
  then show ?case by (auto simp: rb_became_def intro: exI [of _ "q_queue q"])
next
  case (Cons m ms)
  then have room: "rb_Size (q_queue q) \<noteq> rb_Capacity (q_queue q)" by simp
  obtain r where r: "rb_Push m (q_queue q) = Some r" using rb.push_ok [OF Cons.prems(1) room] by blast
  note pc = rb.push_content [OF Cons.prems(1) room r]
  let ?q = "q\<lparr>q_queue := r, producedCount := producedCount q + 1\<rparr>"
  from Cons.IH [of ?q] pc Cons.prems(2) obtain r' where
    "push_recovered ms ?q = Some (?q\<lparr>q_queue := r', producedCount := producedCount ?q + int (length ms)\<rparr>)"
    "rb_became r' r (rb_list r @ ms)" by auto
  with r pc show ?case by (auto simp: rb_became_def algebra_simps)
qed

lemma newQueueRuntime_correct:
  "\<exists>q. newQueueRuntime cfg a name ms = Some q \<and> qr_wf q \<and> rb_list (q_queue q) = ms
    \<and> rb_Capacity (q_queue q) = max (QueueSize cfg) (int (length ms)) \<and> q_inFlight q = NewManager
    \<and> q_name q = name \<and> q_config q = cfg \<and> q_dlq q = NewDLQ \<and> consumerSessions q = []
    \<and> hooks q = Some a \<and> ackedCount q = 0 \<and> deadletteredCount q = 0 \<and> redeliveredCount q = 0
    \<and> producedCount q = int (length ms) \<and> \<not> q_closed q \<and> notifyDistributor q"
proof -
  let ?c = "max (QueueSize cfg) (int (length ms))"
  have "0 \<le> ?c" by simp
  from NewRingBufferQueue_correct [OF this] obtain rb where
    rb: "NewRingBufferQueue ?c = Some rb" "rb_invar rb" "rb_list rb = []" "rb_Capacity rb = ?c" by blast
  let ?q = "\<lparr>q_name = name, q_config = cfg, q_closed = False, q_queue = rb, q_inFlight = NewManager,
        q_dlq = NewDLQ, consumerSessions = [], consumerOrder = [], nextConsumer = 0,
        notifyDistributor = False, hooks = None, ackedCount = 0, producedCount = 0,
        redeliveredCount = 0, deadletteredCount = 0\<rparr>"
  have "rb_Size rb = 0" using rb.size_content [OF rb(2)] rb(3) by simp
  with push_recovered_correct [of ?q ms] rb obtain r where
    "push_recovered ms ?q = Some (?q\<lparr>q_queue := r, producedCount := int (length ms)\<rparr>)"
    "rb_invar r" "rb_list r = ms" "rb_Capacity r = ?c" by (auto simp: rb_became_def)
  with rb(1) show ?thesis
    by (simp add: newQueueRuntime_def NewQueueRuntime_def SetTokenHooks_def notify_def qr_wf_def
        NewManager_def mgr_invar_def)
qed

lemma newQueueRuntime_result:
  assumes "newQueueRuntime cfg a name ms = Some q"
  shows "qr_wf q" "rb_list (q_queue q) = ms" "q_inFlight q = NewManager" "q_name q = name"
    "q_config q = cfg" "q_dlq q = NewDLQ" "consumerSessions q = []" "hooks q = Some a"
    "ackedCount q = 0" "deadletteredCount q = 0" "producedCount q = int (length ms)" "\<not> q_closed q"
    "rb_Capacity (q_queue q) = max (QueueSize cfg) (int (length ms))"
  using newQueueRuntime_correct [of cfg a name ms] assms by auto

lemma newQueueRuntime_base:
  assumes "newQueueRuntime cfg a name ms = Some q" and "inj (w_uuids w)"
  shows "base w q"
  using newQueueRuntime_result [OF assms(1)] assms(2)
  by (simp add: base_def sess_ok_def tokens_ok_def NewManager_def mgr_Get_def)

lemma admitted_all: "admitted (\<lambda>_ _. True) = safe"
  by (simp add: admitted_def fun_eq_iff split: event.splits)

subsection \<open>A sample run\<close>

text \<open>
  The runs in the witnesses start from this world: an empty log on a disk that works, a clock
  that advances by one per reading and the identifiers ``u'', ``uu'', and so on.
\<close>

definition sample_world :: world where
  "sample_world = \<lparr>w_clock = \<lparr>readings = int, ticks = 0\<rparr>, w_uuids = (\<lambda>n. replicate (Suc n) CHR ''u''),
     w_uuid_pos = 0, w_wal = empty_wal, w_sessions = (\<lambda>_. None), w_tokenOwners = []\<rparr>"

definition sample_start :: "config \<Rightarrow> queue_system" where
  "sample_start cfg = started sample_world (the (newQueueRuntime cfg 0 ''jobs'' []))"

definition msg :: "string \<Rightarrow> message" where
  "msg i = zero_message\<lparr>ID := i\<rparr>"

lemma sample_runtime:
  "newQueueRuntime cfg 0 ''jobs'' [] = Some (the (newQueueRuntime cfg 0 ''jobs'' []))"
  using newQueueRuntime_correct [of cfg 0 "''jobs''" "[]"] by auto

lemma sample_uuids: "inj (w_uuids sample_world)"
  by (rule injI) (metis (no_types, lifting) length_replicate nat.inject sample_world_def world.select_convs(2))

lemma sample_reaches:
  "trace allowed evs (sample_start cfg) = Some t \<Longrightarrow>
   reaches allowed (started sample_world (the (newQueueRuntime cfg 0 ''jobs'' []))) t"
  unfolding sample_start_def by (rule trace_reaches)

subsection \<open>No operation panics\<close>

lemma safe_no_panic:
  assumes b: "base_sys s" and ok: "safe ev s"
  shows "qs_exec ev s \<noteq> Panicked"
proof (cases ev)
  note p = base_parts [OF b [unfolded base_sys_def]]
  {
    case (EvPublish m ttl)
    from qr_Publish_total [OF p(1), of m ttl "qs_world s"] EvPublish show ?thesis by auto
  next
    case EvReserve
    from qr_reserveDelivery_total [OF p(1,2)] EvReserve show ?thesis
      by (cases "qs_dist s") (auto simp: RunDistributor_turn_def split: option.splits)
  next
    case EvCancel
    show ?thesis
    proof (cases "qs_dist s")
      case (D_Holding a d)
      with ok EvCancel rb.push_ok [OF qr_wf_parts(1) [OF p(1)], of "d_Message d"] EvCancel
      show ?thesis by (auto simp: RunDistributor_turn_def qr_cancelReservation_eq)
    qed (use EvCancel in \<open>simp_all add: RunDistributor_turn_def\<close>)
  next
    case (EvRedeliver closed order)
    from processExpired_total [OF p(1), of order "qs_world s"] EvRedeliver show ?thesis
      by (auto simp: StartInflightRedeliveryWorker_turn_def)
  next
    case (EvExpire closed)
    from deadLetter_total [OF p(1), of "qs_world s"] EvExpire show ?thesis
      by (auto simp: StartExpiryWorker_turn_def checkExpiredMessages_def)
  next
    case (EvSubscribe a i)
    then show ?thesis
      by (auto simp: connect_and_subscribe_def qr_Subscribe_def Let_def split: option.splits)
  next
    case (EvReceive a)
    then show ?thesis by (auto simp: receive_def split: option.splits list.splits)
  }
qed (auto simp: RunDistributor_turn_def split: distributor.splits prod.splits)

interpretation bas: atomic_invariant "\<lambda>_ _. True" "\<lambda>_ _. True"
  by unfold_locales simp

text \<open>
  C4. No panic: from a queue started with any recovered messages, in any interleaving of
  publishes, acks, (un)subscriptions, shutdowns, distributor turns, worker turns and
  receives that cancels a reservation only while it is in flight and the queue has room,
  no event indexes out of range, divides by zero or follows a nil session.
\<close>

theorem queue_never_panics:
  assumes "newQueueRuntime cfg a name ms = Some q" and "inj (w_uuids w)"
    and "reaches safe (started w q) s" and "safe ev s"
  shows "qs_exec ev s \<noteq> Panicked"
proof -
  have "base_sys (started w q)" using newQueueRuntime_base [OF assms(1,2)] by (simp add: base_sys_def)
  with bas.reaches_keep [unfolded admitted_all, OF assms(3)] have "base_sys s" by simp
  then show ?thesis by (rule safe_no_panic [OF _ assms(4)])
qed

theorem queue_never_panics_witness:
  "\<exists>t. trace safe [EvSubscribe 0 ''c1'', EvPublish (msg ''a'') 0, EvTop, EvNotified, EvReserve,
        EvUnsubscribe ''c1''] (sample_start DefaultConfig) = Some t
     \<and> safe EvCancel t \<and> qs_exec EvCancel t \<noteq> Panicked"
proof -
  let ?t = "trace safe [EvSubscribe 0 ''c1'', EvPublish (msg ''a'') 0, EvTop, EvNotified, EvReserve,
        EvUnsubscribe ''c1''] (sample_start DefaultConfig)"
  have "case ?t of None \<Rightarrow> False | Some t \<Rightarrow> safe EvCancel t" by code_simp
  then obtain t where t: "?t = Some t" "safe EvCancel t" by (auto split: option.splits)
  from queue_never_panics [OF sample_runtime sample_uuids sample_reaches [OF t(1)] t(2)] t
  show ?thesis by blast
qed

subsection \<open>The counters account for every message\<close>

definition balanced :: "world \<Rightarrow> queue_runtime \<Rightarrow> bool" where
  "balanced w q \<longleftrightarrow>
     producedCount q = ackedCount q + deadletteredCount q + mgr_Size (q_inFlight q) + rb_Size (q_queue q)
     \<and> deadletteredCount q = dlq_Size (q_dlq q)"

lemma rb_became_size:
  "rb_became r q ms \<Longrightarrow> rb_Size r = int (length ms)"
  "rb_became r q ms \<Longrightarrow> rb_list r = ms" "rb_became r q ms \<Longrightarrow> rb_invar r"
  "rb_became r q ms \<Longrightarrow> rb_Capacity r = rb_Capacity q"
  by (auto simp: rb_became_def rb.size_content)

lemma in_flight_sizes:
  assumes "qr_wf q" and "in_flight_as d q"
  shows "mgr_Size (snd (mgr_Remove (d_AckToken d) (q_inFlight q))) = mgr_Size (q_inFlight q) - 1"
    and "mgr_messages (q_inFlight q) =
      add_mset (d_Message d) (mgr_messages (snd (mgr_Remove (d_AckToken d) (q_inFlight q))))"
  using assms(2) ifm.size_remove [OF qr_wf_parts(2) [OF assms(1)]]
    ifm.content_remove [OF qr_wf_parts(2) [OF assms(1)]]
  by (auto simp: in_flight_as_def)

lemma taken_sizes:
  assumes "base w q" and "take_head a s m r w q = (d, w', q')"
  shows "mgr_Size (q_inFlight q') = mgr_Size (q_inFlight q) + 1"
    and "mgr_messages (q_inFlight q') = add_mset m (mgr_messages (q_inFlight q))"
proof -
  note th = take_head_result [OF assms(2)]
  have "mgr_Get (d_AckToken d) (q_inFlight q) = None"
    using token_fresh [OF base_parts(3) [OF assms(1)]] th(1) by simp
  with th(2) ifm.size_add [OF qr_wf_parts(2) [OF base_parts(1) [OF assms(1)]]]
    ifm.content_add [OF qr_wf_parts(2) [OF base_parts(1) [OF assms(1)]]]
  show "mgr_Size (q_inFlight q') = mgr_Size (q_inFlight q) + 1"
    and "mgr_messages (q_inFlight q') = add_mset m (mgr_messages (q_inFlight q))" by simp_all
qed

interpretation bal: atomic_invariant balanced "\<lambda>_ _. True"
proof
  fix w q l w' q'
  assume b: "base w q" and inv: "balanced w q" and a: "atomic l w q w' q'"
  note wf = base_parts(1) [OF b]
  have size: "rb_Size (q_queue q) = int (length (rb_list (q_queue q)))"
    by (rule rb.size_content [OF qr_wf_parts(1) [OF wf]])
  show "balanced w' q'" using a
  proof (cases rule: atomic.cases)
    case (take s c m ms r d)
    note th = take_head_result [OF take(7)]
    from take inv size taken_sizes(1) [OF b take(7)] rb_became_size(1) [OF take(6)] th(2)
    show ?thesis by (simp add: balanced_def)
  next
    case (acked t i w1)
    with inv ifm.size_remove [OF qr_wf_parts(2) [OF wf] acked(4)] show ?thesis
      by (simp add: balanced_def)
  next
    case (join c i)
    with inv show ?thesis by (auto simp: balanced_def)
  qed (use inv size in_flight_sizes(1) [OF wf] in
      \<open>simp_all add: balanced_def rb_became_size dl.size_push\<close>)
qed



subsection \<open>The log holds exactly the live messages\<close>

text \<open>
  \<open>clean_disk\<close>: a write either succeeds or fails without leaving a trace, the file can be
  opened. A torn or unsynced write is what \<open>wal_Append_failed\<close> is about.
\<close>

definition clean_disk :: "file_wal \<Rightarrow> bool" where
  "clean_disk f \<longleftrightarrow> wf_open f = OpenOk \<and> (\<forall>n. wf_io f n = IoOk \<or> wf_io f n = IoWriteErr False)"

definition durable :: "world \<Rightarrow> queue_runtime \<Rightarrow> bool" where
  "durable w q \<longleftrightarrow> clean_disk (w_wal w) \<and>
     (\<exists>st. wal_Load (w_wal w) = Inr st \<and> mset (pending (q_name q) st) = qr_messages q
       \<and> distinct (map ID (pending (q_name q) st)))"

lemma clean_Append:
  assumes "clean_disk (w_wal w)" and "w_Append rec w = (e, w')"
  shows "clean_disk (w_wal w')"
  using assms wal_Append_frame by (fastforce simp: clean_disk_def w_Append_result)

lemma clean_failed:
  assumes "clean_disk (w_wal w)" and "w_Append rec w = (Some e, w')"
  shows "wf_chunks (w_wal w') = wf_chunks (w_wal w)"
proof -
  have "wf_io (w_wal w) (wf_writes (w_wal w)) = IoOk \<or> wf_io (w_wal w) (wf_writes (w_wal w)) = IoWriteErr False"
    using assms(1) by (simp add: clean_disk_def)
  with assms(2) show ?thesis
    by (auto simp: w_Append_result wal_Append_eq writeRecord_def Let_def split: if_splits)
qed

lemma durable_failed:
  assumes "durable w q" and "w_Append rec w = (Some e, w')"
  shows "durable w' q"
proof -
  from assms(1) have c: "clean_disk (w_wal w)" by (simp add: durable_def)
  with clean_failed [OF c assms(2)] clean_Append [OF c assms(2)]
  have "wal_Load (w_wal w') = wal_Load (w_wal w)" by (simp add: wal_Load_def clean_disk_def)
  with assms(1) clean_Append [OF c assms(2)] show ?thesis by (simp add: durable_def)
qed

text \<open>A successful append of a record for this queue changes what is pending as given by \<open>f\<close>.\<close>

lemma durable_logged:
  assumes d: "durable w q" and ap: "w_Append rec w = (None, w1)" and log: "loggable rec"
    and eff: "\<And>st. pending (q_name q) (apply_record rec st) = f (pending (q_name q) st)"
    and keep: "\<And>ms. distinct (map ID ms) \<Longrightarrow> mset ms = qr_messages q \<Longrightarrow>
      mset (f ms) = qr_messages q' \<and> distinct (map ID (f ms))"
    and same: "w_wal w' = w_wal w1" "q_name q' = q_name q"
  shows "durable w' q'"
proof -
  from d obtain st where c: "clean_disk (w_wal w)" and st: "wal_Load (w_wal w) = Inr st"
    "mset (pending (q_name q) st) = qr_messages q" "distinct (map ID (pending (q_name q) st))"
    by (auto simp: durable_def)
  have "wal_Append rec (w_wal w) = (None, w_wal w1)" using ap by (auto simp: w_Append_result)
  with wal.append_ok [OF _ log this st(1)] c have "wal_Load (w_wal w1) = Inr (apply_record rec st)"
    by (simp add: clean_disk_def)
  with clean_Append [OF c ap] same eff [of st] keep [OF st(3,2)] show ?thesis
    by (simp add: durable_def)
qed

lemma durable_quiet:
  "durable w q \<Longrightarrow> w_wal w' = w_wal w \<Longrightarrow> q_name q' = q_name q \<Longrightarrow> qr_messages q' = qr_messages q \<Longrightarrow>
   durable w' q'"
  by (simp add: durable_def)

lemma removeMessage_result:
  assumes "distinct (map ID ms)" and "mset ms = add_mset m M"
  shows "mset (removeMessage ms (ID m)) = M" and "distinct (map ID (removeMessage ms (ID m)))"
proof -
  have "m \<in> set ms" using assms(2) by (metis set_mset_mset union_single_eq_member)
  from removeMessage_unique [OF assms(1) this] assms(2) show "mset (removeMessage ms (ID m)) = M" by simp
qed (rule removeMessage_distinct [OF assms(1)])

lemma settled_messages:
  assumes "qr_wf q" and "in_flight_as d q"
  shows "qr_messages q = add_mset (d_Message d) (qr_messages (settle_dead d q))"
    and "rb_became r (q_queue q) (rb_list (q_queue q) @ [x]) \<Longrightarrow>
      qr_messages (settle_requeued r d q) = add_mset x (qr_messages (settle_dead d q))"
    and "rb_became r (q_queue q) (rb_list (q_queue q) @ [d_Message d]) \<Longrightarrow>
      qr_messages (notify ((removed (d_AckToken d) q)\<lparr>q_queue := r\<rparr>)) = qr_messages q"
  using in_flight_sizes(2) [OF assms] by (simp_all add: qr_messages_def rb_became_size)

lemma durable_removed:
  assumes "durable w q" and "w_Append rec w = (None, w1)" and "loggable rec"
    and "\<And>st. pending (q_name q) (apply_record rec st) = removeMessage (pending (q_name q) st) (ID m)"
    and "qr_messages q = add_mset m (qr_messages q')" and "w_wal w' = w_wal w1" and "q_name q' = q_name q"
  shows "durable w' q'"
  by (rule durable_logged [where f = "\<lambda>ms. removeMessage ms (ID m)", OF assms(1-4) _ assms(6,7)])
    (use assms(5) removeMessage_result in simp)

interpretation dur: atomic_invariant durable "\<lambda>_ _. True"
proof
  fix w q l w' q'
  assume b: "base w q" and inv: "durable w q" and a: "atomic l w q w' q'"
  note wf = base_parts(1) [OF b]
  note sm = settled_messages [OF wf]
  show "durable w' q'" using a
  proof (cases rule: atomic.cases)
    case (failed rec e)
    with durable_failed [OF inv] show ?thesis by simp
  next
    case (put m r)
    show ?thesis
    proof (rule durable_logged [where f = "\<lambda>ms. ms @ [m]", OF inv put(4)])
      fix ms
      assume "distinct (map ID ms)" "mset ms = qr_messages q"
      moreover from this(2) have "set ms = set_mset (qr_messages q)" by (metis set_mset_mset)
      ultimately show "mset (ms @ [m]) = qr_messages q' \<and> distinct (map ID (ms @ [m]))"
        using put(2,3) rb_became_size(2) [OF put(5)] by (simp add: qr_messages_def)
    qed (use put(2) in \<open>simp_all add: publish_record_def apply_record_types\<close>)
  next
    case (take s c m ms r d)
    note th = take_head_result [OF take(7)]
    show ?thesis
      by (rule durable_quiet [OF inv])
        (use th taken_sizes(2) [OF b take(7)] take(5) rb_became_size(2) [OF take(6)]
          in \<open>simp_all add: qr_messages_def\<close>)
  next
    case (return d r)
    then show ?thesis using sm(3) by (intro durable_quiet [OF inv]) simp_all
  next
    case (acked t i w1)
    show ?thesis
      by (rule durable_removed [where m = "if_Message i", OF inv acked(5)])
        (use acked ifm.content_remove [OF qr_wf_parts(2) [OF wf] acked(4)]
          in \<open>simp_all add: ack_record_def apply_record_types qr_messages_def\<close>)
  next
    case (drop m w0 ms r)
    show ?thesis
      by (rule durable_removed [where m = m, OF inv drop(6)])
        (use drop rb_became_size(2) [OF drop(5)]
          in \<open>simp_all add: dead_record_def apply_record_types qr_messages_def\<close>)
  next
    case (bury d w1)
    show ?thesis
      by (rule durable_removed [where m = "d_Message d", OF inv bury(6)])
        (use bury sm(1) in \<open>simp_all add: dead_record_def apply_record_types\<close>)
  next
    case (requeue d w1 r)
    let ?m = "d_Message d"
    note q' = sm(2) [OF requeue(4,7)]
    show ?thesis
    proof (rule durable_logged [where f = "\<lambda>ms. removeMessage ms (ID ?m) @ [bump ?m]", OF inv requeue(6)])
      fix ms
      assume d: "distinct (map ID ms)" and "mset ms = qr_messages q"
      then have "mset ms = add_mset ?m (qr_messages (settle_dead d q))" using sm(1) [OF requeue(4)] by simp
      from removeMessage_result [OF d this] removeMessage_gone [of "ID ?m" ms] q' requeue(3)
      show "mset (removeMessage ms (ID ?m) @ [bump ?m]) = qr_messages q'
          \<and> distinct (map ID (removeMessage ms (ID ?m) @ [bump ?m]))"
        by simp
    qed (use requeue in \<open>simp_all add: requeue_record_def apply_record_types\<close>)
  qed (use inv in \<open>auto simp: durable_def qr_messages_def\<close>)
qed



end
