(* ===== verification/Queue_Delivery.thy ===== *)
theory Queue_Delivery
  imports Queue_Properties
begin

text \<open>
  What a queue promises about deliveries: the broker's token registry lists exactly the
  tokens in flight (\<open>reg\<close>), no consumer holds more unacknowledged messages than the prefetch
  limit (\<open>pre\<close>), messages leave the queue in order and never after their expiry, consumers
  are served in turn, an acknowledgement settles a message once and a message is
  dead-lettered only for a cause (\<open>cau\<close>). Two theorems show where the cancellation of a
  reservation breaks the accounting.
\<close>

subsection \<open>What a queue keeps for life\<close>

definition identity :: "queue_runtime \<Rightarrow> string \<times> config \<times> nat option \<times> int" where
  "identity q = (q_name q, q_config q, hooks q, rb_Capacity (q_queue q))"

interpretation idn: atomic_invariant "\<lambda>w q. identity q = x" "\<lambda>_ _. True" for x
proof
  fix w q l w' q'
  assume "identity q = x" and "atomic l w q w' q'"
  from this(2,1) show "identity q' = x"
  proof (cases rule: atomic.cases)
    case (take s c m ms r d)
    with take_head_result(2) [OF take(7)] \<open>identity q = x\<close> show ?thesis
      by (simp add: identity_def rb_became_def)
  qed (auto simp: identity_def rb_became_def)
qed

lemma started_identity:
  assumes "reaches (admitted admit) (started w q) s" and "base w q"
  shows "q_name (qs_queue s) = q_name q" "q_config (qs_queue s) = q_config q"
    "hooks (qs_queue s) = hooks q" "rb_Capacity (q_queue (qs_queue s)) = rb_Capacity (q_queue q)"
proof -
  have "reaches safe (started w q) s"
    using assms(1) by (induction rule: reaches.induct) (auto simp: admitted_def intro: reaches.intros)
  with idn.reaches_keep [unfolded admitted_all, of "started w q" s "identity q"] assms(2)
  have "identity (qs_queue s) = identity q" by (simp add: base_sys_def)
  then show "q_name (qs_queue s) = q_name q" "q_config (qs_queue s) = q_config q"
    "hooks (qs_queue s) = hooks q" "rb_Capacity (q_queue (qs_queue s)) = rb_Capacity (q_queue q)"
    by (simp_all add: identity_def)
qed

subsection \<open>The token registry\<close>

definition registered :: "world \<Rightarrow> queue_runtime \<Rightarrow> bool" where
  "registered w q \<longleftrightarrow> (\<forall>a. hooks q = Some a \<longrightarrow>
     (\<forall>t. map_of (w_tokenOwners w) t = Some a \<longleftrightarrow> mgr_Get t (q_inFlight q) \<noteq> None))"

lemma map_of_removeToken [simp]:
  "map_of (w_tokenOwners (removeToken t q w)) = (case hooks q of None \<Rightarrow> map_of (w_tokenOwners w)
     | Some a \<Rightarrow> (map_of (w_tokenOwners w))(t := None))"
  by (simp add: removeToken_def split: option.splits)

lemma map_of_registerToken [simp]:
  "map_of (w_tokenOwners (registerToken t q w)) = (case hooks q of None \<Rightarrow> map_of (w_tokenOwners w)
     | Some a \<Rightarrow> (map_of (w_tokenOwners w))(t \<mapsto> a))"
  by (simp add: registerToken_def split: option.splits)

lemma registered_removed:
  assumes "registered w q" and "qr_wf q" and "hooks q' = hooks q"
    and "q_inFlight q' = snd (mgr_Remove t (q_inFlight q))"
    and "w_tokenOwners w1 = w_tokenOwners w" and "w_tokenOwners w' = w_tokenOwners (removeToken t q w1)"
  shows "registered w' q'"
  unfolding registered_def
proof (intro allI impI)
  fix a t'
  assume h: "hooks q' = Some a"
  with assms(3) have "hooks q = Some a" by simp
  with assms(1) have "map_of (w_tokenOwners w) t' = Some a \<longleftrightarrow> mgr_Get t' (q_inFlight q) \<noteq> None"
    by (simp add: registered_def)
  with h assms(3-6) ifm.get_remove [OF qr_wf_parts(2) [OF assms(2)], of t' t]
  show "map_of (w_tokenOwners w') t' = Some a \<longleftrightarrow> mgr_Get t' (q_inFlight q') \<noteq> None"
    by (simp add: \<open>hooks q = Some a\<close>)
qed

lemma registered_quiet:
  "registered w q \<Longrightarrow> hooks q' = hooks q \<Longrightarrow> q_inFlight q' = q_inFlight q \<Longrightarrow>
   w_tokenOwners w' = w_tokenOwners w \<Longrightarrow> registered w' q'"
  by (simp add: registered_def)

lemma removeToken_release:
  "w_tokenOwners (removeToken t q (release i q w)) = w_tokenOwners (removeToken t q w)"
  by (simp add: removeToken_def split: option.splits)

lemma registered_atomic:
  assumes b: "base w q" and inv: "registered w q" and a: "atomic l w q w' q'"
  shows "registered w' q'"
proof -
  note wf = base_parts(1) [OF b]
  note quiet = registered_quiet [OF inv]
  show ?thesis using a
  proof (cases rule: atomic.cases)
    case (join c i)
    then show ?thesis by (intro quiet) auto
  next
    case (failed rec e)
    with w_Append_frame(5) [OF failed(4)] show ?thesis by (intro quiet) simp_all
  next
    case (put m r)
    with w_Append_frame(5) [OF put(4)] show ?thesis by (intro quiet) simp_all
  next
    case (drop m w0 ms r)
    with w_Append_frame(5) [OF drop(6)] show ?thesis by (intro quiet) simp_all
  next
    case (take s c m ms r d)
    note th = take_head_result [OF take(7)]
    show ?thesis unfolding registered_def
    proof (intro allI impI)
      fix x t
      assume "hooks q' = Some x"
      with inv th(2) have h: "hooks q = Some x"
        and "map_of (w_tokenOwners w) t = Some x \<longleftrightarrow> mgr_Get t (q_inFlight q) \<noteq> None"
        by (simp_all add: registered_def)
      with th(2,7) ifm.get_add [of t "d_AckToken d" m "cs_ID s" "w_clock w" "q_inFlight q"]
        ifm.get_added [of "d_AckToken d" m "cs_ID s" "w_clock w" "q_inFlight q"]
      show "map_of (w_tokenOwners w') t = Some x \<longleftrightarrow> mgr_Get t (q_inFlight q') \<noteq> None" by auto
    qed
  next
    case (return d r)
    show ?thesis
      by (rule registered_removed [OF inv wf _ _ refl, of _ "d_AckToken d"])
        (simp_all add: return removeToken_release)
  next
    case (acked t i w1)
    show ?thesis
      by (rule registered_removed [OF inv wf _ _ w_Append_frame(5) [OF acked(5)]])
        (simp_all add: acked)
  next
    case (bury d w1)
    show ?thesis
      by (rule registered_removed [OF inv wf _ _ w_Append_frame(5) [OF bury(6)], of _ "d_AckToken d"])
        (simp_all add: bury settled_def)
  next
    case (requeue d w1 r)
    show ?thesis
      by (rule registered_removed [OF inv wf _ _ w_Append_frame(5) [OF requeue(6)], of _ "d_AckToken d"])
        (simp_all add: requeue settled_def)
  qed (use inv in \<open>simp_all add: registered_def\<close>)
qed

interpretation reg: atomic_invariant registered "\<lambda>_ _. True"
  by unfold_locales (rule registered_atomic)



subsection \<open>The prefetch limit\<close>

definition outstanding :: "string \<Rightarrow> queue_runtime \<Rightarrow> int" where
  "outstanding i q = int (size (filter_mset (\<lambda>p. if_ConsumerID (snd p) = i) (mset (deliveries (q_inFlight q)))))"

definition prefetch_ok :: "world \<Rightarrow> queue_runtime \<Rightarrow> bool" where
  "prefetch_ok w q \<longleftrightarrow> (\<forall>i c s. map_of (consumerSessions q) i = Some c \<longrightarrow> w_sessions w c = Some s \<longrightarrow>
     UnackedCount s = outstanding i q \<and> UnackedCount s \<le> max 0 (ConsumerPrefetch (q_config q)))"

definition newcomer :: "string \<Rightarrow> queue_runtime \<Rightarrow> bool" where
  "newcomer i q \<longleftrightarrow> outstanding i q = 0"

lemma outstanding_cong: "q_inFlight q' = q_inFlight q \<Longrightarrow> outstanding i q' = outstanding i q"
  by (simp add: outstanding_def)

lemma outstanding_removed:
  assumes "qr_wf q" and "mgr_Get t (q_inFlight q) = Some e"
    and "q_inFlight q' = snd (mgr_Remove t (q_inFlight q))"
  shows "outstanding i q' = outstanding i q - (if if_ConsumerID e = i then 1 else 0)"
proof -
  have "mset (deliveries (q_inFlight q)) = add_mset (t, e) (mset (deliveries (q_inFlight q')))"
    using assms mset_gm_del [of "deliveries (q_inFlight q)" t e]
    by (simp add: qr_wf_def mgr_defs)
  then show ?thesis by (simp add: outstanding_def)
qed

lemma outstanding_added:
  assumes "mgr_Get t (q_inFlight q) = None" and "q_inFlight q' = fst (mgr_Add t m j c (q_inFlight q))"
  shows "outstanding i q' = outstanding i q + (if j = i then 1 else 0)"
  using assms by (simp add: outstanding_def mgr_defs time_Now_def gm_put_new)

lemma w_sessions_release:
  "w_sessions (release j q w) b =
     (if map_of (consumerSessions q) j = Some b
      then map_option (\<lambda>s. s\<lparr>UnackedCount := UnackedCount s - 1\<rparr>) (w_sessions w b) else w_sessions w b)"
  by (auto simp: release_def split: option.splits)

lemma prefetch_okD:
  assumes "prefetch_ok w q" and "map_of (consumerSessions q) i = Some c" and "w_sessions w c = Some s"
  shows "UnackedCount s = outstanding i q" and "UnackedCount s \<le> max 0 (ConsumerPrefetch (q_config q))"
  using assms unfolding prefetch_ok_def by blast+

text \<open>A session of the changed world is one of the old world with the same counter.\<close>

lemma prefetch_quiet:
  assumes "prefetch_ok w q" and "q_inFlight q' = q_inFlight q" and "q_config q' = q_config q"
    and "map_of (consumerSessions q') \<subseteq>\<^sub>m map_of (consumerSessions q)"
    and "\<And>c s. w_sessions w' c = Some s \<Longrightarrow> c \<in> ran (map_of (consumerSessions q)) \<Longrightarrow>
      \<exists>s0. w_sessions w c = Some s0 \<and> UnackedCount s = UnackedCount s0"
  shows "prefetch_ok w' q'"
  unfolding prefetch_ok_def
proof (intro allI impI)
  fix i c s
  assume i: "map_of (consumerSessions q') i = Some c" and s: "w_sessions w' c = Some s"
  with assms(4) have i: "map_of (consumerSessions q) i = Some c" by (metis domI map_le_def)
  with assms(5) [OF s] obtain s0 where "w_sessions w c = Some s0" "UnackedCount s = UnackedCount s0"
    by (auto simp: ran_def)
  with prefetch_okD [OF assms(1) i this(1)] assms(2,3) show "UnackedCount s = outstanding i q' \<and> UnackedCount s \<le> max 0 (ConsumerPrefetch (q_config q'))"
    by (simp add: outstanding_def)
qed

lemma prefetch_removed:
  assumes inv: "prefetch_ok w q" and wf: "qr_wf q" and ok: "sess_ok w q"
    and e: "mgr_Get t (q_inFlight q) = Some e"
    and q': "q_inFlight q' = snd (mgr_Remove t (q_inFlight q))" "q_config q' = q_config q"
      "consumerSessions q' = consumerSessions q"
    and w': "w_sessions w1 = w_sessions w" "w_sessions w' = w_sessions (release (if_ConsumerID e) q w1)"
  shows "prefetch_ok w' q'"
  unfolding prefetch_ok_def
proof (intro allI impI)
  fix i c s
  assume i: "map_of (consumerSessions q') i = Some c" and s: "w_sessions w' c = Some s"
  let ?j = "if_ConsumerID e"
  have "map_of (consumerSessions q) ?j = Some c \<longleftrightarrow> i = ?j"
    using i q'(3) sess_ok_inj [OF ok, of i c ?j] by auto
  with s w' obtain s0 where s0: "w_sessions w c = Some s0"
    "UnackedCount s = UnackedCount s0 - (if ?j = i then 1 else 0)"
    by (auto simp: w_sessions_release split: if_splits)
  note prefetch_okD [OF inv i [unfolded q'(3)] s0(1)]
  from this s0(2) outstanding_removed [OF wf e q'(1), of i] q'(2)
  show "UnackedCount s = outstanding i q' \<and> UnackedCount s \<le> max 0 (ConsumerPrefetch (q_config q'))"
    by auto
qed

lemma in_flight_get:
  assumes "in_flight_as d q"
  obtains e where "mgr_Get (d_AckToken d) (q_inFlight q) = Some e" and "if_ConsumerID e = d_ConsumerID d"
  using assms by (auto simp: in_flight_as_def)

lemma prefetch_taken:
  assumes b: "base w q" and inv: "prefetch_ok w q" and a: "map_of (consumerSessions q) (cs_ID s) = Some a"
    and s: "w_sessions w a = Some s" "UnackedCount s < ConsumerPrefetch (q_config q)"
    and th: "take_head a s m r w q = (d, w', q')"
  shows "prefetch_ok w' q'"
  unfolding prefetch_ok_def
proof (intro allI impI)
  note th = take_head_result [OF th]
  fix i c s'
  assume i: "map_of (consumerSessions q') i = Some c" and s': "w_sessions w' c = Some s'"
  have i: "map_of (consumerSessions q) i = Some c" using i th(2) by simp
  have "c = a \<longleftrightarrow> i = cs_ID s"
    using i a sess_ok_inj [OF base_parts(2) [OF b] a, of i] by auto
  with s' th(6) obtain s0 where s0: "w_sessions w c = Some s0"
    "UnackedCount s' = UnackedCount s0 + (if cs_ID s = i then 1 else 0)"
    by (auto split: if_splits)
  have "cs_ID s = i \<Longrightarrow> s0 = s" using s0(1) s(1) \<open>c = a \<longleftrightarrow> i = cs_ID s\<close> by auto
  moreover have "outstanding i q' = outstanding i q + (if cs_ID s = i then 1 else 0)"
    using token_fresh [OF base_parts(3) [OF b]] th(1,2) by (intro outstanding_added) simp_all
  moreover note prefetch_okD [OF inv i s0(1)]
  ultimately show "UnackedCount s' = outstanding i q' \<and> UnackedCount s' \<le> max 0 (ConsumerPrefetch (q_config q'))"
    using s0(2) s(2) th(2) by auto
qed

lemma prefetch_joined:
  assumes inv: "prefetch_ok w q" and ok: "sess_ok w q" and a: "w_sessions w a = None"
    and new: "newcomer i q"
  shows "prefetch_ok (with_session a i w) q"
    and "prefetch_ok (with_session a i w) (notify (q\<lparr>consumerSessions := gm_put i a (consumerSessions q),
      consumerOrder := consumerOrder q @ [i]\<rparr>))"
proof -
  have other: "c \<noteq> a" if "map_of (consumerSessions q) j = Some c" for j c
    using ok a that unfolding sess_ok_def by fastforce
  show "prefetch_ok (with_session a i w) q"
    by (rule prefetch_quiet [OF inv]) (use other in \<open>auto simp: ran_def\<close>)
  show "prefetch_ok (with_session a i w) (notify (q\<lparr>consumerSessions := gm_put i a (consumerSessions q),
      consumerOrder := consumerOrder q @ [i]\<rparr>))" (is "prefetch_ok ?w ?q")
    unfolding prefetch_ok_def
  proof (intro allI impI)
    fix j c s
    assume j: "map_of (consumerSessions ?q) j = Some c" and s: "w_sessions ?w c = Some s"
    have same: "outstanding j ?q = outstanding j q" by (rule outstanding_cong) simp
    show "UnackedCount s = outstanding j ?q \<and> UnackedCount s \<le> max 0 (ConsumerPrefetch (q_config ?q))"
    proof (cases "j = i")
      case True
      with j s have "UnackedCount s = 0" by (auto simp: NewConsumerSession_def)
      with new True same show ?thesis by (simp add: newcomer_def)
    next
      case False
      with j s other have "map_of (consumerSessions q) j = Some c" "w_sessions w c = Some s" by auto
      from prefetch_okD [OF inv this] same show ?thesis by simp
    qed
  qed
qed

interpretation pre: atomic_invariant prefetch_ok newcomer
proof
  fix w q l w' q'
  assume b: "base w q" and inv: "prefetch_ok w q" and a: "atomic l w q w' q'"
    and new: "\<forall>i. l = Join i \<longrightarrow> newcomer i q"
  note p = base_parts [OF b]
  note quiet = prefetch_quiet [OF inv]
  note removed = prefetch_removed [OF inv p(1,2)]
  show "prefetch_ok w' q'" using a
  proof (cases rule: atomic.cases)
    case (channel c f)
    then show ?thesis by (intro quiet) (auto split: if_splits)
  next
    case (join c i)
    from new join(1) have "newcomer i q" by simp
    from prefetch_joined [OF inv p(2) join(3) this] join(2,5) show ?thesis by auto
  next
    case (leave c m order n as)
    have "\<exists>s0. w_sessions w x = Some s0 \<and> UnackedCount s = UnackedCount s0"
      if "w_sessions w' x = Some s" for x s
      using that leave(2) by (auto simp: close_sessions_closed split: if_splits)
    with leave show ?thesis by (intro quiet) simp_all
  next
    case (failed rec e)
    with w_Append_frame(1) [OF failed(4)] show ?thesis by (intro quiet) auto
  next
    case (put m r)
    with w_Append_frame(1) [OF put(4)] show ?thesis by (intro quiet) auto
  next
    case (drop m w0 ms r)
    with w_Append_frame(1) [OF drop(6)] show ?thesis by (intro quiet) auto
  next
    case (take s c m ms r d)
    from prefetch_taken [OF b inv take(2-4,7)] show ?thesis .
  next
    case (return d r)
    obtain e where "mgr_Get (d_AckToken d) (q_inFlight q) = Some e" "if_ConsumerID e = d_ConsumerID d"
      using return(4) by (rule in_flight_get)
    from removed [OF this(1), of q' w w'] this(2) return show ?thesis by simp
  next
    case (acked t i w1)
    from removed [OF acked(4), of q' w1 w'] acked w_Append_frame(1) [OF acked(5)] show ?thesis
      by (simp add: fun_eq_iff w_sessions_release)
  next
    case (bury d w1)
    obtain e where "mgr_Get (d_AckToken d) (q_inFlight q) = Some e" "if_ConsumerID e = d_ConsumerID d"
      using bury(4) by (rule in_flight_get)
    from removed [OF this(1), of q' w1 w'] this(2) bury w_Append_frame(1) [OF bury(6)] show ?thesis
      by (simp add: fun_eq_iff w_sessions_release settled_def)
  next
    case (requeue d w1 r)
    obtain e where "mgr_Get (d_AckToken d) (q_inFlight q) = Some e" "if_ConsumerID e = d_ConsumerID d"
      using requeue(4) by (rule in_flight_get)
    from removed [OF this(1), of q' w1 w'] this(2) requeue w_Append_frame(1) [OF requeue(6)] show ?thesis
      by (simp add: fun_eq_iff w_sessions_release settled_def)
  next
    case tick
    then show ?thesis by (intro quiet) simp_all
  next
    case (sched n c)
    then show ?thesis by (intro quiet) simp_all
  qed
qed

text \<open>
  C6. Prefetch limit: as long as a consumer subscribes under an identifier that has no
  delivery outstanding, in every reachable state the counter of every subscribed consumer
  equals the number of deliveries in flight for it and does not exceed the configured
  prefetch. (The code does not enforce the condition: see \<open>resubscribing_exceeds_prefetch\<close>.)
\<close>

theorem prefetch_limit_respected:
  assumes "newQueueRuntime cfg a name ms = Some q" and "inj (w_uuids w)"
    and "reaches (admitted newcomer) (started w q) s"
    and "map_of (consumerSessions (qs_queue s)) i = Some c" and "w_sessions (qs_world s) c = Some cs"
  shows "UnackedCount cs = outstanding i (qs_queue s) \<and> outstanding i (qs_queue s) \<le> max 0 (ConsumerPrefetch cfg)"
proof -
  note n = newQueueRuntime_result [OF assms(1)]
  note b = newQueueRuntime_base [OF assms(1,2)]
  have "prefetch_ok w q" using n(7) by (simp add: prefetch_ok_def)
  with pre.reaches_keep [OF assms(3)] b have "prefetch_ok (qs_world s) (qs_queue s)"
    by (simp add: base_sys_def)
  from prefetch_okD [OF this assms(4,5)] started_identity(2) [OF assms(3) b] n(5) show ?thesis by simp
qed

theorem prefetch_limit_respected_witness:
  "\<exists>t c cs. trace (admitted newcomer) [EvSubscribe 0 ''c1'', EvPublish (msg ''a'') 0, EvPublish (msg ''b'') 0,
        EvTop, EvNotified, EvReserve, EvSend, EvReserve] (sample_start (DefaultConfig\<lparr>ConsumerPrefetch := 1\<rparr>)) = Some t
     \<and> map_of (consumerSessions (qs_queue t)) ''c1'' = Some c \<and> w_sessions (qs_world t) c = Some cs
     \<and> UnackedCount cs = 1 \<and> outstanding ''c1'' (qs_queue t) \<le> max 0 1"
proof -
  let ?t = "trace (admitted newcomer) [EvSubscribe 0 ''c1'', EvPublish (msg ''a'') 0, EvPublish (msg ''b'') 0,
        EvTop, EvNotified, EvReserve, EvSend, EvReserve] (sample_start (DefaultConfig\<lparr>ConsumerPrefetch := 1\<rparr>))"
  have "case ?t of None \<Rightarrow> False | Some t \<Rightarrow> map_of (consumerSessions (qs_queue t)) ''c1'' = Some 0 \<and>
      (case w_sessions (qs_world t) 0 of None \<Rightarrow> False | Some cs \<Rightarrow> UnackedCount cs = 1)"
    by code_simp
  then obtain t cs where t: "?t = Some t" "map_of (consumerSessions (qs_queue t)) ''c1'' = Some 0"
    "w_sessions (qs_world t) 0 = Some cs" "UnackedCount cs = 1" by (auto split: option.splits)
  from prefetch_limit_respected [OF sample_runtime sample_uuids sample_reaches [OF t(1)] t(2,3)] t
  show ?thesis by auto
qed

subsection \<open>Where the accounting breaks\<close>

text \<open>
  The limit is not enforced across sessions: with a prefetch of one, a consumer that
  unsubscribes with a delivery outstanding and subscribes again under the same identifier
  gets a second delivery, so two are outstanding for it.
\<close>

theorem resubscribing_exceeds_prefetch:
  "\<exists>t. trace safe [EvSubscribe 0 ''c1'', EvPublish (msg ''a'') 0, EvPublish (msg ''b'') 0, EvTop, EvNotified,
        EvReserve, EvSend, EvReserve, EvUnsubscribe ''c1'', EvSubscribe 1 ''c1'', EvTop, EvNotified, EvReserve]
        (sample_start (DefaultConfig\<lparr>ConsumerPrefetch := 1\<rparr>)) = Some t
     \<and> ConsumerPrefetch (q_config (qs_queue t)) = 1 \<and> outstanding ''c1'' (qs_queue t) = 2"
proof -
  let ?t = "trace safe [EvSubscribe 0 ''c1'', EvPublish (msg ''a'') 0, EvPublish (msg ''b'') 0, EvTop, EvNotified,
        EvReserve, EvSend, EvReserve, EvUnsubscribe ''c1'', EvSubscribe 1 ''c1'', EvTop, EvNotified, EvReserve]
        (sample_start (DefaultConfig\<lparr>ConsumerPrefetch := 1\<rparr>))"
  have "case ?t of None \<Rightarrow> False | Some t \<Rightarrow>
      ConsumerPrefetch (q_config (qs_queue t)) = 1 \<and> outstanding ''c1'' (qs_queue t) = 2" by code_simp
  then show ?thesis by (auto split: option.splits)
qed

text \<open>
  \<open>cancelReservation\<close> pushes without checking for room. With a queue of size one: the
  distributor reserves message a, a publisher fills the free place with b, the consumer
  leaves and the reservation is cancelled. The ring buffer overflows: b, whose publisher
  got a success, is neither queued nor in flight nor dead-lettered nor acknowledged, and
  the buffer's size exceeds its capacity, so the next publisher is not held back either.
\<close>

theorem cancel_loses_a_message:
  "\<exists>t. trace (\<lambda>_ _. True) [EvSubscribe 0 ''c1'', EvPublish (msg ''a'') 0, EvTop, EvNotified, EvReserve,
        EvPublish (msg ''b'') 0, EvUnsubscribe ''c1'', EvCancel]
        (sample_start (DefaultConfig\<lparr>QueueSize := 1\<rparr>)) = Some t
     \<and> producedCount (qs_queue t) = 2 \<and> ackedCount (qs_queue t) = 0 \<and> dlq_messages (q_dlq (qs_queue t)) = []
     \<and> deliveries (q_inFlight (qs_queue t)) = [] \<and> map ID (rb_items (q_queue (qs_queue t))) = [''a'']
     \<and> rb_Size (q_queue (qs_queue t)) = 2 \<and> rb_Capacity (q_queue (qs_queue t)) = 1"
proof -
  let ?t = "trace (\<lambda>_ _. True) [EvSubscribe 0 ''c1'', EvPublish (msg ''a'') 0, EvTop, EvNotified, EvReserve,
        EvPublish (msg ''b'') 0, EvUnsubscribe ''c1'', EvCancel] (sample_start (DefaultConfig\<lparr>QueueSize := 1\<rparr>))"
  have "case ?t of None \<Rightarrow> False | Some t \<Rightarrow>
      producedCount (qs_queue t) = 2 \<and> ackedCount (qs_queue t) = 0 \<and> dlq_messages (q_dlq (qs_queue t)) = []
     \<and> deliveries (q_inFlight (qs_queue t)) = [] \<and> map ID (rb_items (q_queue (qs_queue t))) = [''a'']
     \<and> rb_Size (q_queue (qs_queue t)) = 2 \<and> rb_Capacity (q_queue (qs_queue t)) = 1" by code_simp
  then show ?thesis by (auto split: option.splits)
qed

text \<open>
  \<open>cancelReservation\<close> pushes the message even when the token is no longer in flight:
  if the redelivery worker times the reservation out first, the message is queued twice.
\<close>

theorem cancel_duplicates_a_message:
  "\<exists>t. trace (\<lambda>_ _. True) [EvSubscribe 0 ''c1'', EvPublish (msg ''a'') 0, EvTop, EvNotified, EvReserve,
        EvUnsubscribe ''c1'', EvRedeliver False [''u''], EvCancel]
        (sample_start (DefaultConfig\<lparr>AckTimeout := 0\<rparr>)) = Some t
     \<and> producedCount (qs_queue t) = 1 \<and> map ID (rb_list (q_queue (qs_queue t))) = [''a'', ''a'']"
proof -
  let ?t = "trace (\<lambda>_ _. True) [EvSubscribe 0 ''c1'', EvPublish (msg ''a'') 0, EvTop, EvNotified, EvReserve,
        EvUnsubscribe ''c1'', EvRedeliver False [''u''], EvCancel] (sample_start (DefaultConfig\<lparr>AckTimeout := 0\<rparr>))"
  have "case ?t of None \<Rightarrow> False | Some t \<Rightarrow>
      producedCount (qs_queue t) = 1 \<and> map ID (rb_list (q_queue (qs_queue t))) = [''a'', ''a'']" by code_simp
  then show ?thesis by (auto split: option.splits)
qed

subsection \<open>Nothing is dead-lettered without a cause\<close>

definition expired_by :: "clock \<Rightarrow> message \<Rightarrow> bool" where
  "expired_by c m \<longleftrightarrow> (\<exists>t k. ExpiryAt m = Some t \<and> k < ticks c \<and> t \<le> readings c k)"

definition causes :: "world \<Rightarrow> queue_runtime \<Rightarrow> bool" where
  "causes w q \<longleftrightarrow> (\<forall>m \<in> set (dlq_messages (q_dlq q)).
     expired_by (w_clock w) m \<or> MaxRetries (q_config q) \<le> Retry m)"

lemma expired_by_mono:
  "expired_by c m \<Longrightarrow> readings c' = readings c \<Longrightarrow> ticks c \<le> ticks c' \<Longrightarrow> expired_by c' m"
  unfolding expired_by_def by (metis order_less_le_trans)

lemma isExpired_by: "isExpired m w0 = (True, w) \<Longrightarrow> expired_by (w_clock w) m"
  by (auto simp: isExpired_def expired_by_def w_Now_eq split: option.splits)

interpretation cau: atomic_invariant causes "\<lambda>_ _. True"
proof
  fix w q l w' q'
  assume inv: "causes w q" and a: "atomic l w q w' q'"
  note clk = atomic_clock [OF a]
  have quiet: "causes w' q'" if "q_dlq q' = q_dlq q" "q_config q' = q_config q"
    using inv that clk expired_by_mono [of "w_clock w" _ "w_clock w'"] unfolding causes_def by metis
  have more: "causes w' q'" if "q_dlq q' = dlq_Push m (q_dlq q)" "q_config q' = q_config q"
    "expired_by (w_clock w) m \<or> MaxRetries (q_config q) \<le> Retry m" for m
    using inv that clk expired_by_mono [of "w_clock w" _ "w_clock w'"]
    by (auto simp: causes_def dl.push_appends)
  show "causes w' q'" using a
  proof (cases rule: atomic.cases)
    case (drop m w0 ms r)
    with isExpired_by [OF drop(3)] show ?thesis by (intro more [of m]) simp_all
  next
    case (bury d w1)
    then show ?thesis by (intro more [of "d_Message d"]) simp_all
  next
    case (take s c m ms r d)
    with take_head_result(2) [OF take(7)] show ?thesis by (intro quiet) simp_all
  next
    case (join c i)
    then show ?thesis by (intro quiet) auto
  qed (intro quiet; simp)+
qed

text \<open>
  C11. Nothing is dead-lettered without a cause: in every reachable state, every message in
  the dead-letter queue has been redelivered the configured number of times, or its expiry
  lies at or before a time the clock has already shown.
\<close>

theorem dead_letters_have_a_cause:
  assumes "newQueueRuntime cfg a name ms = Some q" and "inj (w_uuids w)"
    and "reaches safe (started w q) s" and "m \<in> set (dlq_messages (q_dlq (qs_queue s)))"
  shows "MaxRetries cfg \<le> Retry m
    \<or> (\<exists>t k. ExpiryAt m = Some t \<and> k < ticks (w_clock (qs_world s)) \<and> t \<le> readings (w_clock (qs_world s)) k)"
proof -
  note n = newQueueRuntime_result [OF assms(1)]
  note b = newQueueRuntime_base [OF assms(1,2)]
  have "causes w q" using n(6) by (simp add: causes_def NewDLQ_def)
  with cau.reaches_keep [unfolded admitted_all, OF assms(3)] b have "causes (qs_world s) (qs_queue s)"
    by (simp add: base_sys_def)
  with assms(4) started_identity(2) [of "\<lambda>_ _. True", unfolded admitted_all, OF assms(3) b] n(5)
  show ?thesis by (auto simp: causes_def expired_by_def)
qed

theorem dead_letters_have_a_cause_witness:
  "\<exists>t m. trace safe [EvPublish (msg ''a'') 1, EvPublish (msg ''b'') 0, EvExpire False]
        (sample_start DefaultConfig) = Some t
     \<and> dlq_messages (q_dlq (qs_queue t)) = [m] \<and> ExpiryAt m = Some 1 \<and> Retry m < MaxRetries DefaultConfig
     \<and> (\<exists>k < ticks (w_clock (qs_world t)). 1 \<le> readings (w_clock (qs_world t)) k)"
proof -
  let ?t = "trace safe [EvPublish (msg ''a'') 1, EvPublish (msg ''b'') 0, EvExpire False]
        (sample_start DefaultConfig)"
  have "case ?t of None \<Rightarrow> False | Some t \<Rightarrow> (case dlq_messages (q_dlq (qs_queue t)) of
      [m] \<Rightarrow> ExpiryAt m = Some 1 \<and> Retry m < MaxRetries DefaultConfig | _ \<Rightarrow> False)" by code_simp
  then obtain t m where t: "?t = Some t" "dlq_messages (q_dlq (qs_queue t)) = [m]" "ExpiryAt m = Some 1"
    "Retry m < MaxRetries DefaultConfig" by (auto split: option.splits list.splits)
  from dead_letters_have_a_cause [OF sample_runtime sample_uuids sample_reaches [OF t(1)], of m] t
  show ?thesis by auto
qed

end
