(* ===== verification/Queue_Order.thy ===== *)
theory Queue_Order
  imports Queue_Delivery
begin

text \<open>
  Order and progress of a queue: which message a reservation takes and for whom, fairness of
  the round-robin search, that an acknowledgement settles a message exactly once, and that
  the distributor is never left asleep while it has something to do.
\<close>

subsection \<open>Reservation takes the oldest live message\<close>

lemma deadLetter_prefix:
  assumes "qr_wf q" and "deadLetterExpiredMessages w q = Some (e, w', q')"
  shows "\<exists>dead. rb_list (q_queue q) = dead @ rb_list (q_queue q')
    \<and> dlq_messages (q_dlq q') = dlq_messages (q_dlq q) @ dead \<and> (\<forall>m \<in> set dead. expired_by (w_clock w') m)"
proof -
  let ?P = "\<lambda>(w' :: world) (q' :: queue_runtime). \<exists>dead. rb_list (q_queue q) = dead @ rb_list (q_queue q')
    \<and> dlq_messages (q_dlq q') = dlq_messages (q_dlq q) @ dead \<and> (\<forall>m \<in> set dead. expired_by (w_clock w') m)"
  have "?P w' q' \<and> qr_wf q'"
  proof (rule deadLetter_rule [where P = ?P, OF assms])
    fix w1 q1 and m :: message
    assume "?P w1 q1"
    moreover obtain b w2 where "isExpired m w1 = (b, w2)" by (cases "isExpired m w1")
    moreover note isExpired_world(6,7) [OF this]
    ultimately show "?P (snd (isExpired m w1)) q1" using expired_by_mono by fastforce
  next
    fix w1 w2 q1 m e
    assume "?P w1 q1" "w_Append (dead_record q1 m) w1 = (Some e, w2)"
    with w_Append_frame(2) [OF this(2)] show "?P w2 q1" by simp
  next
    fix w0 w1 w2 q1 m r
    assume "?P w1 q1" and x: "isExpired m w0 = (True, w1)" "rb_list (q_queue q1) = m # rb_list r"
      "w_Append (dead_record q1 m) w1 = (None, w2)"
    then obtain dead where "rb_list (q_queue q) = (dead @ [m]) @ rb_list r"
      "dlq_messages (q_dlq q1) = dlq_messages (q_dlq q) @ dead" "\<forall>m \<in> set dead. expired_by (w_clock w1) m" by auto
    with isExpired_by [OF x(1)] w_Append_frame(2) [OF x(3)] show "?P w2 (drop_head r m q1)"
      by (intro exI [of _ "dead @ [m]"]) (simp add: dl.push_appends)
  qed simp
  then show ?thesis by simp
qed

lemma not_expired_head:
  assumes "isExpired m w0 = (False, w)" and "ExpiryAt m = Some t"
  shows "\<exists>k. ticks (w_clock w) = Suc k \<and> readings (w_clock w) k < t"
  using assms by (auto simp: isExpired_def w_Now_eq)

text \<open>
  C5. First in, first out, and never late: a reservation takes the first message of the
  queue that has not expired. All messages before it have expired and go to the dead-letter
  queue in their order; the rest of the queue keeps its order; the reserved message had not
  expired at the clock reading just before it was stamped as delivered. It goes, under a
  fresh token, to a subscribed, open consumer below the prefetch limit.
\<close>

theorem reserve_takes_oldest_live_message:
  assumes "base w q" and "qr_reserveDelivery w q = Some (Some (a, d), w', q')"
  shows "\<exists>dead. rb_list (q_queue q) = dead @ d_Message d # rb_list (q_queue q')
    \<and> dlq_messages (q_dlq q') = dlq_messages (q_dlq q) @ dead
    \<and> (\<forall>m \<in> set dead. expired_by (w_clock w') m)
    \<and> (\<forall>t. ExpiryAt (d_Message d) = Some t \<longrightarrow>
        (\<exists>k. ticks (w_clock w') = Suc (Suc k) \<and> readings (w_clock w') k < t))
    \<and> mgr_Get (d_AckToken d) (q_inFlight q) = None \<and> in_flight_as d q'
    \<and> (\<exists>s. map_of (consumerSessions q) (d_ConsumerID d) = Some a \<and> w_sessions w a = Some s
        \<and> \<not> Closed s \<and> UnackedCount s < ConsumerPrefetch (q_config q))"
  using base_parts(1,2) [OF assms(1)] assms(2)
proof (cases rule: qr_reserveDelivery_cases)
  case (reserved b s m r w1 q1 n d')
  note th = take_head_result [OF reserved(13)] and clk = take_head_clock [OF reserved(13)]
  have d: "d' = d" "b = a" "d_Message d = m" "d_ConsumerID d = cs_ID s" using reserved(1) th(1) by auto
  have q': "rb_list (q_queue q') = rb_list r" "q_dlq q' = q_dlq q1" using th(2) by simp_all
  obtain dead where dead: "rb_list (q_queue q) = dead @ rb_list (q_queue q1)"
    "dlq_messages (q_dlq q1) = dlq_messages (q_dlq q) @ dead" "\<forall>m \<in> set dead. expired_by (w_clock w1) m"
    using deadLetter_prefix [OF base_parts(1) [OF assms(1)] reserved(2)] by blast
  have late: "\<forall>m \<in> set dead. expired_by (w_clock w') m"
    using dead(3) clk expired_by_mono [of "w_clock w1" _ "w_clock w'"] by simp
  from deadLetter_head [OF base_parts(1) [OF assms(1)] reserved(2)] reserved(9)
  obtain w0 where "isExpired m w0 = (False, w1)" by auto
  with clk d not_expired_head [of m w0 w1] have live: "\<forall>t. ExpiryAt (d_Message d) = Some t \<longrightarrow>
        (\<exists>k. ticks (w_clock w') = Suc (Suc k) \<and> readings (w_clock w') k < t)" by fastforce
  have st: "steps (\<lambda>_ _. True) w q w1 q1" by (rule steps_deadLetter [OF assms(1) reserved(2)])
  have frame: "consumerSessions q1 = consumerSessions q \<and> q_config q1 = q_config q
      \<and> q_inFlight q1 = q_inFlight q \<and> w_sessions w1 = w_sessions w"
    by (rule deadLetter_frame [OF base_parts(1) [OF assms(1)] reserved(2)])
  have fresh: "mgr_Get (d_AckToken d) (q_inFlight q) = None"
    using token_fresh [OF base_parts(3) [OF steps_base [OF st assms(1)]]] th(1) d(1) frame by simp
  have "in_flight_as d q'"
    using th(2) d ifm.get_added [of "d_AckToken d'" m "cs_ID s" "w_clock w1" "q_inFlight q1"]
    by (simp add: in_flight_as_def)
  with dead q' late live fresh reserved(9) d reserved(4-7) frame show ?thesis
    by (intro exI [of _ dead]) auto
qed simp

lemma sample_base: "trace safe evs (sample_start cfg) = Some t \<Longrightarrow> base (qs_world t) (qs_queue t)"
  using bas.reaches_keep [unfolded admitted_all, OF sample_reaches, of evs cfg t]
    newQueueRuntime_base [OF sample_runtime sample_uuids] by (simp add: base_sys_def)

theorem reserve_takes_oldest_live_message_witness:
  "\<exists>t a d w' q'. trace safe [EvSubscribe 0 ''c1'', EvPublish (msg ''a'') 1, EvPublish (msg ''b'') 0]
        (sample_start DefaultConfig) = Some t
     \<and> qr_reserveDelivery (qs_world t) (qs_queue t) = Some (Some (a, d), w', q') \<and> ID (d_Message d) = ''b''
     \<and> (\<exists>dead. rb_list (q_queue (qs_queue t)) = dead @ d_Message d # rb_list (q_queue q')
         \<and> dlq_messages (q_dlq q') = dlq_messages (q_dlq (qs_queue t)) @ dead)"
proof -
  let ?t = "trace safe [EvSubscribe 0 ''c1'', EvPublish (msg ''a'') 1, EvPublish (msg ''b'') 0]
        (sample_start DefaultConfig)"
  have "case ?t of None \<Rightarrow> False | Some t \<Rightarrow> (case qr_reserveDelivery (qs_world t) (qs_queue t) of
      Some (Some (a, d), w', q') \<Rightarrow> ID (d_Message d) = ''b'' | _ \<Rightarrow> False)" by code_simp
  then obtain t a d w' q' where t: "?t = Some t" "ID (d_Message d) = ''b''"
    "qr_reserveDelivery (qs_world t) (qs_queue t) = Some (Some (a, d), w', q')"
    by (auto split: option.splits prod.splits)
  from reserve_takes_oldest_live_message [OF sample_base [OF t(1)] t(3)] t show ?thesis by blast
qed

subsection \<open>Round robin\<close>

lemma find_upt_Some: "find P [0..<n] = Some l \<longleftrightarrow> l < n \<and> P l \<and> (\<forall>k < l. \<not> P k)"
  by (auto simp: find_Some_iff)

lemma find_upt_None: "find P [0..<n] = None \<longleftrightarrow> \<not> (\<exists>j < n. P j)"
  by (auto simp: find_None_iff)

lemma turns_cover:
  "(\<exists>j < length (consumerOrder q). P (turn q start j)) \<longleftrightarrow> (\<exists>i \<in> set (consumerOrder q). P i)"
proof
  assume "\<exists>i \<in> set (consumerOrder q). P i"
  then obtain i where i: "i \<in> set (rotate start (consumerOrder q))" "P i" by auto
  from i(1) obtain j where "j < length (rotate start (consumerOrder q))"
    "rotate start (consumerOrder q) ! j = i"
    unfolding in_set_conv_nth by blast
  with i(2) show "\<exists>j < length (consumerOrder q). P (turn q start j)" by (auto simp: turn_def nth_rotate)
next
  assume "\<exists>j < length (consumerOrder q). P (turn q start j)"
  then show "\<exists>i \<in> set (consumerOrder q). P i"
    unfolding turn_def by (metis gr_implies_not0 gr0I mod_less_divisor nth_mem)
qed

lemma none_eligible:
  "find (\<lambda>j. eligible w q (turn q start j)) [0..<length (consumerOrder q)] = None \<Longrightarrow>
   \<forall>i \<in> set (consumerOrder q). \<not> eligible w q i"
  unfolding find_upt_None using turns_cover by blast

lemma nextSession_None:
  assumes "qr_wf q" and "sess_ok w q" and "nextSession w q = Some (None, q')"
  shows "q' = q" and "\<forall>i \<in> set (consumerOrder q). \<not> eligible w q i"
proof -
  let ?f = "find (\<lambda>j. eligible w q (turn q (nextConsumer q) j)) [0..<length (consumerOrder q)]"
  have none: "?f = None"
  proof (cases ?f)
    case (Some l)
    then have "eligible w q (turn q (nextConsumer q) l)" unfolding find_upt_Some by blast
    then have "map_of (consumerSessions q) (turn q (nextConsumer q) l) \<noteq> None"
      by (simp add: eligible_def split: option.splits)
    with assms(3) Some nextSession_spec [OF assms(1,2)] show ?thesis by simp
  qed simp
  with assms(3) nextSession_spec [OF assms(1,2)] show "q' = q" by simp
  show "\<forall>i \<in> set (consumerOrder q). \<not> eligible w q i" by (rule none_eligible [OF none])
qed

text \<open>
  C13. Round robin: \<open>nextSession\<close> returns no consumer exactly when none is below the prefetch
  limit. Otherwise it returns the first such consumer in the subscription order, counted
  cyclically from where the last search stopped, and the next search starts right after it.
\<close>

theorem nextSession_round_robin:
  assumes "base w q"
  shows "\<exists>r q'. nextSession w q = Some (r, q')
    \<and> (r = None \<longleftrightarrow> (\<forall>i \<in> set (consumerOrder q). \<not> eligible w q i))
    \<and> (\<forall>a. r = Some a \<longrightarrow> (\<exists>j < length (consumerOrder q).
        map_of (consumerSessions q) (turn q (nextConsumer q) j) = Some a
        \<and> eligible w q (turn q (nextConsumer q) j)
        \<and> (\<forall>k < j. \<not> eligible w q (turn q (nextConsumer q) k))
        \<and> q' = q\<lparr>nextConsumer := (nextConsumer q + j + 1) mod length (consumerOrder q)\<rparr>))"
proof -
  note p = base_parts [OF assms]
  let ?n = "length (consumerOrder q)" and ?P = "\<lambda>j. eligible w q (turn q (nextConsumer q) j)"
  have all: "(\<exists>j < ?n. ?P j) \<longleftrightarrow> (\<exists>i \<in> set (consumerOrder q). eligible w q i)"
    by (rule turns_cover)
  show ?thesis
  proof (cases "find ?P [0..<?n]")
    case None
    then have "\<not> (\<exists>j < ?n. ?P j)" by (simp only: find_upt_None not_False_eq_True)
    with None all nextSession_spec [OF p(1,2)] show ?thesis by auto
  next
    case (Some l)
    then have l: "l < ?n" "?P l" "\<forall>k < l. \<not> ?P k" unfolding find_upt_Some by blast+
    then obtain a where a: "map_of (consumerSessions q) (turn q (nextConsumer q) l) = Some a"
      by (auto simp: eligible_def split: option.splits)
    with nextSession_spec [OF p(1,2)] Some have ns: "nextSession w q = Some (Some a,
        q\<lparr>nextConsumer := (nextConsumer q + l + 1) mod ?n\<rparr>)" by simp
    have "\<exists>i \<in> set (consumerOrder q). eligible w q i" using all l(1,2) by blast
    with ns a l show ?thesis by auto
  qed
qed

theorem nextSession_round_robin_witness:
  "\<exists>t r q'. trace safe [EvSubscribe 0 ''c1'', EvSubscribe 1 ''c2''] (sample_start DefaultConfig) = Some t
     \<and> nextSession (qs_world t) (qs_queue t) = Some (r, q')
     \<and> (r = None \<longleftrightarrow> (\<forall>i \<in> set (consumerOrder (qs_queue t)). \<not> eligible (qs_world t) (qs_queue t) i))
     \<and> r = Some 0"
proof -
  let ?t = "trace safe [EvSubscribe 0 ''c1'', EvSubscribe 1 ''c2''] (sample_start DefaultConfig)"
  have "case ?t of None \<Rightarrow> False | Some t \<Rightarrow> map_option fst (nextSession (qs_world t) (qs_queue t)) = Some (Some 0)"
    by code_simp
  then obtain t where t: "?t = Some t" "map_option fst (nextSession (qs_world t) (qs_queue t)) = Some (Some 0)"
    by (auto split: option.splits)
  from nextSession_round_robin [OF sample_base [OF t(1)]] t show ?thesis by fastforce
qed

text \<open>\<open>serve k\<close>: the consumers that \<open>k\<close> searches in a row return.\<close>

fun serve :: "nat \<Rightarrow> world \<Rightarrow> queue_runtime \<Rightarrow> (nat list \<times> queue_runtime) option" where
  "serve 0 w q = Some ([], q)"
| "serve (Suc k) w q =
     (case nextSession w q of
        Some (Some a, q1) \<Rightarrow> map_option (\<lambda>(as, q2). (a # as, q2)) (serve k w q1)
      | _ \<Rightarrow> None)"

lemma serve_turns:
  assumes "qr_wf q" and "sess_ok w q" and "\<forall>i \<in> set (consumerOrder q). eligible w q i"
    and "consumerOrder q \<noteq> []"
  shows "serve k w q = Some (map (\<lambda>j. the (map_of (consumerSessions q) (turn q (nextConsumer q) j))) [0..<k],
    q\<lparr>nextConsumer := (nextConsumer q + k) mod length (consumerOrder q)\<rparr>)"
  using assms
proof (induction k arbitrary: q)
  case 0
  then show ?case by (simp add: qr_wf_def)
next
  case (Suc k)
  let ?n = "length (consumerOrder q)"
  let ?q = "q\<lparr>nextConsumer := (nextConsumer q + 1) mod ?n\<rparr>"
  have n: "0 < ?n" using Suc.prems(4) by simp
  have el: "eligible w q (turn q (nextConsumer q) j)" for j
    using Suc.prems(3) n by (simp add: turn_def)
  then obtain a where a: "map_of (consumerSessions q) (turn q (nextConsumer q) 0) = Some a"
    by (metis (no_types, lifting) eligible_def not_None_eq option.case(1))
  have "find (\<lambda>j. eligible w q (turn q (nextConsumer q) j)) [0..<?n] = Some 0"
    using n el by (simp add: upt_conv_Cons)
  with nextSession_spec [OF Suc.prems(1,2)] a have ns: "nextSession w q = Some (Some a, ?q)" by simp
  note nc = nextSession_cases [OF Suc.prems(1,2) ns]
  have same: "eligible w ?q = eligible w q" "turn ?q (nextConsumer ?q) j = turn q (nextConsumer q) (Suc j)" for j
    by (auto simp: eligible_def turn_def fun_eq_iff mod_add_left_eq split: option.splits)
  have "serve k w ?q = Some (map (\<lambda>j. the (map_of (consumerSessions q) (turn q (nextConsumer q) (Suc j)))) [0..<k],
      ?q\<lparr>nextConsumer := (nextConsumer ?q + k) mod ?n\<rparr>)"
    using Suc.IH [OF nc(2,3)] Suc.prems(3,4) same by simp
  moreover have "[0..<Suc k] = 0 # map Suc [0..<k]" by (simp add: map_Suc_upt upt_conv_Cons)
  ultimately show ?case using ns a by (simp add: comp_def mod_add_left_eq)
qed

text \<open>
  C14. Fairness: while every one of the n subscribed consumers stays below the prefetch
  limit, n searches in a row return each of them once, in subscription order starting with
  the one whose turn it is.
\<close>

theorem round_robin_is_fair:
  assumes "base w q" and "\<forall>i \<in> set (consumerOrder q). eligible w q i" and "consumerOrder q \<noteq> []"
  shows "serve (length (consumerOrder q)) w q = Some
    (map (\<lambda>i. the (map_of (consumerSessions q) i)) (rotate (nextConsumer q) (consumerOrder q)), q)"
proof -
  note p = base_parts [OF assms(1)]
  have "nextConsumer q < length (consumerOrder q)" using p(1) assms(3) by (simp add: qr_wf_def)
  moreover have "map (\<lambda>j. the (map_of (consumerSessions q) (turn q (nextConsumer q) j))) [0..<length (consumerOrder q)]
      = map (\<lambda>i. the (map_of (consumerSessions q) i)) (rotate (nextConsumer q) (consumerOrder q))"
    by (rule nth_equalityI) (simp_all add: turn_def nth_rotate)
  ultimately show ?thesis
    using serve_turns [OF p(1,2) assms(2,3), of "length (consumerOrder q)"] by simp
qed

theorem round_robin_is_fair_witness:
  "\<exists>t q'. trace safe [EvSubscribe 0 ''c1'', EvSubscribe 1 ''c2'', EvSubscribe 2 ''c3''] (sample_start DefaultConfig)
       = Some t \<and> serve (length (consumerOrder (qs_queue t))) (qs_world t) (qs_queue t) = Some ([0, 1, 2], q')"
proof -
  let ?t = "trace safe [EvSubscribe 0 ''c1'', EvSubscribe 1 ''c2'', EvSubscribe 2 ''c3''] (sample_start DefaultConfig)"
  have "case ?t of None \<Rightarrow> False | Some t \<Rightarrow> consumerOrder (qs_queue t) = [''c1'', ''c2'', ''c3'']
      \<and> nextConsumer (qs_queue t) = 0 \<and> map (eligible (qs_world t) (qs_queue t)) [''c1'', ''c2'', ''c3''] = [True, True, True]
      \<and> map (map_of (consumerSessions (qs_queue t))) [''c1'', ''c2'', ''c3''] = [Some 0, Some 1, Some 2]"
    by code_simp
  then obtain t where t: "?t = Some t" "consumerOrder (qs_queue t) = [''c1'', ''c2'', ''c3'']"
    "nextConsumer (qs_queue t) = 0"
    "map (eligible (qs_world t) (qs_queue t)) [''c1'', ''c2'', ''c3''] = [True, True, True]"
    "map (map_of (consumerSessions (qs_queue t))) [''c1'', ''c2'', ''c3''] = [Some 0, Some 1, Some 2]"
    by (auto split: option.splits)
  from round_robin_is_fair [OF sample_base [OF t(1)]] t(2-5) t(1) show ?thesis by simp
qed

subsection \<open>Acknowledging\<close>

text \<open>
  C9. An acknowledgement settles a message once. With a token in flight and a log that
  takes the record, \<open>Ack\<close> succeeds: exactly that message leaves the in-flight map, the queue
  and the dead letters stay as they are, the counter goes up by one, and every later \<open>Ack\<close>
  with the same token is refused. With an unknown token or a failing log the queue does not
  change at all.
\<close>

theorem ack_settles_once:
  assumes "base w q" and "qr_Ack t w q = (out, w', q')"
  shows "(out = None \<longleftrightarrow> (\<exists>e. mgr_Get t (q_inFlight q) = Some e
          \<and> fst (w_Append (ack_record q (if_Message e)) w) = None))
    \<and> (out \<noteq> None \<longrightarrow> q' = q)
    \<and> (mgr_Get t (q_inFlight q) = None \<longrightarrow> out = Some ErrInvalidAckToken \<and> w' = w)
    \<and> (out = None \<longrightarrow>
        (\<forall>t'. mgr_Get t' (q_inFlight q') = (if t' = t then None else mgr_Get t' (q_inFlight q)))
        \<and> q_queue q' = q_queue q \<and> q_dlq q' = q_dlq q \<and> ackedCount q' = ackedCount q + 1
        \<and> (\<forall>w2. qr_Ack t w2 q' = (Some ErrInvalidAckToken, w2, q')))"
  using assms(2)
proof (cases rule: qr_Ack_cases)
  case (acked i w1)
  have get: "mgr_Get t' (q_inFlight q') = (if t' = t then None else mgr_Get t' (q_inFlight q))" for t'
    using acked(5) ifm.get_remove [OF qr_wf_parts(2) [OF base_parts(1) [OF assms(1)]], of t' t] by simp
  then have "qr_Ack t w2 q' = (Some ErrInvalidAckToken, w2, q')" for w2 by (simp add: qr_Ack_def)
  with acked get show ?thesis by simp
qed simp_all

theorem ack_settles_once_witness:
  "\<exists>t w' q'. trace safe [EvSubscribe 0 ''c1'', EvPublish (msg ''a'') 0, EvTop, EvNotified, EvReserve]
        (sample_start DefaultConfig) = Some t
     \<and> qr_Ack ''u'' (qs_world t) (qs_queue t) = (None, w', q')
     \<and> mgr_Get ''u'' (q_inFlight q') = None \<and> ackedCount q' = ackedCount (qs_queue t) + 1
     \<and> qr_Ack ''u'' w' q' = (Some ErrInvalidAckToken, w', q')"
proof -
  let ?t = "trace safe [EvSubscribe 0 ''c1'', EvPublish (msg ''a'') 0, EvTop, EvNotified, EvReserve]
        (sample_start DefaultConfig)"
  have "case ?t of None \<Rightarrow> False | Some t \<Rightarrow> fst (qr_Ack ''u'' (qs_world t) (qs_queue t)) = None" by code_simp
  then obtain t where t: "?t = Some t" "fst (qr_Ack ''u'' (qs_world t) (qs_queue t)) = None"
    by (auto split: option.splits)
  then obtain w' q' where a: "qr_Ack ''u'' (qs_world t) (qs_queue t) = (None, w', q')"
    by (cases "qr_Ack ''u'' (qs_world t) (qs_queue t)") auto
  from ack_settles_once [OF sample_base [OF t(1)] a] a t(1) show ?thesis by auto
qed

end
