(* ===== verification/Queue_Progress.thy ===== *)
theory Queue_Progress
  imports Queue_Order
begin

text \<open>
  No lost wake-up. The distributor sleeps on the one-place channel \<open>notifyDistributor\<close>. \<open>awake\<close>
  says that, while it is between two passes, either the channel is full, or the queue is
  empty, or no consumer can take a message. Every event keeps it, apart from two that the
  code does not follow up with a notification: the redelivery worker burying a message
  (which frees a place of its consumer), and a pass that ends because the log failed.
\<close>

definition idle :: "world \<Rightarrow> queue_runtime \<Rightarrow> bool" where
  "idle w q \<longleftrightarrow> rb_list (q_queue q) = [] \<or> (\<forall>i \<in> set (consumerOrder q). \<not> eligible w q i)"

definition settledown :: "world \<Rightarrow> queue_runtime \<Rightarrow> bool" where
  "settledown w q \<longleftrightarrow> notifyDistributor q \<or> idle w q"

definition awake :: "queue_system \<Rightarrow> bool" where
  "awake s \<longleftrightarrow> (qs_dist s = D_Top \<or> qs_dist s = D_Select \<longrightarrow> settledown (qs_world s) (qs_queue s))"

fun heeded :: "event \<Rightarrow> queue_system \<Rightarrow> bool" where
  "heeded EvReserve s \<longleftrightarrow>
     (case deadLetterExpiredMessages (qs_world s) (qs_queue s) of Some (Some e, _) \<Rightarrow> False | _ \<Rightarrow> True)"
| "heeded (EvRedeliver closed order) s \<longleftrightarrow>
     list_all (\<lambda>p. Retry (if_Message (snd p)) < MaxRetries (q_config (qs_queue s)))
       (deliveries (q_inFlight (qs_queue s)))"
| "heeded _ s \<longleftrightarrow> True"

subsection \<open>Steps that wake nobody\<close>

text \<open>\<open>quieter\<close>: whoever can take a message after the step could before.\<close>

definition quieter :: "world \<Rightarrow> queue_runtime \<Rightarrow> world \<Rightarrow> queue_runtime \<Rightarrow> bool" where
  "quieter w q w' q' \<longleftrightarrow> (notifyDistributor q \<longrightarrow> notifyDistributor q')
     \<and> (rb_list (q_queue q) = [] \<longrightarrow> rb_list (q_queue q') = [])
     \<and> (\<forall>i \<in> set (consumerOrder q'). eligible w' q' i \<longrightarrow> i \<in> set (consumerOrder q) \<and> eligible w q i)"

lemma settledown_quieter: "settledown w q \<Longrightarrow> quieter w q w' q' \<Longrightarrow> settledown w' q'"
  unfolding settledown_def idle_def quieter_def by blast

lemma settledown_notify [simp]: "settledown w (notify q)"
  by (simp add: settledown_def)

lemma eligible_cong:
  assumes "map_of (consumerSessions q') i = map_of (consumerSessions q) i" and "q_config q' = q_config q"
    and "\<And>a. map_of (consumerSessions q) i = Some a \<Longrightarrow>
      map_option UnackedCount (w_sessions w' a) = map_option UnackedCount (w_sessions w a)"
  shows "eligible w' q' i = eligible w q i"
proof (cases "map_of (consumerSessions q) i")
  case None
  with assms(1) show ?thesis by (simp add: eligible_def)
next
  case (Some a)
  with assms(3) [OF Some] assms(1,2) show ?thesis
    by (cases "w_sessions w a"; cases "w_sessions w' a") (simp_all add: eligible_def IsEligible_def)
qed

lemma quieter_same:
  assumes "w_sessions w' = w_sessions w" and "consumerSessions q' = consumerSessions q"
    and "consumerOrder q' = consumerOrder q" and "q_config q' = q_config q"
    and "notifyDistributor q \<longrightarrow> notifyDistributor q'" and "rb_list (q_queue q) = [] \<longrightarrow> rb_list (q_queue q') = []"
  shows "quieter w q w' q'"
  using assms eligible_cong [of q' _ q w' w] by (simp add: quieter_def)

lemma settledown_same:
  "settledown w q \<Longrightarrow> w_sessions w' = w_sessions w \<Longrightarrow> settledown w' q"
  by (erule settledown_quieter) (simp add: quieter_same)

lemma settledown_Publish:
  assumes "qr_wf q" and "settledown w q" and "qr_Publish m ttl w q = Some (out, w', q')"
  shows "settledown w' q'"
  using assms(1,3)
proof (cases rule: qr_Publish_cases)
  case (log_failed e m' w1)
  with stamp_world(1) [OF log_failed(4)] w_Append_frame(1) [OF log_failed(5)] settledown_same [OF assms(2)]
  show ?thesis by simp
qed (use assms(2) in simp_all)

lemma settledown_Ack:
  assumes "settledown w q" and "qr_Ack t w q = (out, w', q')"
  shows "settledown w' q'"
  using assms(2)
proof (cases rule: qr_Ack_cases)
  case (log_failed e i)
  with w_Append_frame(1) [OF log_failed(4)] settledown_same [OF assms(1)] show ?thesis by simp
qed (use assms(1) in simp_all)

lemma settledown_Subscribe:
  assumes "sess_ok w q" and "settledown w q" and "w_sessions w a = None"
    and "qr_Subscribe a (with_session a i w) q = Some (e, q')"
  shows "settledown (with_session a i w) q'"
proof -
  have "settledown (with_session a i w) q"
  proof (rule settledown_quieter [OF assms(2)])
    have "w_sessions (with_session a i w) c = w_sessions w c" if "map_of (consumerSessions q) j = Some c" for j c
      using that assms(1,3) unfolding sess_ok_def by fastforce
    then show "quieter w q (with_session a i w) q"
      using eligible_cong [of q _ q "with_session a i w" w] by (simp add: quieter_def)
  qed
  with assms(4) show ?thesis by (auto simp: qr_Subscribe_def split: if_splits option.splits)
qed

lemma settledown_leaving:
  assumes "qr_wf q" and "sess_ok w q" and "settledown w q"
  shows "qr_Unsubscribe i w q = (w', q') \<Longrightarrow> settledown w' q'"
    and "qr_Shutdown w q = (w', q') \<Longrightarrow> settledown w' q'"
    and "CloseIfEmpty w q = (b, w', q') \<Longrightarrow> settledown w' q'"
proof -
  show "qr_Shutdown w q = (w', q') \<Longrightarrow> settledown w' q'"
    by (auto simp: qr_Shutdown_def settledown_def idle_def)
  show "CloseIfEmpty w q = (b, w', q') \<Longrightarrow> settledown w' q'"
    using assms(3) by (auto simp: CloseIfEmpty_def settledown_def idle_def split: if_splits)
  assume u: "qr_Unsubscribe i w q = (w', q')"
  show "settledown w' q'"
  proof (cases "map_of (consumerSessions q) i")
    case None
    with u assms(3) show ?thesis by (simp add: qr_Unsubscribe_def)
  next
    case (Some a)
    with u have w': "w' = upd_session a cs_Close w" and q': "consumerSessions q' = gm_del i (consumerSessions q)"
      "set (consumerOrder q') = set (consumerOrder q) - {i}" "q_config q' = q_config q"
      "notifyDistributor q' = notifyDistributor q" "q_queue q' = q_queue q"
      by (auto simp: qr_Unsubscribe_def Let_def)
    have "eligible w' q' j = eligible w q j" if "j \<noteq> i" for j
      by (rule eligible_cong) (use q' that w' in \<open>simp_all add: option.map_comp comp_def\<close>)
    with q' show ?thesis by (intro settledown_quieter [OF assms(3)]) (simp add: quieter_def)
  qed
qed

subsection \<open>The loops\<close>

lemma deadLetter_quieter:
  assumes "qr_wf q" and "deadLetterExpiredMessages w q = Some (e, w', q')"
  shows "quieter w q w' q' \<and> consumerOrder q' = consumerOrder q \<and> notifyDistributor q' = notifyDistributor q"
proof -
  let ?P = "\<lambda>(w' :: world) (q' :: queue_runtime).
    consumerOrder q' = consumerOrder q \<and> notifyDistributor q' = notifyDistributor q"
  have "?P w' q' \<and> qr_wf q'"
  proof (rule deadLetter_rule [where P = ?P, OF assms])
    fix w0 w1 w2 q1 m r
    assume "?P w1 q1"
    then show "?P w2 (drop_head r m q1)" by (simp add: drop_head_def)
  qed simp_all
  moreover from deadLetter_prefix [OF assms] have "rb_list (q_queue q) = [] \<longrightarrow> rb_list (q_queue q') = []" by auto
  ultimately show ?thesis using deadLetter_frame [OF assms] by (simp add: quieter_same)
qed

lemma settledown_reserve:
  assumes "base w q" and "qr_reserveDelivery w q = Some (None, w', q')"
    and "\<forall>e w1 q1. deadLetterExpiredMessages w q \<noteq> Some (Some e, w1, q1)"
  shows "settledown w' q'"
proof -
  note p = base_parts [OF assms(1)]
  obtain e w1 q1 where dl: "deadLetterExpiredMessages w q = Some (e, w1, q1)"
    using deadLetter_total [OF p(1), of w] by blast
  with assms(3) have e: "e = None" by (cases e) auto
  have b1: "base w1 q1" by (rule steps_base [OF steps_deadLetter [OF assms(1) dl] assms(1)])
  note p1 = base_parts [OF b1]
  show ?thesis
  proof (cases "rb_Size (q_queue q1) = 0 \<or> length (consumerSessions q1) = 0")
    case True
    with assms(2) dl e have "w' = w1" "q' = q1" by (simp_all add: qr_reserveDelivery_def)
    with True rb.nonempty [OF qr_wf_parts(1) [OF p1(1)]] consumerOrder_empty [OF p1(1)] show ?thesis
      by (auto simp: settledown_def idle_def)
  next
    case False
    obtain x q2 where ns: "nextSession w1 q1 = Some (x, q2)"
      using nextSession_spec [OF p1(1,2)] by (auto split: option.splits)
    note run = assms(2)[unfolded qr_reserveDelivery_def dl e]
    have x: "x = None"
    proof (rule ccontr)
      assume "x \<noteq> None"
      then obtain a where "x = Some a" by auto
      with run False ns show False by (simp add: Let_def NewString_def split: option.splits prod.splits)
    qed
    with run False ns have w': "w' = w1" "q' = q2" by simp_all
    from nextSession_None [OF p1(1,2) ns [unfolded x]] w' show ?thesis
      by (simp add: settledown_def idle_def)
  qed
qed

lemma settledown_processExpired:
  assumes "base w q" and "distinct order" and "settledown w q"
    and "list_all (\<lambda>p. Retry (if_Message (snd p)) < MaxRetries (q_config q)) (deliveries (q_inFlight q))"
    and "processExpiredMessages order w q = Some (w', q')"
  shows "settledown w' q'"
proof -
  let ?P = "\<lambda>w q. settledown w q \<and>
    (\<forall>t e. mgr_Get t (q_inFlight q) = Some e \<longrightarrow> Retry (if_Message e) < MaxRetries (q_config q))"
  have entries: "\<forall>t e. mgr_Get t (q_inFlight q) = Some e \<longrightarrow> Retry (if_Message e) < MaxRetries (q_config q)"
    using assms(4) by (auto simp: mgr_Get_def list_all_iff dest!: map_of_SomeD)
  have "?P w' q' \<and> qr_wf q'"
  proof (rule processExpired_rule [where P = ?P, OF base_parts(1) [OF assms(1)] assms(5,2)])
    show "?P w q" using assms(3) entries by simp
  next
    fix c
    show "?P (w\<lparr>w_clock := c\<rparr>) q" using entries settledown_same [OF assms(3)] by simp
  next
    fix w1 w2 q1 e rec and d :: delivery
    assume "?P w1 q1" "w_Append rec w1 = (Some e, w2)"
    with w_Append_frame(1) [OF this(2)] settledown_same show "?P w2 q1" by blast
  next
    fix w1 w2 q1 and d :: delivery
    assume "?P w1 q1" "in_flight_as d q1" "MaxRetries (q_config q1) \<le> Retry (d_Message d)"
    then show "?P (settled d q1 w2) (settle_dead d q1)" by (fastforce simp: in_flight_as_def)
  next
    fix w1 w2 q1 r and d :: delivery
    assume wf: "qr_wf q1" and P: "?P w1 q1"
    have "Retry (if_Message e) < MaxRetries (q_config q1)"
      if "mgr_Get t (snd (mgr_Remove (d_AckToken d) (q_inFlight q1))) = Some e" for t e
      using that P ifm.get_remove [OF qr_wf_parts(2) [OF wf]] by (auto split: if_splits)
    then show "?P (settled d q1 w2) (settle_requeued r d q1)" by (simp add: settle_requeued_def)
  qed
  then show ?thesis by simp
qed

subsection \<open>No wake-up is lost\<close>

lemma settledown_unacked:
  assumes "settledown w q" and "\<And>c. map_option UnackedCount (w_sessions w' c) = map_option UnackedCount (w_sessions w c)"
  shows "settledown w' q"
  by (rule settledown_quieter [OF assms(1)]) (use eligible_cong [of q _ q w' w] assms(2) in \<open>simp add: quieter_def\<close>)

lemma awake_step:
  assumes b: "base_sys s" and aw: "awake s" and h: "heeded ev s" and run: "qs_exec ev s = Next t"
  shows "awake t"
proof -
  note b' = b [unfolded base_sys_def] and p = base_parts [OF b [unfolded base_sys_def]]
  let ?w = "qs_world s" and ?q = "qs_queue s"
  have here: "awake t" if "qs_dist t = qs_dist s" "settledown ?w ?q \<Longrightarrow> settledown (qs_world t) (qs_queue t)"
    using aw that by (simp add: awake_def)
  show ?thesis
  proof (cases ev)
    case (EvPublish m ttl)
    with run settledown_Publish [OF p(1), of ?w m ttl] show ?thesis
      by (intro here) (auto split: option.splits)
  next
    case (EvAck x)
    with run settledown_Ack [of ?w ?q x] show ?thesis by (intro here) (auto split: prod.splits)
  next
    case (EvSubscribe a i)
    with run settledown_Subscribe [OF p(2)] show ?thesis
      by (intro here) (auto simp: connect_and_subscribe_def with_session_def [symmetric] Let_def
          split: if_splits option.splits)
  next
    case (EvUnsubscribe i)
    with run settledown_leaving(1) [OF p(1,2)] show ?thesis by (intro here) (auto split: prod.splits)
  next
    case EvShutdown
    with run settledown_leaving(2) [OF p(1,2)] show ?thesis by (intro here) (auto split: prod.splits)
  next
    case EvCloseIfEmpty
    with run settledown_leaving(3) [OF p(1,2)] show ?thesis by (intro here) (auto split: prod.splits)
  next
    case EvTop
    with run aw show ?thesis by (simp only: turns) (auto simp: awake_def)
  next
    case EvReserve
    with run obtain out w q where res: "qr_reserveDelivery ?w ?q = Some (out, w, q)"
      and t: "t = s\<lparr>qs_world := w, qs_queue := q, qs_dist := (case out of None \<Rightarrow> D_Top | Some (a, d) \<Rightarrow> D_Holding a d)\<rparr>"
      by (auto simp only: turns)
    have "\<forall>e w1 q1. deadLetterExpiredMessages ?w ?q \<noteq> Some (Some e, w1, q1)"
      using h EvReserve by auto
    with settledown_reserve [OF b', of w q] res t show ?thesis
      by (cases out) (auto simp: awake_def)
  next
    case (EvRedeliver closed order)
    with run have m: "mset order = mset (map fst (deliveries (q_inFlight ?q)))"
      and pe: "processExpiredMessages order ?w ?q = Some (qs_world t, qs_queue t)" and d: "qs_dist t = qs_dist s"
      by (auto simp: StartInflightRedeliveryWorker_turn_def split: if_splits option.splits)
    show ?thesis
      by (rule here [OF d], rule settledown_processExpired [OF b' order_distinct [OF m p(1)] _ _ pe])
        (use h EvRedeliver in simp_all)
  next
    case (EvExpire closed)
    with run obtain e w q where "deadLetterExpiredMessages ?w ?q = Some (e, w, q)" "t = s\<lparr>qs_world := w, qs_queue := q\<rparr>"
      by (auto simp: StartExpiryWorker_turn_def checkExpiredMessages_def split: if_splits option.splits)
    with deadLetter_quieter [OF p(1)] show ?thesis by (intro here) (auto intro: settledown_quieter)
  next
    case (EvReceive a)
    with run obtain f where "t = s\<lparr>qs_world := upd_session a (\<lambda>s. s\<lparr>Deliveries := f s\<rparr>) ?w\<rparr>"
      by (auto simp: receive_def split: option.splits list.splits)
    then show ?thesis
      by (intro here) (auto intro!: settledown_unacked [of ?w ?q] simp: option.map_comp comp_def)
  qed (use run in \<open>auto simp only: turns\<close>, auto simp: awake_def)
qed

lemma reaches_weaken:
  "reaches allowed s0 s \<Longrightarrow> (\<And>ev s. allowed ev s \<Longrightarrow> allowed' ev s) \<Longrightarrow> reaches allowed' s0 s"
  by (induction rule: reaches.induct) (auto intro: reaches.intros)

lemma awake_reaches:
  "reaches (\<lambda>ev s. safe ev s \<and> heeded ev s) s0 s \<Longrightarrow> base_sys s0 \<Longrightarrow> awake s0 \<Longrightarrow> awake s"
proof (induction rule: reaches.induct)
  case (step s ev t)
  have "reaches safe s0 s" by (rule reaches_weaken [OF step.hyps(1)]) simp
  with bas.reaches_keep [unfolded admitted_all] step.prems(1) have "base_sys s" by blast
  with awake_step step show ?case by blast
qed simp

text \<open>
  C7. No lost wake-up: as long as the log takes the dead letters of a pass and no message is
  buried by the redelivery worker, whenever the distributor waits although the queue holds a
  message and a subscribed consumer is below its prefetch limit, a notification is pending,
  so the distributor's next step is enabled. In particular recovered messages are handed
  out without waiting for a publisher.
\<close>

theorem no_lost_wakeup:
  assumes "newQueueRuntime cfg a name ms = Some q" and "inj (w_uuids w)"
    and "reaches (\<lambda>ev s. safe ev s \<and> heeded ev s) (started w q) s"
    and "qs_dist s = D_Select" and "rb_list (q_queue (qs_queue s)) \<noteq> []"
    and "i \<in> set (consumerOrder (qs_queue s))" and "eligible (qs_world s) (qs_queue s) i"
  shows "\<exists>t. qs_exec EvNotified s = Next t \<and> qs_dist t = D_Drain"
proof -
  have "base_sys (started w q)" using newQueueRuntime_base [OF assms(1,2)] by (simp add: base_sys_def)
  moreover have "awake (started w q)"
    using newQueueRuntime_correct [of cfg a name ms] assms(1) by (auto simp: awake_def settledown_def)
  ultimately have "awake s" using awake_reaches [OF assms(3)] by blast
  with assms(4-7) have "notifyDistributor (qs_queue s)" by (auto simp: awake_def settledown_def idle_def)
  with assms(4) show ?thesis unfolding turn_EvNotified by auto
qed

theorem no_lost_wakeup_witness:
  "\<exists>s t. trace (\<lambda>ev s. safe ev s \<and> heeded ev s) [EvPublish (msg ''a'') 0, EvTop, EvNotified, EvReserve, EvTop,
        EvSubscribe 0 ''c1''] (sample_start DefaultConfig) = Some s
     \<and> qs_dist s = D_Select \<and> qs_exec EvNotified s = Next t \<and> qs_dist t = D_Drain"
proof -
  let ?s = "trace (\<lambda>ev s. safe ev s \<and> heeded ev s) [EvPublish (msg ''a'') 0, EvTop, EvNotified, EvReserve, EvTop,
        EvSubscribe 0 ''c1''] (sample_start DefaultConfig)"
  have "case ?s of None \<Rightarrow> False | Some s \<Rightarrow> qs_dist s = D_Select \<and> rb_list (q_queue (qs_queue s)) \<noteq> []
      \<and> ''c1'' \<in> set (consumerOrder (qs_queue s)) \<and> eligible (qs_world s) (qs_queue s) ''c1''" by code_simp
  then obtain s where s: "?s = Some s" "qs_dist s = D_Select" "rb_list (q_queue (qs_queue s)) \<noteq> []"
    "''c1'' \<in> set (consumerOrder (qs_queue s))" "eligible (qs_world s) (qs_queue s) ''c1''"
    by (auto split: option.splits)
  from no_lost_wakeup [OF sample_runtime sample_uuids sample_reaches [OF s(1)] s(2-5)] s show ?thesis by blast
qed

text \<open>
  Burying a message does lose a wake-up: with a prefetch of one and no retries, the
  redelivery worker dead-letters the timed-out message of consumer c1 and frees its place,
  but does not notify. Message b waits, c1 could take it, and the distributor sleeps.
\<close>

theorem burying_loses_a_wakeup:
  "\<exists>t. trace safe [EvSubscribe 0 ''c1'', EvPublish (msg ''a'') 0, EvPublish (msg ''b'') 0, EvTop, EvNotified,
        EvReserve, EvSend, EvReserve, EvTop, EvRedeliver False [''u'']]
        (sample_start (DefaultConfig\<lparr>ConsumerPrefetch := 1, MaxRetries := 0, AckTimeout := 0\<rparr>)) = Some t
     \<and> qs_dist t = D_Select \<and> map ID (rb_list (q_queue (qs_queue t))) = [''b'']
     \<and> eligible (qs_world t) (qs_queue t) ''c1'' \<and> \<not> notifyDistributor (qs_queue t)"
proof -
  let ?t = "trace safe [EvSubscribe 0 ''c1'', EvPublish (msg ''a'') 0, EvPublish (msg ''b'') 0, EvTop, EvNotified,
        EvReserve, EvSend, EvReserve, EvTop, EvRedeliver False [''u'']]
        (sample_start (DefaultConfig\<lparr>ConsumerPrefetch := 1, MaxRetries := 0, AckTimeout := 0\<rparr>))"
  have "case ?t of None \<Rightarrow> False | Some t \<Rightarrow> qs_dist t = D_Select
     \<and> map ID (rb_list (q_queue (qs_queue t))) = [''b'']
     \<and> eligible (qs_world t) (qs_queue t) ''c1'' \<and> \<not> notifyDistributor (qs_queue t)" by code_simp
  then show ?thesis by (auto split: option.splits)
qed

end
