(* ===== verification/Queue_Shutdown.thy ===== *)
theory Queue_Shutdown
  imports Queue_Properties
begin

text \<open>
  Shutting a queue down ends its distributor. \<open>Shutdown\<close> of the broker waits for the goroutines of
  every queue; this theory bounds what the distributor still does once its queue is closed: in any
  interleaving with the other goroutines and the clients it makes at most three more turns, and
  until it has returned one of its turns is possible.
\<close>

definition distributor_event :: "event \<Rightarrow> bool" where
  "distributor_event ev = (case ev of
     EvTop \<Rightarrow> True | EvNotified \<Rightarrow> True | EvDone \<Rightarrow> True | EvReserve \<Rightarrow> True | EvSend \<Rightarrow> True | EvCancel \<Rightarrow> True
   | _ \<Rightarrow> False)"

fun turns_left :: "distributor \<Rightarrow> nat" where
  "turns_left D_Exited = 0"
| "turns_left D_Top = 1"
| "turns_left D_Drain = 2"
| "turns_left (D_Holding a d) = 3"
| "turns_left D_Select = 3"

interpretation clo: atomic_invariant "\<lambda>_ q. q_closed q" "\<lambda>_ _. True"
proof
  fix w q l w' q'
  assume "q_closed q" "atomic l w q w' q'"
  from this(2,1) show "q_closed q'"
    by (cases rule: atomic.cases)
      (auto simp: settle_dead_def settle_requeued_def drop_head_def dest: take_head_result(2))
qed

lemma closed_reserve:
  assumes b: "base w q" and c: "q_closed q" and r: "qr_reserveDelivery w q = Some (out, w', q')"
  shows "out = None"
  using base_parts(1,2) [OF b] r
proof (cases rule: qr_reserveDelivery_cases)
  case (reserved a s m r w1 q1 n d)
  have "consumerSessions q = []" using base_parts(1) [OF b] c by (simp add: qr_wf_def)
  with deadLetter_frame [OF base_parts(1) [OF b] reserved(2)] reserved(4) show ?thesis by simp
qed simp

lemma closed_turn:
  assumes b: "base_sys s" and c: "q_closed (qs_queue s)" and run: "qs_exec ev s = Next t"
  shows "turns_left (qs_dist t) + (if distributor_event ev then 1 else 0) \<le> turns_left (qs_dist s)"
proof (cases ev)
  case EvReserve
  with run closed_reserve [OF b [unfolded base_sys_def] c] show ?thesis
    by (simp only: turns) (auto simp: distributor_event_def)
next
  case EvTop
  with run c show ?thesis by (simp only: turns) (auto simp: distributor_event_def)
next
  case EvNotified
  with run show ?thesis by (simp only: turns) (auto simp: distributor_event_def)
next
  case EvDone
  with run show ?thesis by (simp only: turns) (auto simp: distributor_event_def)
next
  case EvSend
  with run show ?thesis by (simp only: turns) (auto simp: distributor_event_def)
next
  case EvCancel
  with run show ?thesis by (simp only: turns) (auto simp: distributor_event_def)
qed (use run in \<open>auto simp: distributor_event_def connect_and_subscribe_def receive_def Let_def
    StartInflightRedeliveryWorker_turn_def StartExpiryWorker_turn_def
    split: option.splits prod.splits if_splits list.splits\<close>)

lemma closed_trace:
  "trace safe evs s = Some t \<Longrightarrow> base_sys s \<Longrightarrow> q_closed (qs_queue s) \<Longrightarrow>
   length (filter distributor_event evs) + turns_left (qs_dist t) \<le> turns_left (qs_dist s)
   \<and> base_sys t \<and> q_closed (qs_queue t)"
proof (induction evs arbitrary: s)
  case (Cons ev evs)
  then obtain s1 where s1: "safe ev s" "qs_exec ev s = Next s1" "trace safe evs s1 = Some t"
    by (auto split: if_splits outcome.splits)
  note k = clo.event_keeps [unfolded admitted_all, OF Cons.prems(2,3) s1(1,2)]
  from Cons.IH [OF s1(3) k] closed_turn [OF Cons.prems(2,3) s1(2)] show ?case by auto
qed simp

lemma distributor_not_stuck:
  assumes b: "base_sys s" and cap: "0 < rb_Capacity (q_queue (qs_queue s))" and d: "qs_dist s \<noteq> D_Exited"
  shows "\<exists>ev t. distributor_event ev \<and> qs_exec ev s = Next t"
proof (cases "qs_dist s")
  case D_Top
  then show ?thesis by (intro exI [of _ EvTop]) (simp add: RunDistributor_turn_def distributor_event_def)
next
  case D_Select
  then show ?thesis by (intro exI [of _ EvDone]) (simp add: RunDistributor_turn_def distributor_event_def)
next
  case D_Drain
  with safe_no_panic [OF b, of EvReserve] show ?thesis
    by (intro exI [of _ EvReserve])
      (auto simp: RunDistributor_turn_def distributor_event_def split: option.splits)
next
  case (D_Holding a d)
  show ?thesis
  proof (cases "channel_ready a (qs_world s)")
    case True
    with D_Holding show ?thesis by (intro exI [of _ EvSend]) (simp add: RunDistributor_turn_def distributor_event_def)
  next
    case False
    have "rb_Push (d_Message d) (q_queue (qs_queue s)) \<noteq> None"
      using cap qr_wf_parts(1) [OF base_parts(1) [OF b [unfolded base_sys_def]]]
      by (simp add: rb_Push_def rb_invar_def rb_Capacity_def)
    then obtain r where "rb_Push (d_Message d) (q_queue (qs_queue s)) = Some r" by blast
    with D_Holding False show ?thesis
      by (intro exI [of _ EvCancel]) (auto simp: RunDistributor_turn_def distributor_event_def qr_cancelReservation_eq)
  qed
qed (use d in simp)


interpretation cap: atomic_invariant "\<lambda>_ q. 0 < rb_Capacity (q_queue q)" "\<lambda>_ _. True"
proof
  fix w q l w' q'
  assume "0 < rb_Capacity (q_queue q)" "atomic l w q w' q'"
  from this(2,1) show "0 < rb_Capacity (q_queue q')"
    by (cases rule: atomic.cases)
      (auto simp: settle_dead_def settle_requeued_def drop_head_def rb_became_def dest: take_head_result(2))
qed



end
