(* ===== verification/Protocol.thy ===== *)
theory Protocol
  imports Json_Codec
begin

text \<open>
  The wire protocol of \<open>internal/protocol\<close>: requests and responses as the struct tags of
  \<open>request.go\<close>, \<open>response.go\<close> and \<open>internal/model/metrics.go\<close> lay them out in JSON, and the
  round trip through that form.

  The encoding leaves out empty strings, a zero message, zero metrics and empty lists, so the
  round trip is what makes the client and the server agree. \<open>Queues\<close> of a response is
  \<open>omitzero\<close>: a nil slice (\<open>None\<close>) is left out, an empty one is written. In the metrics an
  empty list stands for the nil slice: a broker always has its default queue, so it never reports
  an empty one.
\<close>

subsection \<open>Constants\<close>

definition PublishRequest :: string where "PublishRequest = ''publish''"
definition ConsumeRequest :: string where "ConsumeRequest = ''consume''"
definition AckRequest :: string where "AckRequest = ''ack''"
definition MetricsRequest :: string where "MetricsRequest = ''metrics''"
definition SubscribeRequest :: string where "SubscribeRequest = ''subscribe''"
definition UnsubscribeRequest :: string where "UnsubscribeRequest = ''unsubscribe''"
definition CreateQueueRequest :: string where "CreateQueueRequest = ''create_queue''"
definition DeleteQueueRequest :: string where "DeleteQueueRequest = ''delete_queue''"
definition ListQueuesRequest :: string where "ListQueuesRequest = ''list_queues''"
definition BindQueueRequest :: string where "BindQueueRequest = ''bind_queue''"
definition UnbindQueueRequest :: string where "UnbindQueueRequest = ''unbind_queue''"
definition CreateExchangeRequest :: string where "CreateExchangeRequest = ''create_exchange''"
definition DeleteExchangeRequest :: string where "DeleteExchangeRequest = ''delete_exchange''"
definition ListExchangesRequest :: string where "ListExchangesRequest = ''list_exchanges''"

definition CurrentVersion :: int where "CurrentVersion = 1"

lemmas request_types =
  PublishRequest_def ConsumeRequest_def AckRequest_def MetricsRequest_def SubscribeRequest_def
  UnsubscribeRequest_def CreateQueueRequest_def DeleteQueueRequest_def ListQueuesRequest_def
  BindQueueRequest_def UnbindQueueRequest_def CreateExchangeRequest_def DeleteExchangeRequest_def
  ListExchangesRequest_def

subsection \<open>Requests and responses\<close>

record request =
  rq_ID :: string
  rq_Type :: string
  rq_Queue :: string
  rq_Payload :: message
  rq_TTL :: int
  rq_AckToken :: string
  rq_Exchange :: string
  rq_ExchangeType :: string
  rq_RoutingKey :: string
  rq_BindingKey :: string
  rq_Version :: int

definition zero_request :: request where
  "zero_request = \<lparr>rq_ID = '''', rq_Type = '''', rq_Queue = '''', rq_Payload = zero_message, rq_TTL = 0,
     rq_AckToken = '''', rq_Exchange = '''', rq_ExchangeType = '''', rq_RoutingKey = '''',
     rq_BindingKey = '''', rq_Version = 0\<rparr>"

record response =
  rs_Success :: bool
  rs_Error :: string
  rs_Queue :: string
  rs_Exchange :: string
  rs_Exchanges :: "string list"
  rs_Message :: message
  rs_AckToken :: string
  rs_Metrics :: broker_metrics
  rs_Queues :: "queue_metric list option"
  rs_Version :: int

definition zero_metrics :: broker_metrics where
  "zero_metrics = \<lparr>bm_Queues = [], bm_Total = zero_metric\<rparr>"

definition zero_response :: response where
  "zero_response = \<lparr>rs_Success = False, rs_Error = '''', rs_Queue = '''', rs_Exchange = '''',
     rs_Exchanges = [], rs_Message = zero_message, rs_AckToken = '''', rs_Metrics = zero_metrics,
     rs_Queues = None, rs_Version = 0\<rparr>"

subsection \<open>Encoding\<close>

definition omitempty_num :: "string \<Rightarrow> int \<Rightarrow> (string \<times> json) list" where
  "omitempty_num name n = (if n = 0 then [] else [(name, JNum n)])"

definition omitzero_message :: "message \<Rightarrow> (string \<times> json) list" where
  "omitzero_message m = (if m = zero_message then [] else [(''message'', enc_message m)])"

definition enc_request :: "request \<Rightarrow> json" where
  "enc_request r = JObj
     (omitempty ''id'' (rq_ID r) @ [(''type'', JStr (rq_Type r))] @ omitempty ''queue'' (rq_Queue r) @
      omitzero_message (rq_Payload r) @ omitempty_num ''ttl'' (rq_TTL r) @
      omitempty ''ack_token'' (rq_AckToken r) @ omitempty ''exchange'' (rq_Exchange r) @
      omitempty ''exchange_type'' (rq_ExchangeType r) @ omitempty ''routing_key'' (rq_RoutingKey r) @
      omitempty ''binding_key'' (rq_BindingKey r) @ omitempty_num ''version'' (rq_Version r))"

definition metric_fields :: "metric \<Rightarrow> (string \<times> json) list" where
  "metric_fields m =
     [(''ProducedCount'', JNum (ProducedCount m)), (''AckedCount'', JNum (AckedCount m)),
      (''DlqCount'', JNum (DlqCount m)), (''InflightCount'', JNum (InflightCount m)),
      (''RedeliveredCount'', JNum (RedeliveredCount m)),
      (''ConsumerSessionCount'', JNum (ConsumerSessionCount m)), (''QueueDepth'', JNum (QueueDepth m))]"

definition enc_queue_metric :: "queue_metric \<Rightarrow> json" where
  "enc_queue_metric q = JObj ((''name'', JStr (qm_Name q)) # metric_fields (qm_Metric q))"

definition enc_metrics :: "broker_metrics \<Rightarrow> json" where
  "enc_metrics b = JObj
     [(''queues'', if bm_Queues b = [] then JNull else JArr (map enc_queue_metric (bm_Queues b))),
      (''total'', JObj (metric_fields (bm_Total b)))]"

definition enc_response :: "response \<Rightarrow> json" where
  "enc_response r = JObj
     ([(''success'', JBool (rs_Success r))] @ omitempty ''error'' (rs_Error r) @
      omitempty ''queue'' (rs_Queue r) @ omitempty ''exchange'' (rs_Exchange r) @
      (if rs_Exchanges r = [] then [] else [(''exchanges'', JArr (map JStr (rs_Exchanges r)))]) @
      omitzero_message (rs_Message r) @ omitempty ''ack_token'' (rs_AckToken r) @
      (if rs_Metrics r = zero_metrics then [] else [(''broker_metrics'', enc_metrics (rs_Metrics r))]) @
      (case rs_Queues r of None \<Rightarrow> [] | Some qs \<Rightarrow> [(''queues'', JArr (map enc_queue_metric qs))]) @
      omitempty_num ''version'' (rs_Version r))"

subsection \<open>Decoding\<close>

fun dec_bool :: "json \<Rightarrow> bool \<Rightarrow> bool option" where
  "dec_bool (JBool b) cur = Some b"
| "dec_bool JNull cur = Some cur"
| "dec_bool _ cur = None"

fun dec_all :: "(json \<Rightarrow> 'a option) \<Rightarrow> json list \<Rightarrow> 'a list option" where
  "dec_all f [] = Some []"
| "dec_all f (v # vs) =
     (case f v of None \<Rightarrow> None | Some x \<Rightarrow> map_option ((#) x) (dec_all f vs))"

fun dec_list :: "(json \<Rightarrow> 'a option) \<Rightarrow> json \<Rightarrow> 'a list option" where
  "dec_list f (JArr vs) = dec_all f vs"
| "dec_list f JNull = Some []"
| "dec_list f _ = None"

definition dec_request_field :: "string \<Rightarrow> json \<Rightarrow> request \<Rightarrow> request option" where
  "dec_request_field k v r =
     (if field_is ''id'' k then map_option (\<lambda>s. r\<lparr>rq_ID := s\<rparr>) (dec_string v (rq_ID r))
      else if field_is ''type'' k then map_option (\<lambda>s. r\<lparr>rq_Type := s\<rparr>) (dec_string v (rq_Type r))
      else if field_is ''queue'' k then map_option (\<lambda>s. r\<lparr>rq_Queue := s\<rparr>) (dec_string v (rq_Queue r))
      else if field_is ''message'' k then map_option (\<lambda>m. r\<lparr>rq_Payload := m\<rparr>) (dec_message v (rq_Payload r))
      else if field_is ''ttl'' k then map_option (\<lambda>n. r\<lparr>rq_TTL := n\<rparr>) (dec_int v (rq_TTL r))
      else if field_is ''ack_token'' k then map_option (\<lambda>s. r\<lparr>rq_AckToken := s\<rparr>) (dec_string v (rq_AckToken r))
      else if field_is ''exchange'' k then map_option (\<lambda>s. r\<lparr>rq_Exchange := s\<rparr>) (dec_string v (rq_Exchange r))
      else if field_is ''exchange_type'' k then
        map_option (\<lambda>s. r\<lparr>rq_ExchangeType := s\<rparr>) (dec_string v (rq_ExchangeType r))
      else if field_is ''routing_key'' k then
        map_option (\<lambda>s. r\<lparr>rq_RoutingKey := s\<rparr>) (dec_string v (rq_RoutingKey r))
      else if field_is ''binding_key'' k then
        map_option (\<lambda>s. r\<lparr>rq_BindingKey := s\<rparr>) (dec_string v (rq_BindingKey r))
      else if field_is ''version'' k then map_option (\<lambda>n. r\<lparr>rq_Version := n\<rparr>) (dec_int v (rq_Version r))
      else Some r)"

fun dec_request :: "json \<Rightarrow> request \<Rightarrow> request option" where
  "dec_request (JObj kvs) r = dec_fields dec_request_field kvs r"
| "dec_request JNull r = Some r"
| "dec_request _ r = None"

definition dec_metric_field :: "string \<Rightarrow> json \<Rightarrow> metric \<Rightarrow> metric option" where
  "dec_metric_field k v m =
     (if field_is ''producedcount'' k then map_option (\<lambda>n. m\<lparr>ProducedCount := n\<rparr>) (dec_int v (ProducedCount m))
      else if field_is ''ackedcount'' k then map_option (\<lambda>n. m\<lparr>AckedCount := n\<rparr>) (dec_int v (AckedCount m))
      else if field_is ''dlqcount'' k then map_option (\<lambda>n. m\<lparr>DlqCount := n\<rparr>) (dec_int v (DlqCount m))
      else if field_is ''inflightcount'' k then
        map_option (\<lambda>n. m\<lparr>InflightCount := n\<rparr>) (dec_int v (InflightCount m))
      else if field_is ''redeliveredcount'' k then
        map_option (\<lambda>n. m\<lparr>RedeliveredCount := n\<rparr>) (dec_int v (RedeliveredCount m))
      else if field_is ''consumersessioncount'' k then
        map_option (\<lambda>n. m\<lparr>ConsumerSessionCount := n\<rparr>) (dec_int v (ConsumerSessionCount m))
      else if field_is ''queuedepth'' k then map_option (\<lambda>n. m\<lparr>QueueDepth := n\<rparr>) (dec_int v (QueueDepth m))
      else Some m)"

fun dec_metric :: "json \<Rightarrow> metric \<Rightarrow> metric option" where
  "dec_metric (JObj kvs) m = dec_fields dec_metric_field kvs m"
| "dec_metric JNull m = Some m"
| "dec_metric _ m = None"

definition dec_queue_metric_field :: "string \<Rightarrow> json \<Rightarrow> queue_metric \<Rightarrow> queue_metric option" where
  "dec_queue_metric_field k v q =
     (if field_is ''name'' k then map_option (\<lambda>s. q\<lparr>qm_Name := s\<rparr>) (dec_string v (qm_Name q))
      else map_option (\<lambda>m. q\<lparr>qm_Metric := m\<rparr>) (dec_metric_field k v (qm_Metric q)))"

fun dec_queue_metric :: "json \<Rightarrow> queue_metric option" where
  "dec_queue_metric (JObj kvs) =
     dec_fields dec_queue_metric_field kvs \<lparr>qm_Name = '''', qm_Metric = zero_metric\<rparr>"
| "dec_queue_metric JNull = Some \<lparr>qm_Name = '''', qm_Metric = zero_metric\<rparr>"
| "dec_queue_metric _ = None"

definition dec_metrics_field :: "string \<Rightarrow> json \<Rightarrow> broker_metrics \<Rightarrow> broker_metrics option" where
  "dec_metrics_field k v b =
     (if field_is ''queues'' k then map_option (\<lambda>qs. b\<lparr>bm_Queues := qs\<rparr>) (dec_list dec_queue_metric v)
      else if field_is ''total'' k then map_option (\<lambda>m. b\<lparr>bm_Total := m\<rparr>) (dec_metric v (bm_Total b))
      else Some b)"

fun dec_metrics :: "json \<Rightarrow> broker_metrics \<Rightarrow> broker_metrics option" where
  "dec_metrics (JObj kvs) b = dec_fields dec_metrics_field kvs b"
| "dec_metrics JNull b = Some b"
| "dec_metrics _ b = None"

fun dec_queues :: "json \<Rightarrow> queue_metric list option option" where
  "dec_queues JNull = Some None"
| "dec_queues v = map_option Some (dec_list dec_queue_metric v)"

definition dec_response_field :: "string \<Rightarrow> json \<Rightarrow> response \<Rightarrow> response option" where
  "dec_response_field k v r =
     (if field_is ''success'' k then map_option (\<lambda>b. r\<lparr>rs_Success := b\<rparr>) (dec_bool v (rs_Success r))
      else if field_is ''error'' k then map_option (\<lambda>s. r\<lparr>rs_Error := s\<rparr>) (dec_string v (rs_Error r))
      else if field_is ''queue'' k then map_option (\<lambda>s. r\<lparr>rs_Queue := s\<rparr>) (dec_string v (rs_Queue r))
      else if field_is ''exchange'' k then map_option (\<lambda>s. r\<lparr>rs_Exchange := s\<rparr>) (dec_string v (rs_Exchange r))
      else if field_is ''exchanges'' k then
        map_option (\<lambda>xs. r\<lparr>rs_Exchanges := xs\<rparr>) (dec_list (\<lambda>v. dec_string v '''') v)
      else if field_is ''message'' k then map_option (\<lambda>m. r\<lparr>rs_Message := m\<rparr>) (dec_message v (rs_Message r))
      else if field_is ''ack_token'' k then map_option (\<lambda>s. r\<lparr>rs_AckToken := s\<rparr>) (dec_string v (rs_AckToken r))
      else if field_is ''broker_metrics'' k then
        map_option (\<lambda>b. r\<lparr>rs_Metrics := b\<rparr>) (dec_metrics v (rs_Metrics r))
      else if field_is ''queues'' k then map_option (\<lambda>q. r\<lparr>rs_Queues := q\<rparr>) (dec_queues v)
      else if field_is ''version'' k then map_option (\<lambda>n. r\<lparr>rs_Version := n\<rparr>) (dec_int v (rs_Version r))
      else Some r)"

fun dec_response :: "json \<Rightarrow> response \<Rightarrow> response option" where
  "dec_response (JObj kvs) r = dec_fields dec_response_field kvs r"
| "dec_response JNull r = Some r"
| "dec_response _ r = None"

subsection \<open>Round trips\<close>

lemma lower_protocol:
  "map ascii_lower ''ttl'' = ''ttl''"
  "map ascii_lower ''ack_token'' = ''ack_token''"
  "map ascii_lower ''routing_key'' = ''routing_key''"
  "map ascii_lower ''version'' = ''version''"
  "map ascii_lower ''success'' = ''success''"
  "map ascii_lower ''error'' = ''error''"
  "map ascii_lower ''exchanges'' = ''exchanges''"
  "map ascii_lower ''broker_metrics'' = ''broker_metrics''"
  "map ascii_lower ''queues'' = ''queues''"
  "map ascii_lower ''name'' = ''name''"
  "map ascii_lower ''total'' = ''total''"
  "map ascii_lower ''ProducedCount'' = ''producedcount''"
  "map ascii_lower ''AckedCount'' = ''ackedcount''"
  "map ascii_lower ''DlqCount'' = ''dlqcount''"
  "map ascii_lower ''InflightCount'' = ''inflightcount''"
  "map ascii_lower ''RedeliveredCount'' = ''redeliveredcount''"
  "map ascii_lower ''ConsumerSessionCount'' = ''consumersessioncount''"
  "map ascii_lower ''QueueDepth'' = ''queuedepth''"
  by code_simp+

lemma field_is_protocol [simp]:
  "field_is name ''ttl'' \<longleftrightarrow> name = ''ttl''"
  "field_is name ''ack_token'' \<longleftrightarrow> name = ''ack_token''"
  "field_is name ''routing_key'' \<longleftrightarrow> name = ''routing_key''"
  "field_is name ''version'' \<longleftrightarrow> name = ''version''"
  "field_is name ''success'' \<longleftrightarrow> name = ''success''"
  "field_is name ''error'' \<longleftrightarrow> name = ''error''"
  "field_is name ''exchanges'' \<longleftrightarrow> name = ''exchanges''"
  "field_is name ''broker_metrics'' \<longleftrightarrow> name = ''broker_metrics''"
  "field_is name ''queues'' \<longleftrightarrow> name = ''queues''"
  "field_is name ''name'' \<longleftrightarrow> name = ''name''"
  "field_is name ''total'' \<longleftrightarrow> name = ''total''"
  "field_is name ''ProducedCount'' \<longleftrightarrow> name = ''producedcount''"
  "field_is name ''AckedCount'' \<longleftrightarrow> name = ''ackedcount''"
  "field_is name ''DlqCount'' \<longleftrightarrow> name = ''dlqcount''"
  "field_is name ''InflightCount'' \<longleftrightarrow> name = ''inflightcount''"
  "field_is name ''RedeliveredCount'' \<longleftrightarrow> name = ''redeliveredcount''"
  "field_is name ''ConsumerSessionCount'' \<longleftrightarrow> name = ''consumersessioncount''"
  "field_is name ''QueueDepth'' \<longleftrightarrow> name = ''queuedepth''"
  unfolding field_is_def lower_protocol by (rule eq_commute)+

text \<open>
  Leaving a field out is the same as writing its zero value, where the field holds that value
  already. As conditional rewrite rules these keep the decoder free of case splits.
\<close>

lemma dec_omitted:
  "f name (JStr '''') x = Some x \<Longrightarrow> dec_fields f (omitempty name s) x = f name (JStr s) x"
  "f name (JNum 0) x = Some x \<Longrightarrow> dec_fields f (omitempty_num name n) x = f name (JNum n) x"
  "f ''message'' (enc_message zero_message) x = Some x \<Longrightarrow>
     dec_fields f (omitzero_message m) x = f ''message'' (enc_message m) x"
  by (simp_all add: omitempty_def omitempty_num_def omitzero_message_def split: option.splits)

lemma dec_all_map: "(\<And>x. x \<in> set xs \<Longrightarrow> f (g x) = Some x) \<Longrightarrow> dec_all f (map g xs) = Some xs"
  by (induction xs) simp_all

lemma dec_metric_fields [simp]:
  "dec_fields dec_metric_field (metric_fields m) x = Some m"
  "dec_fields dec_queue_metric_field (metric_fields m) q = Some (q\<lparr>qm_Metric := m\<rparr>)"
  by (simp_all add: metric_fields_def dec_metric_field_def dec_queue_metric_field_def)

lemma dec_enc_queue_metric [simp]: "dec_queue_metric (enc_queue_metric q) = Some q"
  by (simp add: enc_queue_metric_def dec_queue_metric_field_def)

lemma dec_enc_metrics [simp]: "dec_metrics (enc_metrics b) x = Some b"
  by (simp add: enc_metrics_def dec_metrics_field_def dec_all_map)

lemma dec_request_fields:
  "dec_request_field ''id'' (JStr s) r = Some (r\<lparr>rq_ID := s\<rparr>)"
  "dec_request_field ''type'' (JStr s) r = Some (r\<lparr>rq_Type := s\<rparr>)"
  "dec_request_field ''queue'' (JStr s) r = Some (r\<lparr>rq_Queue := s\<rparr>)"
  "dec_request_field ''message'' (enc_message m) r = Some (r\<lparr>rq_Payload := m\<rparr>)"
  "dec_request_field ''ttl'' (JNum n) r = Some (r\<lparr>rq_TTL := n\<rparr>)"
  "dec_request_field ''ack_token'' (JStr s) r = Some (r\<lparr>rq_AckToken := s\<rparr>)"
  "dec_request_field ''exchange'' (JStr s) r = Some (r\<lparr>rq_Exchange := s\<rparr>)"
  "dec_request_field ''exchange_type'' (JStr s) r = Some (r\<lparr>rq_ExchangeType := s\<rparr>)"
  "dec_request_field ''routing_key'' (JStr s) r = Some (r\<lparr>rq_RoutingKey := s\<rparr>)"
  "dec_request_field ''binding_key'' (JStr s) r = Some (r\<lparr>rq_BindingKey := s\<rparr>)"
  "dec_request_field ''version'' (JNum n) r = Some (r\<lparr>rq_Version := n\<rparr>)"
  by (simp_all add: dec_request_field_def)

lemma dec_enc_request [simp]: "dec_request (enc_request r) zero_request = Some r"
  by (simp add: enc_request_def dec_fields_append dec_omitted dec_request_fields zero_request_def)

lemma dec_response_fields:
  "dec_response_field ''success'' (JBool b) r = Some (r\<lparr>rs_Success := b\<rparr>)"
  "dec_response_field ''error'' (JStr s) r = Some (r\<lparr>rs_Error := s\<rparr>)"
  "dec_response_field ''queue'' (JStr s) r = Some (r\<lparr>rs_Queue := s\<rparr>)"
  "dec_response_field ''exchange'' (JStr s) r = Some (r\<lparr>rs_Exchange := s\<rparr>)"
  "dec_response_field ''exchanges'' (JArr (map JStr xs)) r = Some (r\<lparr>rs_Exchanges := xs\<rparr>)"
  "dec_response_field ''message'' (enc_message m) r = Some (r\<lparr>rs_Message := m\<rparr>)"
  "dec_response_field ''ack_token'' (JStr s) r = Some (r\<lparr>rs_AckToken := s\<rparr>)"
  "dec_response_field ''broker_metrics'' (enc_metrics bm) r = Some (r\<lparr>rs_Metrics := bm\<rparr>)"
  "dec_response_field ''queues'' (JArr (map enc_queue_metric qs)) r = Some (r\<lparr>rs_Queues := Some qs\<rparr>)"
  "dec_response_field ''version'' (JNum n) r = Some (r\<lparr>rs_Version := n\<rparr>)"
  by (simp_all add: dec_response_field_def dec_all_map)

lemma dec_response_lists:
  "rs_Exchanges r = [] \<Longrightarrow> dec_fields dec_response_field
     (if xs = [] then [] else [(''exchanges'', JArr (map JStr xs))]) r = Some (r\<lparr>rs_Exchanges := xs\<rparr>)"
  "rs_Metrics r = zero_metrics \<Longrightarrow> dec_fields dec_response_field
     (if bm = zero_metrics then [] else [(''broker_metrics'', enc_metrics bm)]) r = Some (r\<lparr>rs_Metrics := bm\<rparr>)"
  "rs_Queues r = None \<Longrightarrow> dec_fields dec_response_field
     (case q of None \<Rightarrow> [] | Some qs \<Rightarrow> [(''queues'', JArr (map enc_queue_metric qs))]) r = Some (r\<lparr>rs_Queues := q\<rparr>)"
  by (cases r; simp add: dec_response_fields split: option.splits)+

lemma dec_enc_response [simp]: "dec_response (enc_response r) zero_response = Some r"
  by (simp add: enc_response_def dec_fields_append dec_omitted dec_response_fields dec_response_lists
      zero_response_def)


end
