(* ===== verification/Exchanges.thy ===== *)
theory Exchanges
  imports Messages
begin

text \<open>
  Package \<open>internal/exchange\<close>: the list of bindings that all exchanges share
  (\<open>base_exchange.go\<close>), the three kinds of routing and the factory.

  The Go interface \<open>Exchange\<close> is the locale \<open>exchange_interface\<close>. It is interpreted for each of
  the three routing functions (\<open>dir\<close>, \<open>fan\<close>, \<open>top\<close>) and for the value the factory returns
  (\<open>exc\<close>), on which the broker relies.
\<close>

subsection \<open>Bindings\<close>

record base_exchange =
  ex_Name :: string
  ex_bindings :: "binding list"

definition NewBaseExchange :: "string \<Rightarrow> base_exchange" where
  "NewBaseExchange name = \<lparr>ex_Name = name, ex_bindings = []\<rparr>"

fun bound_exactly :: "string \<Rightarrow> string \<Rightarrow> binding list \<Rightarrow> bool" where
  "bound_exactly bindingKey queueName [] = False"
| "bound_exactly bindingKey queueName (b # bs) =
     (if BindingKey b = bindingKey \<and> QueueName b = queueName then True
      else bound_exactly bindingKey queueName bs)"

definition checkBindingExists :: "string \<Rightarrow> string \<Rightarrow> base_exchange \<Rightarrow> bool" where
  "checkBindingExists bindingKey queueName e = bound_exactly bindingKey queueName (ex_bindings e)"

fun bound_somehow :: "string \<Rightarrow> string \<Rightarrow> binding list \<Rightarrow> bool" where
  "bound_somehow bindingKey queueName [] = False"
| "bound_somehow bindingKey queueName (b # bs) =
     (if QueueName b \<noteq> queueName then bound_somehow bindingKey queueName bs
      else if bindingKey = '''' \<or> BindingKey b = bindingKey then True
      else bound_somehow bindingKey queueName bs)"

definition hasBinding :: "string \<Rightarrow> string \<Rightarrow> base_exchange \<Rightarrow> bool" where
  "hasBinding bindingKey queueName e = bound_somehow bindingKey queueName (ex_bindings e)"

definition be_Bind :: "string \<Rightarrow> string \<Rightarrow> base_exchange \<Rightarrow> err option \<times> base_exchange" where
  "be_Bind bindingKey queueName e =
     (if checkBindingExists bindingKey queueName e then (Some ErrBindingAlreadyExist, e)
      else (None, e\<lparr>ex_bindings := ex_bindings e @ [\<lparr>QueueName = queueName, BindingKey = bindingKey\<rparr>]\<rparr>))"

definition be_Unbind :: "string \<Rightarrow> string \<Rightarrow> base_exchange \<Rightarrow> err option \<times> base_exchange" where
  "be_Unbind bindingKey queueName e =
     (if \<not> hasBinding bindingKey queueName e then (Some ErrBindingNotExist, e)
      else (None, e\<lparr>ex_bindings := DeleteFunc (ex_bindings e)
        (\<lambda>b. if bindingKey \<noteq> '''' then BindingKey b = bindingKey \<and> QueueName b = queueName
             else QueueName b = queueName)\<rparr>))"

definition be_ListBindings :: "base_exchange \<Rightarrow> binding list" where
  "be_ListBindings e = [] @ ex_bindings e"

subsection \<open>Routing\<close>

fun direct_loop :: "string \<Rightarrow> binding list \<Rightarrow> string list" where
  "direct_loop routingKey [] = []"
| "direct_loop routingKey (b # bs) =
     (if BindingKey b = routingKey then QueueName b # direct_loop routingKey bs
      else direct_loop routingKey bs)"

definition direct_Route :: "string \<Rightarrow> base_exchange \<Rightarrow> string list" where
  "direct_Route routingKey e = direct_loop routingKey (ex_bindings e)"

definition fanout_Route :: "string \<Rightarrow> base_exchange \<Rightarrow> string list" where
  "fanout_Route routingKey e = map QueueName (ex_bindings e)"

text \<open>\<open>strings.Split\<close> with a one-byte separator: never empty, adjacent separators give empty parts.\<close>

fun Split :: "char \<Rightarrow> string \<Rightarrow> string list" where
  "Split sep [] = [[]]"
| "Split sep (c # cs) =
     (if c = sep then [] # Split sep cs
      else case Split sep cs of [] \<Rightarrow> [[c]] | p # ps \<Rightarrow> (c # p) # ps)"

text \<open>The loop of \<open>match\<close> on the parts from \<open>bi\<close> and \<open>ri\<close> on, and the test after it.\<close>

fun match_parts :: "string list \<Rightarrow> string list \<Rightarrow> bool" where
  "match_parts (btoken # bs) (rtoken # rs) =
     (if btoken = rtoken then match_parts bs rs
      else if btoken = ''*'' then match_parts bs rs
      else if btoken = ''#'' then bs = []
      else False)"
| "match_parts bs rs = (if bs = [''#''] then True else bs = [] \<and> rs = [])"

definition topic_match :: "string \<Rightarrow> string \<Rightarrow> bool" where
  "topic_match bindingKey routingKey =
     match_parts (Split CHR ''.'' bindingKey) (Split CHR ''.'' routingKey)"

fun topic_loop :: "string \<Rightarrow> binding list \<Rightarrow> string list" where
  "topic_loop routingKey [] = []"
| "topic_loop routingKey (b # bs) =
     (if topic_match (BindingKey b) routingKey then QueueName b # topic_loop routingKey bs
      else topic_loop routingKey bs)"

definition topic_Route :: "string \<Rightarrow> base_exchange \<Rightarrow> string list" where
  "topic_Route routingKey e = topic_loop routingKey (ex_bindings e)"

subsection \<open>Exchanges of any kind\<close>

datatype exchange = Direct base_exchange | FanOut base_exchange | Topic base_exchange

fun ex_base :: "exchange \<Rightarrow> base_exchange" where
  "ex_base (Direct e) = e"
| "ex_base (FanOut e) = e"
| "ex_base (Topic e) = e"

fun with_base :: "base_exchange \<Rightarrow> exchange \<Rightarrow> exchange" where
  "with_base b (Direct e) = Direct b"
| "with_base b (FanOut e) = FanOut b"
| "with_base b (Topic e) = Topic b"

fun ex_Route :: "string \<Rightarrow> exchange \<Rightarrow> string list" where
  "ex_Route k (Direct e) = direct_Route k e"
| "ex_Route k (FanOut e) = fanout_Route k e"
| "ex_Route k (Topic e) = topic_Route k e"

definition ex_Bind :: "string \<Rightarrow> string \<Rightarrow> exchange \<Rightarrow> err option \<times> exchange" where
  "ex_Bind k q e = (let (r, b) = be_Bind k q (ex_base e) in (r, with_base b e))"

definition ex_Unbind :: "string \<Rightarrow> string \<Rightarrow> exchange \<Rightarrow> err option \<times> exchange" where
  "ex_Unbind k q e = (let (r, b) = be_Unbind k q (ex_base e) in (r, with_base b e))"

definition ex_ListBindings :: "exchange \<Rightarrow> binding list" where
  "ex_ListBindings e = be_ListBindings (ex_base e)"

definition NewDirectExchange :: "string \<Rightarrow> exchange" where
  "NewDirectExchange name = Direct (NewBaseExchange name)"

definition NewFanOutExchange :: "string \<Rightarrow> exchange" where
  "NewFanOutExchange name = FanOut (NewBaseExchange name)"

definition NewTopicExchange :: "string \<Rightarrow> exchange" where
  "NewTopicExchange name = Topic (NewBaseExchange name)"

definition NewExchangeFactory :: "string \<Rightarrow> exchange_type \<Rightarrow> exchange" where
  "NewExchangeFactory exchangeName exchangeType =
     (case exchangeType of
        FanOutExchange \<Rightarrow> NewFanOutExchange exchangeName
      | TopicExchange \<Rightarrow> NewTopicExchange exchangeName
      | _ \<Rightarrow> NewDirectExchange exchangeName)"

subsection \<open>The interface\<close>

definition unbinds :: "string \<Rightarrow> string \<Rightarrow> binding \<Rightarrow> bool" where
  "unbinds k q b \<longleftrightarrow> QueueName b = q \<and> (k = '''' \<or> BindingKey b = k)"

locale exchange_interface =
  fixes route :: "string \<Rightarrow> 'e \<Rightarrow> string list"
    and bind :: "string \<Rightarrow> string \<Rightarrow> 'e \<Rightarrow> err option \<times> 'e"
    and unbind :: "string \<Rightarrow> string \<Rightarrow> 'e \<Rightarrow> err option \<times> 'e"
    and bindings :: "'e \<Rightarrow> binding list"
    and accepts :: "'e \<Rightarrow> string \<Rightarrow> string \<Rightarrow> bool"
  assumes route_law: "route k e = map QueueName (filter (\<lambda>b. accepts e (BindingKey b) k) (bindings e))"
    and bind_law: "bind k q e = (r, e') \<Longrightarrow>
      if \<lparr>QueueName = q, BindingKey = k\<rparr> \<in> set (bindings e) then r = Some ErrBindingAlreadyExist \<and> e' = e
      else r = None \<and> bindings e' = bindings e @ [\<lparr>QueueName = q, BindingKey = k\<rparr>] \<and> accepts e' = accepts e"
    and unbind_law: "unbind k q e = (r, e') \<Longrightarrow>
      if \<exists>b \<in> set (bindings e). unbinds k q b
      then r = None \<and> bindings e' = DeleteFunc (bindings e) (unbinds k q) \<and> accepts e' = accepts e
      else r = Some ErrBindingNotExist \<and> e' = e"
begin

lemma route_bound: "q \<in> set (route k e) \<Longrightarrow> q \<in> QueueName ` set (bindings e)"
  by (auto simp: route_law)

lemma bind_distinct: "bind k q e = (r, e') \<Longrightarrow> distinct (bindings e) \<Longrightarrow> distinct (bindings e')"
  using bind_law [of k q e r e'] by (auto split: if_splits)

lemma unbind_distinct: "unbind k q e = (r, e') \<Longrightarrow> distinct (bindings e) \<Longrightarrow> distinct (bindings e')"
  using unbind_law [of k q e r e'] by (auto split: if_splits)

lemma bind_route:
  "bind k q e = (None, e') \<Longrightarrow> route x e' = route x e @ (if accepts e k x then [q] else [])"
  using bind_law [of k q e None e'] by (auto simp: route_law split: if_splits)

lemma unbind_all_gone: "unbind '''' q e = (r, e') \<Longrightarrow> q \<notin> set (route k e')"
  using unbind_law [of "''''" q e r e'] by (auto simp: route_law unbinds_def split: if_splits)

lemma unbind_other:
  "unbind k q e = (r, e') \<Longrightarrow> p \<noteq> q \<Longrightarrow> p \<in> set (route x e') \<longleftrightarrow> p \<in> set (route x e)"
  using unbind_law [of k q e r e'] by (auto simp: route_law unbinds_def split: if_splits)

lemma unbind_bind:
  assumes "bind k q e = (None, e1)" and "k \<noteq> ''''" and "distinct (bindings e)"
  shows "\<exists>e2. unbind k q e1 = (None, e2) \<and> bindings e2 = bindings e"
proof -
  let ?b = "\<lparr>QueueName = q, BindingKey = k\<rparr>"
  from bind_law [OF assms(1)] have b: "?b \<notin> set (bindings e)" "bindings e1 = bindings e @ [?b]"
    by (auto split: if_splits)
  obtain r e2 where u: "unbind k q e1 = (r, e2)" by (cases "unbind k q e1")
  have ub: "unbinds k q x \<longleftrightarrow> x = ?b" for x :: binding
    using assms(2) by (cases x) (auto simp: unbinds_def)
  from unbind_law [OF u] b ub have "r = None \<and> bindings e2 = DeleteFunc (bindings e @ [?b]) (unbinds k q)"
    by (auto split: if_splits)
  moreover have "DeleteFunc (bindings e) (unbinds k q) = bindings e"
    using b(1) ub by (intro DeleteFunc_none) auto
  ultimately show ?thesis using u ub by simp
qed

end

lemma bound_exactly_iff:
  "bound_exactly k q bs \<longleftrightarrow> \<lparr>QueueName = q, BindingKey = k\<rparr> \<in> set bs"
proof (induction bs)
  case (Cons b bs)
  then show ?case by (cases b) auto
qed simp

lemma bound_somehow_iff: "bound_somehow k q bs \<longleftrightarrow> (\<exists>b \<in> set bs. unbinds k q b)"
  by (induction bs) (auto simp: unbinds_def)

lemma be_Bind_law:
  assumes "be_Bind k q e = (r, e')"
  shows "if \<lparr>QueueName = q, BindingKey = k\<rparr> \<in> set (be_ListBindings e) then r = Some ErrBindingAlreadyExist \<and> e' = e
    else r = None \<and> be_ListBindings e' = be_ListBindings e @ [\<lparr>QueueName = q, BindingKey = k\<rparr>]"
  using assms
  by (auto simp: be_Bind_def be_ListBindings_def checkBindingExists_def bound_exactly_iff split: if_splits)

lemma be_Unbind_law:
  assumes "be_Unbind k q e = (r, e')"
  shows "if \<exists>b \<in> set (be_ListBindings e). unbinds k q b
    then r = None \<and> be_ListBindings e' = DeleteFunc (be_ListBindings e) (unbinds k q)
    else r = Some ErrBindingNotExist \<and> e' = e"
proof -
  have "(\<lambda>b. if k \<noteq> '''' then BindingKey b = k \<and> QueueName b = q else QueueName b = q) = unbinds k q"
    by (auto simp: unbinds_def fun_eq_iff)
  with assms show ?thesis
    by (auto simp: be_Unbind_def be_ListBindings_def hasBinding_def bound_somehow_iff split: if_splits)
qed

lemma direct_loop_filter: "direct_loop k bs = map QueueName (filter (\<lambda>b. BindingKey b = k) bs)"
  by (induction bs) simp_all

lemma topic_loop_filter: "topic_loop k bs = map QueueName (filter (\<lambda>b. topic_match (BindingKey b) k) bs)"
  by (induction bs) simp_all

lemmas route_defs = direct_Route_def fanout_Route_def topic_Route_def direct_loop_filter topic_loop_filter
  be_ListBindings_def

interpretation dir: exchange_interface direct_Route be_Bind be_Unbind be_ListBindings "\<lambda>_ b k. b = k"
  by unfold_locales (auto simp: route_defs dest: be_Bind_law be_Unbind_law split: if_splits)

interpretation fan: exchange_interface fanout_Route be_Bind be_Unbind be_ListBindings "\<lambda>_ b k. True"
  by unfold_locales (auto simp: route_defs dest: be_Bind_law be_Unbind_law split: if_splits)

interpretation top: exchange_interface topic_Route be_Bind be_Unbind be_ListBindings "\<lambda>_ b k. topic_match b k"
  by unfold_locales (auto simp: route_defs dest: be_Bind_law be_Unbind_law split: if_splits)

fun ex_accepts :: "exchange \<Rightarrow> string \<Rightarrow> string \<Rightarrow> bool" where
  "ex_accepts (Direct _) b k \<longleftrightarrow> b = k"
| "ex_accepts (FanOut _) b k \<longleftrightarrow> True"
| "ex_accepts (Topic _) b k \<longleftrightarrow> topic_match b k"

lemma with_base_simps [simp]:
  "ex_base (with_base b e) = b" "ex_accepts (with_base b e) = ex_accepts e" "with_base (ex_base e) e = e"
  by (cases e; simp add: fun_eq_iff)+

interpretation exc: exchange_interface ex_Route ex_Bind ex_Unbind ex_ListBindings ex_accepts
proof
  fix k e
  show "ex_Route k e = map QueueName (filter (\<lambda>b. ex_accepts e (BindingKey b) k) (ex_ListBindings e))"
    by (cases e) (simp_all add: ex_ListBindings_def dir.route_law fan.route_law top.route_law)
next
  fix k q e r e'
  assume "ex_Bind k q e = (r, e')"
  then obtain b where "be_Bind k q (ex_base e) = (r, b)" "e' = with_base b e"
    by (auto simp: ex_Bind_def split: prod.splits)
  with be_Bind_law [OF this(1)] show "if \<lparr>QueueName = q, BindingKey = k\<rparr> \<in> set (ex_ListBindings e)
      then r = Some ErrBindingAlreadyExist \<and> e' = e
      else r = None \<and> ex_ListBindings e' = ex_ListBindings e @ [\<lparr>QueueName = q, BindingKey = k\<rparr>]
        \<and> ex_accepts e' = ex_accepts e"
    by (auto simp: ex_ListBindings_def split: if_splits)
next
  fix k q e r e'
  assume "ex_Unbind k q e = (r, e')"
  then obtain b where "be_Unbind k q (ex_base e) = (r, b)" "e' = with_base b e"
    by (auto simp: ex_Unbind_def split: prod.splits)
  with be_Unbind_law [OF this(1)] show "if \<exists>b \<in> set (ex_ListBindings e). unbinds k q b
      then r = None \<and> ex_ListBindings e' = DeleteFunc (ex_ListBindings e) (unbinds k q) \<and> ex_accepts e' = ex_accepts e
      else r = Some ErrBindingNotExist \<and> e' = e"
    by (auto simp: ex_ListBindings_def split: if_splits)
qed

lemma factory_empty: "ex_ListBindings (NewExchangeFactory name ty) = []"
  by (cases ty) (simp_all add: NewExchangeFactory_def NewDirectExchange_def NewFanOutExchange_def
      NewTopicExchange_def ex_ListBindings_def NewBaseExchange_def be_ListBindings_def)

subsection \<open>Topic patterns\<close>

text \<open>What the documentation says of a pattern: a star is one segment, a hash any number of them.\<close>

inductive topic_matches :: "string list \<Rightarrow> string list \<Rightarrow> bool" where
  empty: "topic_matches [] []"
| word: "topic_matches bs rs \<Longrightarrow> topic_matches (w # bs) (w # rs)"
| star: "topic_matches bs rs \<Longrightarrow> topic_matches (''*'' # bs) (w # rs)"
| hash_none: "topic_matches bs rs \<Longrightarrow> topic_matches (''#'' # bs) rs"
| hash_more: "topic_matches (''#'' # bs) rs \<Longrightarrow> topic_matches (''#'' # bs) (w # rs)"

inductive_cases topic_matches_nil: "topic_matches [] rs"
inductive_cases topic_matches_cons: "topic_matches (b # bs) rs"
inductive_cases topic_matches_end: "topic_matches bs []"

definition hash_last :: "string list \<Rightarrow> bool" where
  "hash_last bs \<longleftrightarrow> ''#'' \<notin> set (butlast bs)"

lemma hash_last_Cons: "hash_last (b # bs) \<Longrightarrow> hash_last bs \<and> (b = ''#'' \<longrightarrow> bs = [])"
  by (cases bs) (auto simp: hash_last_def split: if_splits)

lemma hash_matches_all: "topic_matches [''#''] rs"
  by (induction rs) (auto intro: topic_matches.intros)

lemma match_parts_sound: "match_parts bs rs \<Longrightarrow> topic_matches bs rs"
  by (induction bs rs rule: match_parts.induct)
    (auto intro: topic_matches.intros hash_matches_all split: if_splits)

lemma match_parts_complete:
  "topic_matches bs rs \<Longrightarrow> hash_last bs \<Longrightarrow> ''#'' \<notin> set rs \<Longrightarrow> match_parts bs rs"
proof (induction rule: topic_matches.induct)
  case (hash_none bs rs)
  then have "bs = []" using hash_last_Cons by blast
  with hash_none.hyps have "rs = []" by (auto elim: topic_matches_nil)
  with \<open>bs = []\<close> show ?case by simp
next
  case (hash_more bs rs w)
  then have "bs = []" using hash_last_Cons by blast
  with hash_more.prems(2) show ?case by simp
qed (auto dest: hash_last_Cons)

subsection \<open>Properties\<close>



text \<open>
  A hash in a routing key defeats a hash in the pattern: \<open>match\<close> compares the two
  segments for equality first, so the pattern of a single hash does not accept the routing
  key ``#.a'', although a hash stands for any number of segments.
\<close>

theorem hash_in_routing_key_not_matched:
  "\<not> topic_match ''#'' ''#.a'' \<and> topic_matches (Split CHR ''.'' ''#'') (Split CHR ''.'' ''#.a'')"
  using hash_matches_all [of "Split CHR ''.'' ''#.a''"] by (simp add: topic_match_def)

text \<open>
  C21. Binding and unbinding, for each kind of exchange: a successful \<open>Bind\<close> adds its queue at
  the end of the routes of exactly the routing keys that the binding key accepts and of no
  other; unbinding the same key gives the bindings back as they were; unbinding with the
  empty key removes the queue from every route and leaves every other queue's routes alone.
\<close>

theorem bind_unbind_routes:
  assumes "ex_Bind k q e = (None, e1)" and "k \<noteq> ''''" and "distinct (ex_ListBindings e)"
    and "ex_Unbind '''' q e1 = (r, e2)"
  shows "(\<forall>x. ex_Route x e1 = ex_Route x e @ (if ex_accepts e k x then [q] else []))
    \<and> (\<exists>e0. ex_Unbind k q e1 = (None, e0) \<and> ex_ListBindings e0 = ex_ListBindings e)
    \<and> (\<forall>x. q \<notin> set (ex_Route x e2)) \<and> r = None
    \<and> (\<forall>x p. p \<noteq> q \<longrightarrow> (p \<in> set (ex_Route x e2) \<longleftrightarrow> p \<in> set (ex_Route x e)))"
proof (intro conjI allI impI)
  have "\<lparr>QueueName = q, BindingKey = k\<rparr> \<in> set (ex_ListBindings e1)"
    using exc.bind_law [OF assms(1)] by (auto split: if_splits)
  moreover have "unbinds '''' q \<lparr>QueueName = q, BindingKey = k\<rparr>" by (simp add: unbinds_def)
  ultimately have "\<exists>b \<in> set (ex_ListBindings e1). unbinds '''' q b" by blast
  with exc.unbind_law [OF assms(4)] show "r = None" by simp
  show "p \<in> set (ex_Route x e2) \<longleftrightarrow> p \<in> set (ex_Route x e)" if "p \<noteq> q" for x p
    using exc.unbind_other [OF assms(4) that] exc.bind_route [OF assms(1), of x] that by auto
qed (simp_all add: exc.bind_route [OF assms(1)] exc.unbind_bind [OF assms(1-3)] exc.unbind_all_gone [OF assms(4)])

theorem bind_unbind_routes_witness:
  "\<exists>e1 e2. ex_Bind ''a.*'' ''q'' (NewTopicExchange ''t'') = (None, e1) \<and> ex_Unbind '''' ''q'' e1 = (None, e2)
     \<and> ex_Route ''a.b'' e1 = [''q''] \<and> ex_Route ''a'' e1 = [] \<and> ''q'' \<notin> set (ex_Route ''a.b'' e2)"
proof -
  obtain e1 where e1: "ex_Bind ''a.*'' ''q'' (NewTopicExchange ''t'') = (None, e1)"
    by (simp add: ex_Bind_def be_Bind_def checkBindingExists_def NewTopicExchange_def NewBaseExchange_def)
  obtain r e2 where e2: "ex_Unbind '''' ''q'' e1 = (r, e2)" by (cases "ex_Unbind '''' ''q'' e1")
  have "ex_ListBindings (NewTopicExchange ''t'') = []"
    by (simp add: ex_ListBindings_def NewTopicExchange_def NewBaseExchange_def be_ListBindings_def)
  with bind_unbind_routes [OF e1 _ _ e2] e1 e2 show ?thesis
    by (auto simp: NewTopicExchange_def topic_match_def topic_Route_def NewBaseExchange_def)
qed

end
