(* ===== verification/Names.thy ===== *)
theory Names
  imports Exchanges
begin

text \<open>
  The checks of \<open>internal/engine/mem_broker.go\<close> on the names that clients send: queue names,
  exchange names and types, binding keys. A Go string is a list of bytes; \<open>len\<close> counts bytes,
  while \<open>range\<close> over a string visits runes, so the UTF-8 decoder of the language is modelled:
  an ill-formed sequence gives the rune U+FFFD and consumes one byte.
\<close>

subsection \<open>Runes\<close>

definition byte :: "char \<Rightarrow> int" where
  "byte c = of_char c"

definition continuation :: "int \<Rightarrow> bool" where
  "continuation b \<longleftrightarrow> 128 \<le> b \<and> b \<le> 191"

fun three_ok :: "int \<Rightarrow> int \<Rightarrow> bool" where
  "three_ok b0 b1 \<longleftrightarrow> (if b0 = 224 then 160 \<le> b1 \<and> b1 \<le> 191
     else if b0 = 237 then 128 \<le> b1 \<and> b1 \<le> 159 else continuation b1)"

fun four_ok :: "int \<Rightarrow> int \<Rightarrow> bool" where
  "four_ok b0 b1 \<longleftrightarrow> (if b0 = 240 then 144 \<le> b1 \<and> b1 \<le> 191
     else if b0 = 244 then 128 \<le> b1 \<and> b1 \<le> 143 else continuation b1)"

definition RuneError :: int where
  "RuneError = 65533"

fun decode_rune :: "int list \<Rightarrow> int \<times> nat" where
  "decode_rune [] = (RuneError, 0)"
| "decode_rune (b0 # bs) =
     (if b0 < 128 then (b0, 1)
      else if 194 \<le> b0 \<and> b0 \<le> 223 then
        (case bs of
           b1 # _ \<Rightarrow> if continuation b1 then ((b0 - 192) * 64 + (b1 - 128), 2) else (RuneError, 1)
         | _ \<Rightarrow> (RuneError, 1))
      else if 224 \<le> b0 \<and> b0 \<le> 239 then
        (case bs of
           b1 # b2 # _ \<Rightarrow>
             if three_ok b0 b1 \<and> continuation b2
             then ((b0 - 224) * 4096 + (b1 - 128) * 64 + (b2 - 128), 3) else (RuneError, 1)
         | _ \<Rightarrow> (RuneError, 1))
      else if 240 \<le> b0 \<and> b0 \<le> 244 then
        (case bs of
           b1 # b2 # b3 # _ \<Rightarrow>
             if four_ok b0 b1 \<and> continuation b2 \<and> continuation b3
             then ((b0 - 240) * 262144 + (b1 - 128) * 4096 + (b2 - 128) * 64 + (b3 - 128), 4)
             else (RuneError, 1)
         | _ \<Rightarrow> (RuneError, 1))
      else (RuneError, 1))"

declare decode_rune.simps(2) [simp del]

lemma decode_rune_width: "0 < snd (decode_rune (b # bs))"
  by (auto simp: decode_rune.simps(2) split: list.splits)

function runes :: "int list \<Rightarrow> int list" where
  "runes [] = []"
| "runes (b # bs) = (let (r, n) = decode_rune (b # bs) in r # runes (drop n (b # bs)))"
  by pat_completeness auto
termination
proof (relation "measure length")
  fix b bs x r n
  assume "x = decode_rune (b # bs)" "(r, n) = x"
  then have "n = snd (decode_rune (b # bs))" by (metis snd_conv)
  with decode_rune_width [of b bs] show "(drop n (b # bs), b # bs) \<in> measure length" by simp
qed simp

subsection \<open>The checks\<close>

definition validateQueueName :: "string \<Rightarrow> err option" where
  "validateQueueName name = (if name = '''' \<or> length name > 255 then Some ErrInvalidQueue else None)"

definition validateExchangeName :: "string \<Rightarrow> err option" where
  "validateExchangeName name =
     (if name = '''' \<or> length name > 255 then Some ErrInvalidExchange
      else if name = DefaultExchangeName then Some ErrDefaultExchange
      else None)"

definition validateExchangeType :: "string \<Rightarrow> err + exchange_type" where
  "validateExchangeType name =
     (if length name > 255 then Inl ErrInvalidExchangeType
      else if name = '''' then Inl ErrInvalidExchangeType
      else if name = exchange_type_string FanOutExchange then Inr FanOutExchange
      else if name = exchange_type_string TopicExchange then Inr TopicExchange
      else if name = exchange_type_string DirectExchange then Inr DirectExchange
      else Inl ErrInvalidExchangeType)"

definition isValidBindingKeyChar :: "int \<Rightarrow> bool" where
  "isValidBindingKeyChar r \<longleftrightarrow> (97 \<le> r \<and> r \<le> 122) \<or> (65 \<le> r \<and> r \<le> 90) \<or> (48 \<le> r \<and> r \<le> 57)
     \<or> r = 95 \<or> r = 45"

fun valid_segments :: "string list \<Rightarrow> bool" where
  "valid_segments [] = True"
| "valid_segments (segment # segments) =
     (if segment = '''' then False
      else if segment = ''#'' then (if segments \<noteq> [] then False else valid_segments segments)
      else if segment = ''*'' then valid_segments segments
      else if list_ex (\<lambda>r. \<not> isValidBindingKeyChar r) (runes (map byte segment)) then False
      else valid_segments segments)"

definition validateBindingKey :: "string \<Rightarrow> err option" where
  "validateBindingKey bindingKey =
     (if bindingKey = '''' \<or> length bindingKey > 255 then Some ErrInvalidBindingKey
      else if valid_segments (Split CHR ''.'' bindingKey) then None
      else Some ErrInvalidBindingKey)"

subsection \<open>What they accept\<close>

lemma decode_rune_ascii: "b < 128 \<Longrightarrow> decode_rune (b # bs) = (b, 1)"
  by (simp add: decode_rune.simps(2))

lemma decode_rune_high: "128 \<le> b \<Longrightarrow> 128 \<le> fst (decode_rune (b # bs))"
  by (auto simp: decode_rune.simps(2) RuneError_def continuation_def split: list.splits)

lemma valid_char_ascii: "isValidBindingKeyChar r \<Longrightarrow> r < 128"
  by (auto simp: isValidBindingKeyChar_def)

text \<open>Every byte of a rune outside ASCII is refused, so checking runes is checking bytes.\<close>

lemma runes_valid:
  "list_all isValidBindingKeyChar (runes bs) \<longleftrightarrow> list_all isValidBindingKeyChar bs"
proof (induction bs)
  case (Cons b bs)
  show ?case
  proof (cases "b < 128")
    case True
    with Cons show ?thesis by (simp add: decode_rune_ascii)
  next
    case False
    then have "\<not> isValidBindingKeyChar (fst (decode_rune (b # bs)))" "\<not> isValidBindingKeyChar b"
      using decode_rune_high [of b bs] valid_char_ascii by fastforce+
    then show ?thesis by (cases "decode_rune (b # bs)") simp
  qed
qed simp

lemma list_ex_not: "list_ex (\<lambda>x. \<not> P x) xs \<longleftrightarrow> \<not> list_all P xs"
  by (induction xs) auto

definition plain_segment :: "string \<Rightarrow> bool" where
  "plain_segment s \<longleftrightarrow> s \<noteq> '''' \<and> (\<forall>c \<in> set s. isValidBindingKeyChar (byte c))"

lemma valid_segments_iff:
  "valid_segments ss \<longleftrightarrow> hash_last ss \<and> (\<forall>s \<in> set ss. s = ''#'' \<or> s = ''*'' \<or> plain_segment s)"
proof (induction ss)
  case Nil
  then show ?case by (simp add: hash_last_def)
next
  case (Cons s ss)
  have runes: "list_ex (\<lambda>r. \<not> isValidBindingKeyChar r) (runes (map byte s)) \<longleftrightarrow>
      \<not> (\<forall>c \<in> set s. isValidBindingKeyChar (byte c))"
    by (simp only: list_ex_not runes_valid) (simp add: list_all_iff)
  have hl: "hash_last (s # ss) \<longleftrightarrow> hash_last ss \<and> (s = ''#'' \<longrightarrow> ss = [])"
    by (cases ss) (auto simp: hash_last_def)
  show ?case using Cons runes hl by (auto simp: plain_segment_def)
qed

text \<open>
  C22. Binding keys: \<open>validateBindingKey\<close> accepts exactly the keys of 1 to 255 bytes whose
  dot-separated segments are each a star, a hash (in the last place only) or a non-empty
  run of ASCII letters, digits, underscores and hyphens; decoding UTF-8 runes lets nothing
  else through.
\<close>

theorem validateBindingKey_accepts:
  "validateBindingKey k = None \<longleftrightarrow>
     1 \<le> length k \<and> length k \<le> 255 \<and> hash_last (Split CHR ''.'' k)
     \<and> (\<forall>s \<in> set (Split CHR ''.'' k). s = ''#'' \<or> s = ''*''
         \<or> s \<noteq> '''' \<and> (\<forall>c \<in> set s. isValidBindingKeyChar (byte c)))"
  by (auto simp: validateBindingKey_def valid_segments_iff plain_segment_def Suc_le_eq)

theorem validateBindingKey_accepts_witness:
  "validateBindingKey ''orders.*.#'' = None \<and> length ''orders.*.#'' \<le> 255
   \<and> hash_last (Split CHR ''.'' ''orders.*.#'') \<and> validateBindingKey ''a.#.b'' \<noteq> None"
proof -
  have "validateBindingKey ''orders.*.#'' = None" "validateBindingKey ''a.#.b'' \<noteq> None" by code_simp+
  with validateBindingKey_accepts [of "''orders.*.#''"] show ?thesis by blast
qed

end
