(* ===== verification/Broker.thy ===== *)
theory Broker
  imports Queue_Properties Names
begin

text \<open>
  The broker of \<open>internal/engine/mem_broker.go\<close> and its recovery in \<open>internal/engine/broker.go\<close>.

  Queue runtimes are heap objects: \<open>b_queues\<close> maps a name to an address, \<open>b_runtimes\<close> the address
  to the runtime, \<open>w_tokenOwners\<close> (in the shared world) a token to the address of the queue that
  issued it. \<open>b_workers\<close> lists the addresses whose goroutines \<open>startQueue\<close> has launched.

  Where the code ranges over a map and the order can be seen (the log records of \<open>DeleteQueue\<close>
  and of recovery) the order is an argument; elsewhere the list order is used. A result \<open>None\<close>
  is a run-time panic.
\<close>

subsection \<open>State\<close>

record broker =
  b_started :: bool
  b_closed :: bool
  b_cfg :: config
  b_world :: world
  b_runtimes :: "nat \<Rightarrow> queue_runtime option"
  b_next :: nat
  b_queues :: "nat gomap"
  b_exchanges :: "exchange gomap"
  b_workers :: "nat list"
  b_cancelled :: bool

type_synonym reply = "(err option \<times> broker) option"

definition b_Append :: "log_record \<Rightarrow> broker \<Rightarrow> err option \<times> broker" where
  "b_Append r b = (let (e, w) = w_Append r (b_world b) in (e, b\<lparr>b_world := w\<rparr>))"

definition set_runtime :: "nat \<Rightarrow> world \<Rightarrow> queue_runtime \<Rightarrow> broker \<Rightarrow> broker" where
  "set_runtime a w q b = b\<lparr>b_world := w, b_runtimes := (b_runtimes b)(a \<mapsto> q)\<rparr>"

definition NewInMemoryBroker :: "config \<Rightarrow> world \<Rightarrow> broker" where
  "NewInMemoryBroker cfg w =
     \<lparr>b_started = False, b_closed = False, b_cfg = cfg, b_world = w, b_runtimes = (\<lambda>_. None), b_next = 0,
      b_queues = [],
      b_exchanges = [(DefaultExchangeName, NewDirectExchange DefaultExchangeName)],
      b_workers = [], b_cancelled = False\<rparr>"

text \<open>\<open>add_queue\<close>: \<open>b.queues[name] = b.newQueueRuntime(name, messages)\<close>; the address is new.\<close>

definition add_queue :: "string \<Rightarrow> message list \<Rightarrow> broker \<Rightarrow> (nat \<times> broker) option" where
  "add_queue name messages b =
     (case newQueueRuntime (b_cfg b) (b_next b) name messages of
        None \<Rightarrow> None
      | Some q \<Rightarrow> Some (b_next b, b\<lparr>b_runtimes := (b_runtimes b)(b_next b \<mapsto> q), b_next := b_next b + 1,
          b_queues := gm_put name (b_next b) (b_queues b)\<rparr>))"

definition startQueue :: "nat \<Rightarrow> broker \<Rightarrow> broker" where
  "startQueue a b = b\<lparr>b_workers := b_workers b @ [a]\<rparr>"

subsection \<open>Queues\<close>

definition CreateQueue :: "string \<Rightarrow> broker \<Rightarrow> reply" where
  "CreateQueue name b =
     (case validateQueueName name of
        Some e \<Rightarrow> Some (Some e, b)
      | None \<Rightarrow>
          if b_closed b then Some (Some ErrBrokerClosed, b)
          else if map_of (b_queues b) name \<noteq> None then Some (Some ErrQueueExists, b)
          else
            (case b_Append (zero_record\<lparr>r_Type := QueueCreated, r_Queue := name\<rparr>) b of
               (Some e, b1) \<Rightarrow> Some (Some e, b1)
             | (None, b1) \<Rightarrow>
                 (case add_queue name [] b1 of
                    None \<Rightarrow> None
                  | Some (a, b2) \<Rightarrow> Some (None, if b_started b2 then startQueue a b2 else b2))))"

fun unbind_everywhere :: "string list \<Rightarrow> string \<Rightarrow> broker \<Rightarrow> err option \<times> broker" where
  "unbind_everywhere [] name b = (None, b)"
| "unbind_everywhere (exchangeName # order) name b =
     (case map_of (b_exchanges b) exchangeName of
        None \<Rightarrow> unbind_everywhere order name b
      | Some exchange \<Rightarrow>
          (case ex_Unbind '''' name exchange of
             (Some e, _) \<Rightarrow>
               if e = ErrBindingNotExist then unbind_everywhere order name b else (Some e, b)
           | (None, exchange') \<Rightarrow>
               (case b_Append (zero_record\<lparr>r_Type := QueueUnbinded, r_Exchange := exchangeName, r_Queue := name\<rparr>)
                       (b\<lparr>b_exchanges := gm_put exchangeName exchange' (b_exchanges b)\<rparr>) of
                  (Some e, b1) \<Rightarrow> (Some e, b1)
                | (None, b1) \<Rightarrow> unbind_everywhere order name b1)))"

definition forget_tokens :: "nat \<Rightarrow> broker \<Rightarrow> broker" where
  "forget_tokens a b = b\<lparr>b_world := (b_world b)\<lparr>w_tokenOwners :=
     filter (\<lambda>p. snd p \<noteq> a) (w_tokenOwners (b_world b))\<rparr>\<rparr>"

definition DeleteQueue :: "string list \<Rightarrow> string \<Rightarrow> broker \<Rightarrow> reply" where
  "DeleteQueue order name b =
     (if name = DefaultQueueName then Some (Some ErrInvalidQueue, b)
      else
        (case map_of (b_queues b) name of
           None \<Rightarrow> Some (Some ErrQueueNotFound, b)
         | Some a \<Rightarrow>
             (case b_runtimes b a of
                None \<Rightarrow> None
              | Some runtime \<Rightarrow>
                  (case CloseIfEmpty (b_world b) runtime of
                     (False, w, q) \<Rightarrow> Some (Some ErrQueueNotEmpty, set_runtime a w q b)
                   | (True, w, q) \<Rightarrow>
                       (case b_Append (zero_record\<lparr>r_Type := QueueDeleted, r_Queue := name\<rparr>)
                               (set_runtime a w q b) of
                          (Some e, b1) \<Rightarrow> Some (Some e, b1)
                        | (None, b1) \<Rightarrow>
                            (case unbind_everywhere order name
                                    (b1\<lparr>b_queues := gm_del name (b_queues b1)\<rparr>) of
                               (Some e, b2) \<Rightarrow> Some (Some e, b2)
                             | (None, b2) \<Rightarrow>
                                 let (w2, q2) = qr_Shutdown (b_world b2) q
                                 in Some (None, forget_tokens a (set_runtime a w2 q2 b2))))))))"

definition ListQueues :: "broker \<Rightarrow> string list" where
  "ListQueues b = sort (map fst (b_queues b))"

subsection \<open>Bindings\<close>

definition BindQueue :: "string \<Rightarrow> string \<Rightarrow> string \<Rightarrow> broker \<Rightarrow> err option \<times> broker" where
  "BindQueue exchangeName queueName bindingKey b =
     (case validateBindingKey bindingKey of
        Some e \<Rightarrow> (Some e, b)
      | None \<Rightarrow>
          (case map_of (b_exchanges b) exchangeName of
             None \<Rightarrow> (Some ErrExchangeNotFound, b)
           | Some exchange \<Rightarrow>
               if map_of (b_queues b) queueName = None then (Some ErrQueueNotFound, b)
               else
                 (case ex_Bind bindingKey queueName exchange of
                    (Some e, _) \<Rightarrow> (Some e, b)
                  | (None, exchange') \<Rightarrow>
                      b_Append (zero_record\<lparr>r_Type := QueueBinded, r_Exchange := exchangeName,
                                  r_Queue := queueName, r_BindingKey := bindingKey\<rparr>)
                        (b\<lparr>b_exchanges := gm_put exchangeName exchange' (b_exchanges b)\<rparr>))))"

definition UnbindQueue :: "string \<Rightarrow> string \<Rightarrow> string \<Rightarrow> broker \<Rightarrow> err option \<times> broker" where
  "UnbindQueue exchangeName queueName bindingKey b =
     (case map_of (b_exchanges b) exchangeName of
        None \<Rightarrow> (Some ErrExchangeNotFound, b)
      | Some exchange \<Rightarrow>
          if map_of (b_queues b) queueName = None then (Some ErrQueueNotFound, b)
          else
            (case ex_Unbind bindingKey queueName exchange of
               (Some e, _) \<Rightarrow> (Some e, b)
             | (None, exchange') \<Rightarrow>
                 b_Append (zero_record\<lparr>r_Type := QueueUnbinded, r_Exchange := exchangeName,
                             r_Queue := queueName, r_BindingKey := bindingKey\<rparr>)
                   (b\<lparr>b_exchanges := gm_put exchangeName exchange' (b_exchanges b)\<rparr>)))"

definition find_queue :: "string \<Rightarrow> broker \<Rightarrow> err + nat" where
  "find_queue name b =
     (let name = (if name = '''' then DefaultQueueName else name)
      in if b_closed b then Inl ErrBrokerClosed
         else case map_of (b_queues b) name of None \<Rightarrow> Inl ErrQueueNotFound | Some a \<Rightarrow> Inr a)"

subsection \<open>Messages\<close>

text \<open>
  A publisher that finds a queue full waits in the runtime's condition variable. \<open>PubBlocked a qs\<close>
  is a \<open>Publish\<close> that waits inside \<open>runtime.Publish\<close> of the runtime at \<open>a\<close> and has to serve
  \<open>qs\<close> after it; \<open>publish_wake\<close> continues it when the condition variable is signalled.
\<close>

datatype pub_result = PubDone "err option" | PubBlocked nat "string list"

fun publish_loop :: "message \<Rightarrow> int \<Rightarrow> string list \<Rightarrow> broker \<Rightarrow> (pub_result \<times> broker) option" where
  "publish_loop payload ttl [] b = Some (PubDone None, b)"
| "publish_loop payload ttl (queueName # queueNames) b =
     (case find_queue queueName b of
        Inl e \<Rightarrow> Some (PubDone (Some e), b)
      | Inr a \<Rightarrow>
          (case b_runtimes b a of
             None \<Rightarrow> None
           | Some runtime \<Rightarrow>
               (case qr_Publish payload ttl (b_world b) runtime of
                  None \<Rightarrow> None
                | Some (Blocked, w, q) \<Rightarrow> Some (PubBlocked a queueNames, set_runtime a w q b)
                | Some (Refused e, w, q) \<Rightarrow> Some (PubDone (Some e), set_runtime a w q b)
                | Some (Accepted, w, q) \<Rightarrow> publish_loop payload ttl queueNames (set_runtime a w q b))))"

definition publish_wake :: "message \<Rightarrow> int \<Rightarrow> nat \<Rightarrow> string list \<Rightarrow> broker \<Rightarrow> (pub_result \<times> broker) option" where
  "publish_wake payload ttl a queueNames b =
     (case b_runtimes b a of
        None \<Rightarrow> None
      | Some runtime \<Rightarrow>
          (case qr_Publish payload ttl (b_world b) runtime of
             None \<Rightarrow> None
           | Some (Blocked, w, q) \<Rightarrow> Some (PubBlocked a queueNames, set_runtime a w q b)
           | Some (Refused e, w, q) \<Rightarrow> Some (PubDone (Some e), set_runtime a w q b)
           | Some (Accepted, w, q) \<Rightarrow> publish_loop payload ttl queueNames (set_runtime a w q b)))"

definition Publish :: "string \<Rightarrow> string \<Rightarrow> message \<Rightarrow> int \<Rightarrow> broker \<Rightarrow> (pub_result \<times> broker) option" where
  "Publish exchangeName routingKey payload ttl b =
     (case map_of (b_exchanges b) exchangeName of
        None \<Rightarrow> Some (PubDone (Some ErrExchangeNotFound), b)
      | Some exchange \<Rightarrow>
          let queueNames = ex_Route routingKey exchange
          in if length queueNames = 0 then Some (PubDone (Some ErrNoRoute), b)
             else publish_loop payload ttl queueNames b)"

definition Subscribe :: "string \<Rightarrow> nat \<Rightarrow> broker \<Rightarrow> reply" where
  "Subscribe queueName session b =
     (case find_queue queueName b of
        Inl e \<Rightarrow> Some (Some e, b)
      | Inr a \<Rightarrow>
          (case b_runtimes b a of
             None \<Rightarrow> None
           | Some runtime \<Rightarrow>
               (case qr_Subscribe session (b_world b) runtime of
                  None \<Rightarrow> None
                | Some (e, q) \<Rightarrow> Some (e, set_runtime a (b_world b) q b))))"

definition Unsubscribe :: "string \<Rightarrow> string \<Rightarrow> broker \<Rightarrow> broker option" where
  "Unsubscribe queueName sessionID b =
     (case find_queue queueName b of
        Inl e \<Rightarrow> Some b
      | Inr a \<Rightarrow>
          (case b_runtimes b a of
             None \<Rightarrow> None
           | Some runtime \<Rightarrow>
               (case qr_Unsubscribe sessionID (b_world b) runtime of (w, q) \<Rightarrow> Some (set_runtime a w q b))))"

definition Ack :: "string \<Rightarrow> broker \<Rightarrow> reply" where
  "Ack token b =
     (case map_of (w_tokenOwners (b_world b)) token of
        None \<Rightarrow> Some (Some ErrInvalidAckToken, b)
      | Some a \<Rightarrow>
          (case b_runtimes b a of
             None \<Rightarrow> None
           | Some runtime \<Rightarrow>
               (case qr_Ack token (b_world b) runtime of (e, w, q) \<Rightarrow> Some (e, set_runtime a w q b))))"

subsection \<open>Life cycle and metrics\<close>

definition Start :: "broker \<Rightarrow> broker" where
  "Start b =
     (if b_started b \<or> b_closed b then b
      else fold startQueue (map snd (b_queues b)) (b\<lparr>b_started := True\<rparr>))"

definition shutdown_runtime :: "nat \<Rightarrow> broker \<Rightarrow> broker" where
  "shutdown_runtime a b =
     (case b_runtimes b a of
        None \<Rightarrow> b
      | Some runtime \<Rightarrow> (case qr_Shutdown (b_world b) runtime of (w, q) \<Rightarrow> set_runtime a w q b))"

definition Shutdown :: "broker \<Rightarrow> broker" where
  "Shutdown b =
     (if b_closed b then b
      else
        let b1 = fold shutdown_runtime (map snd (b_queues b)) (b\<lparr>b_closed := True\<rparr>);
            b2 = (if b_started b1 then b1\<lparr>b_cancelled := True\<rparr> else b1)
        in b2\<lparr>b_world := (b_world b2)\<lparr>w_tokenOwners := []\<rparr>\<rparr>)"

definition add_metric :: "metric \<Rightarrow> metric \<Rightarrow> metric" where
  "add_metric m t =
     \<lparr>ProducedCount = ProducedCount t + ProducedCount m, AckedCount = AckedCount t + AckedCount m,
      DlqCount = DlqCount t + DlqCount m, InflightCount = InflightCount t + InflightCount m,
      RedeliveredCount = RedeliveredCount t + RedeliveredCount m,
      ConsumerSessionCount = ConsumerSessionCount t + ConsumerSessionCount m,
      QueueDepth = QueueDepth t + QueueDepth m\<rparr>"

fun metrics_loop :: "(string \<times> nat) list \<Rightarrow> broker \<Rightarrow> queue_metric list \<Rightarrow> metric \<Rightarrow>
    (queue_metric list \<times> metric) option" where
  "metrics_loop [] b qs totals = Some (qs, totals)"
| "metrics_loop ((name, a) # rest) b qs totals =
     (case b_runtimes b a of
        None \<Rightarrow> None
      | Some runtime \<Rightarrow>
          let m = qr_Metrics runtime
          in metrics_loop rest b (qs @ [\<lparr>qm_Name = name, qm_Metric = m\<rparr>]) (add_metric m totals))"

definition Metrics :: "broker \<Rightarrow> broker_metrics option" where
  "Metrics b =
     map_option (\<lambda>(qs, totals). \<lparr>bm_Queues = sort_key qm_Name qs, bm_Total = totals\<rparr>)
       (metrics_loop (b_queues b) b [] zero_metric)"

definition QueueMetrics :: "string \<Rightarrow> broker \<Rightarrow> (err + metric) option" where
  "QueueMetrics queueName b =
     (case find_queue queueName b of
        Inl e \<Rightarrow> Some (Inl e)
      | Inr a \<Rightarrow>
          (case b_runtimes b a of None \<Rightarrow> None | Some runtime \<Rightarrow> Some (Inr (qr_Metrics runtime))))"

subsection \<open>Exchanges\<close>

definition CreateExchange :: "string \<Rightarrow> string \<Rightarrow> broker \<Rightarrow> err option \<times> broker" where
  "CreateExchange exchangeName exchangeType b =
     (case validateExchangeName exchangeName of
        Some e \<Rightarrow> (Some e, b)
      | None \<Rightarrow>
          (case validateExchangeType exchangeType of
             Inl e \<Rightarrow> (Some e, b)
           | Inr validatedExchangeType \<Rightarrow>
               if map_of (b_exchanges b) exchangeName \<noteq> None then (Some ErrExchangeExists, b)
               else
                 (case b_Append (zero_record\<lparr>r_Type := ExchangeCreated, r_Exchange := exchangeName,
                                   r_ExchangeType := exchangeType\<rparr>) b of
                    (Some e, b1) \<Rightarrow> (Some e, b1)
                  | (None, b1) \<Rightarrow> (None, b1\<lparr>b_exchanges := gm_put exchangeName
                      (NewExchangeFactory exchangeName validatedExchangeType) (b_exchanges b1)\<rparr>))))"

definition DeleteExchange :: "string \<Rightarrow> broker \<Rightarrow> err option \<times> broker" where
  "DeleteExchange exchangeName b =
     (case validateExchangeName exchangeName of
        Some e \<Rightarrow> (Some e, b)
      | None \<Rightarrow>
          (case map_of (b_exchanges b) exchangeName of
             None \<Rightarrow> (Some ErrExchangeNotFound, b)
           | Some exchange \<Rightarrow>
               if length (ex_ListBindings exchange) > 0 then (Some ErrExchangeNotEmpty, b)
               else
                 (case b_Append (zero_record\<lparr>r_Type := ExchangeDeleted, r_Exchange := exchangeName\<rparr>) b of
                    (Some e, b1) \<Rightarrow> (Some e, b1)
                  | (None, b1) \<Rightarrow> (None, b1\<lparr>b_exchanges := gm_del exchangeName (b_exchanges b1)\<rparr>))))"

definition ListExchanges :: "broker \<Rightarrow> string list" where
  "ListExchanges b = sort (map fst (b_exchanges b))"

subsection \<open>Recovery\<close>

fun recover_queues :: "(string \<times> message list) list \<Rightarrow> broker \<Rightarrow> broker option" where
  "recover_queues [] b = Some b"
| "recover_queues ((queueName, messages) # rest) b =
     (case add_queue queueName messages b of None \<Rightarrow> None | Some (_, b1) \<Rightarrow> recover_queues rest b1)"

fun recover_bindings :: "string \<Rightarrow> binding list \<Rightarrow> broker \<Rightarrow> err option \<times> broker" where
  "recover_bindings exchangeName [] b = (None, b)"
| "recover_bindings exchangeName (binding # bindings) b =
     (case BindQueue exchangeName (QueueName binding) (BindingKey binding) b of
        (Some e, b1) \<Rightarrow> (Some e, b1)
      | (None, b1) \<Rightarrow> recover_bindings exchangeName bindings b1)"

fun recover_exchanges :: "(string \<times> exchange_state) list \<Rightarrow> broker \<Rightarrow> err option \<times> broker" where
  "recover_exchanges [] b = (None, b)"
| "recover_exchanges ((exchangeName, st) # rest) b =
     (case CreateExchange exchangeName (es_ExchangeType st) b of
        (Some e, b1) \<Rightarrow> (Some e, b1)
      | (None, b1) \<Rightarrow>
          (case recover_bindings exchangeName (es_Bindings st) b1 of
             (Some e, b2) \<Rightarrow> (Some e, b2)
           | (None, b2) \<Rightarrow> recover_exchanges rest b2))"

text \<open>
  \<open>NewBroker\<close> returns a broker, an error or both; the map of recovered exchanges is ranged over
  in the order of \<open>exs\<close>, a permutation of it.
\<close>

definition recover :: "(string \<times> exchange_state) list \<Rightarrow> (string \<times> message list) list \<Rightarrow> broker \<Rightarrow>
    (broker option \<times> err option) option" where
  "recover exs qs b =
     (case recover_queues qs b of
        None \<Rightarrow> None
      | Some b1 \<Rightarrow>
          (case (if map_of (b_queues b1) DefaultQueueName = None
                 then map_option snd (add_queue DefaultQueueName [] b1) else Some b1) of
             None \<Rightarrow> None
           | Some b2 \<Rightarrow>
               (case recover_exchanges exs b2 of
                  (Some e, b3) \<Rightarrow> Some (Some b3, Some e)
                | (None, b3) \<Rightarrow>
                    (case BindQueue DefaultExchangeName DefaultQueueName DefaultQueueName b3 of
                       (Some e, b4) \<Rightarrow>
                         if e = ErrBindingAlreadyExist then Some (Some b4, None) else Some (Some b4, Some e)
                     | (None, b4) \<Rightarrow> Some (Some b4, None)))))"

definition NewBroker :: "config \<Rightarrow> (recovered_state \<Rightarrow> (string \<times> exchange_state) list) \<Rightarrow> world \<Rightarrow>
    (broker option \<times> err option) option" where
  "NewBroker cfg order w =
     (case wal_Load (w_wal w) of
        Inl e \<Rightarrow> Some (None, Some e)
      | Inr state \<Rightarrow> recover (order state) (PendingMessages state) (NewInMemoryBroker cfg w))"

end
