(* ===== verification/Broker_Effects.thy ===== *)
theory Broker_Effects
  imports Broker
begin

text \<open>
  What an operation of one queue runtime does to the state it shares with the rest of the broker,
  on a disk that works: it logs records of its own queue only, registers tokens for itself only,
  closes sessions of its own consumers only and adds no consumer. A retired runtime (closed and
  empty: what \<open>DeleteQueue\<close> leaves behind, whose goroutines may still make a turn) touches
  neither the log nor the registry.

  \<open>effect\<close> is a preorder and every atomic transition but a subscription satisfies it, so the
  interface \<open>atomic_invariant\<close> gives it for every event of a queue.
\<close>

definition reliable :: "file_wal \<Rightarrow> bool" where
  "reliable f \<longleftrightarrow> wf_open f = OpenOk \<and> \<not> wf_closed f \<and> (\<forall>n. wf_io f n = IoOk)"

definition retired :: "queue_runtime \<Rightarrow> bool" where
  "retired q \<longleftrightarrow> q_closed q \<and> qr_messages q = {#}"

definition same_elsewhere :: "string \<Rightarrow> recovered_state \<Rightarrow> recovered_state \<Rightarrow> bool" where
  "same_elsewhere n st st' \<longleftrightarrow> PendingExchanges st' = PendingExchanges st
     \<and> (gm_wf (PendingMessages st) \<longrightarrow> gm_wf (PendingMessages st'))
     \<and> (\<forall>k. k \<noteq> n \<longrightarrow> map_of (PendingMessages st') k = map_of (PendingMessages st) k)
     \<and> (map_of (PendingMessages st) n \<noteq> None \<longrightarrow> map_of (PendingMessages st') n \<noteq> None)"

definition log_step :: "string \<Rightarrow> file_wal \<Rightarrow> file_wal \<Rightarrow> bool" where
  "log_step n f f' \<longleftrightarrow> reliable f' \<and> (\<forall>st. wal_Load f = Inr st \<longrightarrow>
     (\<exists>st'. wal_Load f' = Inr st' \<and> same_elsewhere n st st'))"

definition owners_step :: "queue_runtime \<Rightarrow> nat gomap \<Rightarrow> nat gomap \<Rightarrow> bool" where
  "owners_step q m m' \<longleftrightarrow> (gm_wf m \<longrightarrow> gm_wf m') \<and>
     (\<forall>t a. map_of m' t = Some a \<longrightarrow> map_of m t = Some a \<or> hooks q = Some a \<and> \<not> retired q)"

definition face :: "world \<Rightarrow> nat \<Rightarrow> (string \<times> bool) option" where
  "face w c = map_option (\<lambda>s. (cs_ID s, Closed s)) (w_sessions w c)"

definition effect :: "world \<Rightarrow> queue_runtime \<Rightarrow> world \<Rightarrow> queue_runtime \<Rightarrow> bool" where
  "effect w q w' q' \<longleftrightarrow> (reliable (w_wal w) \<longrightarrow>
     q_name q' = q_name q \<and> hooks q' = hooks q
     \<and> log_step (q_name q) (w_wal w) (w_wal w')
     \<and> owners_step q (w_tokenOwners w) (w_tokenOwners w')
     \<and> map_of (consumerSessions q') \<subseteq>\<^sub>m map_of (consumerSessions q)
     \<and> (\<forall>c. c \<notin> ran (map_of (consumerSessions q)) \<longrightarrow> face w' c = face w c)
     \<and> w_uuids w' = w_uuids w \<and> w_uuid_pos w \<le> w_uuid_pos w'
     \<and> (retired q \<longrightarrow> retired q' \<and> w_wal w' = w_wal w))"

subsection \<open>A preorder\<close>

lemma same_elsewhere_trans:
  "same_elsewhere n st st1 \<Longrightarrow> same_elsewhere n st1 st2 \<Longrightarrow> same_elsewhere n st st2"
  by (simp add: same_elsewhere_def)

lemma log_step_refl [simp]: "reliable f \<Longrightarrow> log_step n f f"
  by (auto simp: log_step_def same_elsewhere_def)

lemma log_step_trans: "log_step n f f1 \<Longrightarrow> log_step n f1 f2 \<Longrightarrow> log_step n f f2"
  unfolding log_step_def by (blast intro: same_elsewhere_trans)

lemma log_step_reliable: "log_step n f f' \<Longrightarrow> reliable f'"
  by (simp add: log_step_def)

lemma owners_step_refl [simp]: "owners_step q m m"
  by (simp add: owners_step_def)

lemma owners_step_trans:
  "owners_step q m m1 \<Longrightarrow> owners_step q1 m1 m2 \<Longrightarrow> hooks q1 = hooks q \<Longrightarrow> retired q \<longrightarrow> retired q1 \<Longrightarrow>
   owners_step q m m2"
  unfolding owners_step_def by metis

lemma effect_refl [simp]: "effect w q w q"
  by (simp add: effect_def)

lemma ran_le: "m \<subseteq>\<^sub>m m' \<Longrightarrow> ran m \<subseteq> ran m'"
  unfolding ran_def map_le_def by (force simp: domIff)

lemma effect_trans:
  assumes "effect w q w1 q1" and "effect w1 q1 w2 q2"
  shows "effect w q w2 q2"
  unfolding effect_def
proof
  assume r: "reliable (w_wal w)"
  with assms(1) have e1: "q_name q1 = q_name q" "hooks q1 = hooks q" "log_step (q_name q) (w_wal w) (w_wal w1)"
    "owners_step q (w_tokenOwners w) (w_tokenOwners w1)"
    "map_of (consumerSessions q1) \<subseteq>\<^sub>m map_of (consumerSessions q)"
    "\<forall>c. c \<notin> ran (map_of (consumerSessions q)) \<longrightarrow> face w1 c = face w c"
    "w_uuids w1 = w_uuids w" "w_uuid_pos w \<le> w_uuid_pos w1" "retired q \<longrightarrow> retired q1 \<and> w_wal w1 = w_wal w"
    by (simp_all add: effect_def)
  from assms(2) log_step_reliable [OF e1(3)] e1 ran_le [OF e1(5)]
  show "q_name q2 = q_name q \<and> hooks q2 = hooks q \<and> log_step (q_name q) (w_wal w) (w_wal w2)
     \<and> owners_step q (w_tokenOwners w) (w_tokenOwners w2)
     \<and> map_of (consumerSessions q2) \<subseteq>\<^sub>m map_of (consumerSessions q)
     \<and> (\<forall>c. c \<notin> ran (map_of (consumerSessions q)) \<longrightarrow> face w2 c = face w c)
     \<and> w_uuids w2 = w_uuids w \<and> w_uuid_pos w \<le> w_uuid_pos w2
     \<and> (retired q \<longrightarrow> retired q2 \<and> w_wal w2 = w_wal w)"
    by (auto simp: effect_def intro: log_step_trans owners_step_trans map_le_trans)
qed

subsection \<open>The transitions\<close>

lemma append_reliable_wal:
  assumes "reliable f" and "loggable r"
  shows "\<exists>f'. wal_Append r f = (None, f') \<and> reliable f'
    \<and> (\<forall>st. wal_Load f = Inr st \<longrightarrow> wal_Load f' = Inr (apply_record r st))"
proof -
  obtain e f' where ap: "wal_Append r f = (e, f')" by (cases "wal_Append r f")
  have e: "e = None" using ap assms(1) by (simp add: wal_Append_eq writeRecord_def reliable_def)
  have "reliable f'" using assms(1) wal_Append_frame [OF ap] by (simp add: reliable_def)
  moreover have "wal_Load f' = Inr (apply_record r st)" if "wal_Load f = Inr st" for st
    using wal.append_ok [OF _ assms(2) ap [unfolded e] that] assms(1) by (simp add: reliable_def)
  ultimately show ?thesis using ap e by blast
qed

lemma same_elsewhere_message:
  "r_Type r \<in> {Published, Acknowledged, Requeued, DeadLettered} \<Longrightarrow> same_elsewhere (r_Queue r) st (apply_record r st)"
  by (auto simp: same_elsewhere_def apply_record_types set_pending_def)

lemma append_log_step:
  assumes "reliable (w_wal w)" and "loggable r" and "w_Append r w = (e, w')"
    and "r_Type r \<in> {Published, Acknowledged, Requeued, DeadLettered}" and "r_Queue r = n"
  shows "log_step n (w_wal w) (w_wal w')" and "e = None"
proof -
  obtain f' where f: "wal_Append r (w_wal w) = (None, f')" "reliable f'"
    "\<forall>st. wal_Load (w_wal w) = Inr st \<longrightarrow> wal_Load f' = Inr (apply_record r st)"
    using append_reliable_wal [OF assms(1,2)] by blast
  from f(1) assms(3) have "w_wal w' = f'" "e = None" by (auto simp: w_Append_result)
  with f(2,3) same_elsewhere_message [OF assms(4)] assms(5)
  show "log_step n (w_wal w) (w_wal w')" and "e = None" by (auto simp: log_step_def)
qed

lemma message_records:
  "loggable (publish_record q m)" "loggable (ack_record q m)" "loggable (dead_record q m)"
  "loggable (requeue_record q m)"
  "r_Queue (publish_record q m) = q_name q" "r_Queue (ack_record q m) = q_name q"
  "r_Queue (dead_record q m) = q_name q" "r_Queue (requeue_record q m) = q_name q"
  "r_Type (publish_record q m) = Published" "r_Type (ack_record q m) = Acknowledged"
  "r_Type (dead_record q m) = DeadLettered" "r_Type (requeue_record q m) = Requeued"
  by (simp_all add: publish_record_def ack_record_def dead_record_def requeue_record_def)

lemma same_face: "same_sessions w w' \<Longrightarrow> face w' = face w"
  by (simp add: same_sessions_def face_def fun_eq_iff)

lemma face_close:
  "c \<notin> set as \<Longrightarrow> face (close_sessions as w) c = face w c"
proof (induction as arbitrary: w)
  case (Cons a as)
  then have "face (close_sessions as (upd_session a cs_Close w)) c = face (upd_session a cs_Close w) c" by simp
  also have "\<dots> = face w c" using Cons.prems by (simp add: face_def)
  finally show ?case by (simp add: close_sessions_def)
qed (simp add: close_sessions_def)

lemma retired_empty:
  assumes "retired q" and "qr_wf q"
  shows "mgr_Get t (q_inFlight q) = None" and "rb_list (q_queue q) = []" and "consumerSessions q = []"
    and "\<not> in_flight_as d q"
proof -
  from assms(1) have m: "mgr_messages (q_inFlight q) = {#}" by (simp add: retired_def qr_messages_def)
  show g: "mgr_Get t (q_inFlight q) = None" for t
    using m ifm.content_remove [OF qr_wf_parts(2) [OF assms(2)], of t] by (cases "mgr_Get t (q_inFlight q)") auto
  show "rb_list (q_queue q) = []" "consumerSessions q = []"
    using assms by (simp_all add: retired_def qr_messages_def qr_wf_def)
  show "\<not> in_flight_as d q" using g by (simp add: in_flight_as_def)
qed


lemma effectI:
  assumes "q_name q' = q_name q" and "hooks q' = hooks q"
    and "reliable (w_wal w) \<Longrightarrow> log_step (q_name q) (w_wal w) (w_wal w')"
    and "owners_step q (w_tokenOwners w) (w_tokenOwners w')"
    and "map_of (consumerSessions q') \<subseteq>\<^sub>m map_of (consumerSessions q)"
    and "\<And>c. c \<notin> ran (map_of (consumerSessions q)) \<Longrightarrow> face w' c = face w c"
    and "w_uuids w' = w_uuids w" and "w_uuid_pos w \<le> w_uuid_pos w'"
    and "retired q \<Longrightarrow> retired q' \<and> w_wal w' = w_wal w"
  shows "effect w q w' q'"
  using assms by (simp add: effect_def)

lemma append_effect:
  assumes "w_Append rec w = (None, w1)" and "loggable rec" and "r_Queue rec = q_name q"
    and "r_Type rec \<in> {Published, Acknowledged, Requeued, DeadLettered}"
    and "\<not> retired q" and "w_wal w' = w_wal w1" and "w_uuids w' = w_uuids w1" and "w_uuid_pos w' = w_uuid_pos w1"
    and "same_sessions w1 w'" and "w_tokenOwners w' = w_tokenOwners w1 \<or> w_tokenOwners w' = gm_del t (w_tokenOwners w1)"
    and "q_name q' = q_name q" and "hooks q' = hooks q" and "consumerSessions q' = consumerSessions q"
  shows "effect w q w' q'"
proof (rule effectI)
  note fr = w_Append_frame [OF assms(1)]
  show "log_step (q_name q) (w_wal w) (w_wal w')" if "reliable (w_wal w)"
    using append_log_step(1) [OF that assms(2,1,4,3)] assms(6) by simp
  show "owners_step q (w_tokenOwners w) (w_tokenOwners w')"
    using fr assms(10) by (auto simp: owners_step_def split: if_splits)
  show "face w' c = face w c" for c
    using same_face [OF assms(9)] same_face [OF same_sessions_refl [OF fr(1)]] by simp
qed (use assms w_Append_frame [OF assms(1)] in simp_all)

lemma removeToken_owners: "w_tokenOwners (removeToken t q w) = w_tokenOwners w
    \<or> w_tokenOwners (removeToken t q w) = gm_del t (w_tokenOwners w)"
  by (simp add: removeToken_def split: option.splits)

lemma same_sessions_let_go [simp]:
  "same_sessions w (removeToken t q (release i q w))" "same_sessions w (release i q (removeToken t q w))"
proof -
  show "same_sessions w (removeToken t q (release i q w))"
    using same_sessions_release [of w i q] by (rule same_sessions_trans) simp
  show "same_sessions w (release i q (removeToken t q w))"
    by (rule same_sessions_eqD [OF _ same_sessions_release]) simp
qed

lemma taken_effect:
  assumes "take_head a s m r w q = (d, w', q')" and "\<not> retired q"
  shows "effect w q w' q'"
proof (rule effectI)
  note th = take_head_result [OF assms(1)]
  show "owners_step q (w_tokenOwners w) (w_tokenOwners w')"
    using th(7) assms(2) by (auto simp: owners_step_def registerToken_def split: option.splits if_splits)
  have "same_sessions w (upd_session a (\<lambda>s. s\<lparr>UnackedCount := UnackedCount s + 1\<rparr>) w)"
    by (rule same_sessions_upd) simp
  then have "same_sessions w w'" unfolding same_sessions_def th(6) .
  from same_face [OF this] show "face w' c = face w c" for c by simp
qed (use assms(2) take_head_result [OF assms(1)] in simp_all)

lemma atomic_effect:
  assumes b: "base w q" and a: "atomic l w q w' q'" and l: "\<forall>i. l \<noteq> Join i"
  shows "effect w q w' q'"
  using a
proof (cases rule: atomic.cases)
  note re = retired_empty [OF _ base_parts(1) [OF b]]
  {
    case tick
    then show ?thesis by (intro effectI) (simp_all add: face_def)
  next
    case (sched n c)
    then show ?thesis by (intro effectI) (simp_all add: retired_def qr_messages_def)
  next
    case (channel c f)
    show ?thesis unfolding channel
      by (rule effectI) (simp_all add: same_face [OF same_sessions_upd])
  next
    case (leave c m order n as)
    then show ?thesis
      by (intro effectI) (auto simp: retired_def qr_messages_def intro!: face_close)
  next
    case (failed rec e)
    have "\<not> reliable (w_wal w)"
      using append_reliable_wal [of "w_wal w" rec] failed(3,4) by (auto simp: w_Append_result)
    then show ?thesis by (simp add: effect_def)
  next
    case (take s c m ms r d)
    from re(2) take(5) have "\<not> retired q" by auto
    from taken_effect [OF take(7) this] show ?thesis .
  next
    case (return d r)
    from re(4) return(4) have "\<not> retired q" by auto
    moreover have "owners_step q (w_tokenOwners w) (w_tokenOwners w')"
      using removeToken_owners [of "d_AckToken d" q "release (d_ConsumerID d) q w"] return(2)
      by (auto simp: owners_step_def split: if_splits)
    moreover have "face w' = face w" unfolding return(2) by (rule same_face) simp
    ultimately show ?thesis using return by (intro effectI) simp_all
  next
    case (acked t i w1)
    from re(1) acked(4) have n: "\<not> retired q" by fastforce
    from removeToken_owners [of t q w1] show ?thesis
      by (intro append_effect [OF acked(5) _ _ _ n, where t = t]) (simp_all add: acked message_records)
  next
    case (put m r)
    then have n: "\<not> retired q" by (simp add: retired_def)
    show ?thesis by (rule append_effect [OF put(4) _ _ _ n]) (simp_all add: put message_records)
  next
    case (drop m w0 ms r)
    from re(2) drop(4) have n: "\<not> retired q" by auto
    show ?thesis by (rule append_effect [OF drop(6) _ _ _ n]) (simp_all add: drop message_records)
  next
    case (bury d w1)
    from re(4) bury(4) have n: "\<not> retired q" by auto
    show ?thesis
      by (rule append_effect [OF bury(6) _ _ _ n, where t = "d_AckToken d"])
        (use removeToken_owners in \<open>simp_all add: bury message_records settled_def\<close>)
  next
    case (requeue d w1 r)
    from re(4) requeue(4) have n: "\<not> retired q" by auto
    show ?thesis
      by (rule append_effect [OF requeue(6) _ _ _ n, where t = "d_AckToken d"])
        (use removeToken_owners in \<open>simp_all add: requeue message_records settled_def\<close>)
  }
qed (use l in simp)

interpretation eff: atomic_invariant "effect w0 q0" "\<lambda>_ _. False" for w0 q0
  by unfold_locales (blast intro: effect_trans atomic_effect)

lemma steps_effect: "steps (\<lambda>_ _. False) w q w' q' \<Longrightarrow> base w q \<Longrightarrow> effect w q w' q' \<and> base w' q'"
  using eff.steps_keep [of w q w' q'] steps_base by simp


subsection \<open>Publishing\<close>

lemma qr_Publish_base:
  assumes "base w q" and "qr_Publish m ttl w q = Some (out, w', q')"
  shows "base w' q'"
  unfolding base_def
proof (intro conjI)
  note p = base_parts [OF assms(1)]
  show "qr_wf q'" "sess_ok w' q'"
    using qr_Publish_wf [OF p(1) assms(2)] qr_Publish_sess_ok [OF p(1,2) assms(2)] by simp_all
  show "tokens_ok w' q'"
    using p(1) assms(2)
  proof (cases rule: qr_Publish_cases)
    case (log_failed e m' w1)
    show ?thesis
      by (rule tokens_ok_mono [OF p(3)])
        (use log_failed stamp_world [OF log_failed(4)] w_Append_frame [OF log_failed(5)] in simp_all)
  next
    case (accepted m' w1 r)
    show ?thesis
      by (rule tokens_ok_mono [OF p(3)])
        (use accepted stamp_world [OF accepted(3)] w_Append_frame [OF accepted(4)] in simp_all)
  qed (use p(3) in simp_all)
qed

lemma tick_effect:
  assumes "w_wal w' = w_wal w" "w_uuids w' = w_uuids w" "w_uuid_pos w \<le> w_uuid_pos w'"
    "w_sessions w' = w_sessions w" "w_tokenOwners w' = w_tokenOwners w"
  shows "effect w q w' q"
  by (rule effectI) (use assms in \<open>simp_all add: face_def\<close>)

lemma qr_Publish_effect:
  assumes "qr_wf q" and "qr_Publish m ttl w q = Some (out, w', q')"
  shows "effect w q w' q'"
  using assms
proof (cases rule: qr_Publish_cases)
  case (log_failed e m' w1)
  have "\<not> reliable (w_wal w)"
    using append_reliable_wal [of "w_wal w" "publish_record q m'"] log_failed(5)
    by (auto simp: w_Append_result message_records stamp_world(2) [OF log_failed(4)])
  then show ?thesis by (simp add: effect_def)
next
  case (accepted m' w1 r)
  have "effect w q w1 q" by (rule tick_effect) (use stamp_world [OF accepted(3)] in simp_all)
  moreover have "effect w1 q w' q'"
    by (rule append_effect [OF accepted(4)]) (simp_all add: accepted message_records retired_def)
  ultimately show ?thesis by (rule effect_trans)
qed simp_all

end
