(* ===== verification/Broker_Topology.thy ===== *)
theory Broker_Topology
  imports Broker_Effects
begin

text \<open>
  Invariants of the broker, and that every call that changes the topology keeps them on a disk
  that works. \<open>queues_ok\<close>: every queue name leads to a runtime of that name, and there is a
  default queue. \<open>runtimes_ok\<close>: every runtime is well formed, and those that no name leads to
  are retired; no session is subscribed to two queues. \<open>exchanges_ok\<close>: there is a default
  exchange, no exchange has a binding twice, names and keys are valid and every binding names an
  existing queue. \<open>owners_ok\<close>: every token belongs to a listed queue. \<open>log_ok\<close>: replaying the
  log gives the broker's exchanges with their types and bindings, the default exchange apart, and
  its queues, the default queue apart.
\<close>

subsection \<open>The invariants\<close>

definition queues_ok :: "broker \<Rightarrow> bool" where
  "queues_ok b \<longleftrightarrow> gm_wf (b_queues b) \<and> map_of (b_queues b) DefaultQueueName \<noteq> None
     \<and> (\<forall>name a. map_of (b_queues b) name = Some a \<longrightarrow> (\<exists>q. b_runtimes b a = Some q \<and> q_name q = name))"

definition runtimes_ok :: "broker \<Rightarrow> bool" where
  "runtimes_ok b \<longleftrightarrow>
     (\<forall>a q. b_runtimes b a = Some q \<longrightarrow> a < b_next b \<and> base (b_world b) q \<and> hooks q = Some a
        \<and> (map_of (b_queues b) (q_name q) = Some a \<or> retired q))
     \<and> (\<forall>a a' q q' i i' c. b_runtimes b a = Some q \<longrightarrow> b_runtimes b a' = Some q' \<longrightarrow>
          map_of (consumerSessions q) i = Some c \<longrightarrow> map_of (consumerSessions q') i' = Some c \<longrightarrow> a = a')"

definition exchange_ok :: "string \<Rightarrow> exchange \<Rightarrow> bool" where
  "exchange_ok n e \<longleftrightarrow> distinct (ex_ListBindings e)
     \<and> (n = DefaultExchangeName \<or> validateExchangeName n = None)
     \<and> (\<forall>x \<in> set (ex_ListBindings e). validateBindingKey (BindingKey x) = None)"

definition exchanges_ok :: "broker \<Rightarrow> bool" where
  "exchanges_ok b \<longleftrightarrow> gm_wf (b_exchanges b) \<and> map_of (b_exchanges b) DefaultExchangeName \<noteq> None
     \<and> (\<forall>n e. map_of (b_exchanges b) n = Some e \<longrightarrow> exchange_ok n e \<and>
          (\<forall>x \<in> set (ex_ListBindings e). map_of (b_queues b) (QueueName x) \<noteq> None))"

definition owners_ok :: "broker \<Rightarrow> bool" where
  "owners_ok b \<longleftrightarrow> gm_wf (w_tokenOwners (b_world b)) \<and>
     (\<forall>t a. map_of (w_tokenOwners (b_world b)) t = Some a \<longrightarrow> a \<in> ran (map_of (b_queues b)))"

definition ex_kind :: "exchange \<Rightarrow> exchange_type" where
  "ex_kind e = (case e of Direct _ \<Rightarrow> DirectExchange | FanOut _ \<Rightarrow> FanOutExchange | Topic _ \<Rightarrow> TopicExchange)"

definition ex_state :: "exchange \<Rightarrow> exchange_state" where
  "ex_state e = \<lparr>es_ExchangeType = exchange_type_string (ex_kind e), es_Bindings = ex_ListBindings e\<rparr>"

definition topology :: "recovered_state \<Rightarrow> (string \<rightharpoonup> exchange) \<Rightarrow> string set \<Rightarrow> bool" where
  "topology st X Q \<longleftrightarrow> gm_wf (PendingMessages st) \<and> gm_wf (PendingExchanges st)
     \<and> map_of (PendingExchanges st) DefaultExchangeName = None
     \<and> (\<forall>n. n \<noteq> DefaultExchangeName \<longrightarrow> map_of (PendingExchanges st) n = map_option ex_state (X n))
     \<and> (\<forall>n. n \<noteq> DefaultQueueName \<longrightarrow> map_of (PendingMessages st) n \<noteq> None \<longleftrightarrow> n \<in> Q)"

definition log_ok :: "broker \<Rightarrow> bool" where
  "log_ok b \<longleftrightarrow> reliable (w_wal (b_world b)) \<and> (\<exists>st. wal_Load (w_wal (b_world b)) = Inr st
     \<and> topology st (map_of (b_exchanges b)) (dom (map_of (b_queues b))))"

text \<open>
  While the broker recovers, the log is ahead of it: \<open>log_with Y\<close> is \<open>log_ok\<close> with the exchanges
  \<open>Y\<close> that are still to be created.
\<close>

definition log_with :: "(string \<rightharpoonup> exchange) \<Rightarrow> broker \<Rightarrow> bool" where
  "log_with Y b \<longleftrightarrow> reliable (w_wal (b_world b)) \<and> (\<exists>st. wal_Load (w_wal (b_world b)) = Inr st
     \<and> topology st (map_of (b_exchanges b) ++ Y) (dom (map_of (b_queues b))))"

definition broker_with :: "(string \<rightharpoonup> exchange) \<Rightarrow> broker \<Rightarrow> bool" where
  "broker_with Y b \<longleftrightarrow> queues_ok b \<and> exchanges_ok b \<and> owners_ok b \<and> log_with Y b \<and> runtimes_ok b"

definition broker_ok :: "broker \<Rightarrow> bool" where
  "broker_ok b \<longleftrightarrow> queues_ok b \<and> exchanges_ok b \<and> owners_ok b \<and> log_ok b \<and> runtimes_ok b"

lemmas broker_defs = queues_ok_def runtimes_ok_def exchanges_ok_def owners_ok_def

lemma broker_okD: "broker_ok b \<Longrightarrow> queues_ok b" "broker_ok b \<Longrightarrow> exchanges_ok b"
  "broker_ok b \<Longrightarrow> owners_ok b" "broker_ok b \<Longrightarrow> log_ok b" "broker_ok b \<Longrightarrow> runtimes_ok b"
  by (simp_all add: broker_ok_def)

lemma broker_withD: "broker_with Y b \<Longrightarrow> queues_ok b" "broker_with Y b \<Longrightarrow> exchanges_ok b"
  "broker_with Y b \<Longrightarrow> owners_ok b" "broker_with Y b \<Longrightarrow> log_with Y b" "broker_with Y b \<Longrightarrow> runtimes_ok b"
  by (simp_all add: broker_with_def)

lemma broker_with_none: "broker_with Map.empty b \<longleftrightarrow> broker_ok b"
  by (simp add: broker_with_def broker_ok_def log_with_def log_ok_def)

subsection \<open>What a record does to the recovered topology\<close>

lemma gm_wf_pending [simp]:
  "gm_wf (PendingMessages st) \<Longrightarrow> gm_wf (PendingMessages (set_pending q ms st))"
  by (simp add: set_pending_def)

lemma map_of_set_pending [simp]:
  "map_of (PendingMessages (set_pending q ms st)) n = (if n = q then Some ms else map_of (PendingMessages st) n)"
  by (simp add: set_pending_def)

lemma map_bindings_exchanges:
  "map_of (PendingExchanges (map_bindings ex f st)) n =
     (if n = ex then map_option (\<lambda>es. es\<lparr>es_Bindings := f (es_Bindings es)\<rparr>) (map_of (PendingExchanges st) ex)
      else map_of (PendingExchanges st) n)"
  "gm_wf (PendingExchanges st) \<Longrightarrow> gm_wf (PendingExchanges (map_bindings ex f st))"
  by (simp_all add: map_bindings_def split: option.splits)

lemma matches_unbind_iff: "matches_unbind k q = unbinds k q"
  by (auto simp: matches_unbind_def unbinds_def fun_eq_iff)

lemma ex_kind_ops [simp]:
  "ex_Bind k q e = (r, e') \<Longrightarrow> ex_kind e' = ex_kind e" "ex_Unbind k q e = (r, e') \<Longrightarrow> ex_kind e' = ex_kind e"
  by (cases e; auto simp: ex_Bind_def ex_Unbind_def ex_kind_def split: prod.splits)+

lemma topology_QueueCreated:
  "topology st X Q \<Longrightarrow> topology (apply_record (zero_record\<lparr>r_Type := QueueCreated, r_Queue := n\<rparr>) st) X (insert n Q)"
  unfolding topology_def by (auto simp: apply_record_types split: option.splits)

lemma topology_QueueDeleted:
  "topology st X Q \<Longrightarrow> topology (apply_record (zero_record\<lparr>r_Type := QueueDeleted, r_Queue := n\<rparr>) st) X (Q - {n})"
  unfolding topology_def by (simp add: apply_record_types)

lemma topology_elsewhere:
  assumes "topology st X Q" and "same_elsewhere n st st'" and "n \<in> Q \<or> n = DefaultQueueName"
  shows "topology st' X Q"
  unfolding topology_def
proof (intro conjI allI impI)
  fix k
  assume "k \<noteq> DefaultQueueName"
  with assms show "map_of (PendingMessages st') k \<noteq> None \<longleftrightarrow> k \<in> Q"
    unfolding topology_def same_elsewhere_def by (cases "k = n") (metis, simp)
qed (use assms in \<open>simp_all add: topology_def same_elsewhere_def\<close>)

lemma topology_Binded:
  assumes "topology st X Q" and "X ex = Some e" and "ex_Bind k q e = (None, e')"
    and "r = zero_record\<lparr>r_Type := QueueBinded, r_Exchange := ex, r_Queue := q, r_BindingKey := k\<rparr>"
  shows "topology (apply_record r st) (X(ex \<mapsto> e')) Q"
proof -
  have "ex_ListBindings e' = ex_ListBindings e @ [\<lparr>QueueName = q, BindingKey = k\<rparr>]"
    using exc.bind_law [OF assms(3)] by (auto split: if_splits)
  with assms show ?thesis
    unfolding topology_def by (simp add: apply_record_types map_bindings_exchanges ex_state_def)
qed

lemma topology_Unbinded:
  assumes "topology st X Q" and "X ex = Some e" and "ex_Unbind k q e = (None, e')"
    and "r = zero_record\<lparr>r_Type := QueueUnbinded, r_Exchange := ex, r_Queue := q, r_BindingKey := k\<rparr>"
  shows "topology (apply_record r st) (X(ex \<mapsto> e')) Q"
proof -
  have "ex_ListBindings e' = DeleteFunc (ex_ListBindings e) (unbinds k q)"
    using exc.unbind_law [OF assms(3)] by (auto split: if_splits)
  with assms show ?thesis
    unfolding topology_def
    by (simp add: apply_record_types map_bindings_exchanges ex_state_def matches_unbind_iff)
qed

lemma ex_state_new: "ex_state (NewExchangeFactory n ty) = \<lparr>es_ExchangeType = exchange_type_string ty, es_Bindings = []\<rparr>"
proof -
  have "ex_kind (NewExchangeFactory n ty) = ty"
    by (cases ty) (simp_all add: ex_kind_def NewExchangeFactory_def NewDirectExchange_def
        NewFanOutExchange_def NewTopicExchange_def)
  then show ?thesis by (simp add: ex_state_def factory_empty)
qed

lemma topology_ExchangeCreated:
  assumes "topology st X Q" and "ex \<noteq> DefaultExchangeName"
    and "r = zero_record\<lparr>r_Type := ExchangeCreated, r_Exchange := ex, r_ExchangeType := exchange_type_string ty\<rparr>"
  shows "topology (apply_record r st) (X(ex \<mapsto> NewExchangeFactory ex ty)) Q"
  using assms unfolding topology_def by (simp add: apply_record_types ex_state_new)

lemma topology_ExchangeDeleted:
  assumes "topology st X Q" and "ex \<noteq> DefaultExchangeName"
    and "r = zero_record\<lparr>r_Type := ExchangeDeleted, r_Exchange := ex\<rparr>"
  shows "topology (apply_record r st) (X(ex := None)) Q"
  using assms unfolding topology_def by (simp add: apply_record_types)

subsection \<open>Appending to a reliable log\<close>

lemma append_reliable:
  assumes "reliable (w_wal (b_world b))" and "loggable r"
  shows "\<exists>f. b_Append r b = (None, b\<lparr>b_world := (b_world b)\<lparr>w_wal := f\<rparr>\<rparr>) \<and> reliable f
    \<and> (\<forall>st. wal_Load (w_wal (b_world b)) = Inr st \<longrightarrow> wal_Load f = Inr (apply_record r st))"
  using append_reliable_wal [OF assms] by (auto simp: b_Append_def w_Append_def)

lemma log_okI:
  assumes "log_ok b" and "reliable f" and "w_wal (b_world b') = f"
    and "\<forall>st. wal_Load (w_wal (b_world b)) = Inr st \<longrightarrow> wal_Load f = Inr (apply_record r st)"
    and "\<And>st. topology st (map_of (b_exchanges b)) (dom (map_of (b_queues b))) \<Longrightarrow>
      topology (apply_record r st) (map_of (b_exchanges b')) (dom (map_of (b_queues b')))"
  shows "log_ok b'"
  using assms unfolding log_ok_def by blast

lemma log_withI:
  assumes "log_with Y b" and "reliable f" and "w_wal (b_world b') = f"
    and "\<forall>st. wal_Load (w_wal (b_world b)) = Inr st \<longrightarrow> wal_Load f = Inr (apply_record r st)"
    and "\<And>st. topology st (map_of (b_exchanges b) ++ Y) (dom (map_of (b_queues b))) \<Longrightarrow>
      topology (apply_record r st) (map_of (b_exchanges b') ++ Y') (dom (map_of (b_queues b')))"
  shows "log_with Y' b'"
  using assms unfolding log_with_def by blast

lemma log_with_reliable: "log_with Y b \<Longrightarrow> reliable (w_wal (b_world b))"
  by (simp add: log_with_def)

lemma log_ok_cong:
  "log_ok b \<Longrightarrow> w_wal (b_world b') = w_wal (b_world b) \<Longrightarrow> b_exchanges b' = b_exchanges b \<Longrightarrow>
   b_queues b' = b_queues b \<Longrightarrow> log_ok b'"
  by (simp add: log_ok_def)

lemma log_ok_reliable: "log_ok b \<Longrightarrow> reliable (w_wal (b_world b))"
  by (simp add: log_ok_def)

subsection \<open>Creating queues and exchanges\<close>

lemma add_queue_ok:
  obtains q where "add_queue n ms b = Some (b_next b, b\<lparr>b_runtimes := (b_runtimes b)(b_next b \<mapsto> q),
      b_next := b_next b + 1, b_queues := gm_put n (b_next b) (b_queues b)\<rparr>)"
    and "newQueueRuntime (b_cfg b) (b_next b) n ms = Some q" and "qr_wf q" and "q_name q = n"
    and "hooks q = Some (b_next b)" and "rb_list (q_queue q) = ms"
  using newQueueRuntime_correct [of "b_cfg b" "b_next b" n ms] by (auto simp: add_queue_def)

lemma queues_ok_add:
  assumes "queues_ok b" and "map_of (b_queues b) n = None" and "q_name q = n" and "runtimes_ok b"
  shows "queues_ok (b\<lparr>b_runtimes := (b_runtimes b)(b_next b \<mapsto> q), b_next := b_next b + 1,
    b_queues := gm_put n (b_next b) (b_queues b)\<rparr>)"
  using assms unfolding queues_ok_def runtimes_ok_def by auto (metis nat_neq_iff)

lemma runtimes_ok_add:
  assumes ok: "runtimes_ok b" and q: "newQueueRuntime (b_cfg b) (b_next b) n ms = Some q"
    and new: "map_of (b_queues b) n = None" and u: "inj (w_uuids (b_world b))"
  shows "runtimes_ok (b\<lparr>b_runtimes := (b_runtimes b)(b_next b \<mapsto> q), b_next := b_next b + 1,
    b_queues := gm_put n (b_next b) (b_queues b)\<rparr>)"
proof -
  note r = newQueueRuntime_result [OF q] and base = newQueueRuntime_base [OF q u]
  have old: "map_of (b_queues b) (q_name q') = Some a \<longrightarrow> q_name q' \<noteq> n" for q' a
    using new by auto
  show ?thesis
    using ok r(4,7,8) base old unfolding runtimes_ok_def by (auto simp: less_Suc_eq split: if_splits)
qed

lemma base_wal [simp]: "base (w\<lparr>w_wal := f\<rparr>) q = base w q"
  by (simp add: base_def sess_ok_def tokens_ok_def)

lemma uuids_inj: "queues_ok b \<Longrightarrow> runtimes_ok b \<Longrightarrow> inj (w_uuids (b_world b))"
  unfolding queues_ok_def runtimes_ok_def base_def tokens_ok_def by fastforce

lemma ok_frame [simp]:
  "queues_ok (b\<lparr>b_world := w, b_exchanges := X\<rparr>) = queues_ok b"
  "queues_ok (b\<lparr>b_world := w\<rparr>) = queues_ok b"
  "runtimes_ok (b\<lparr>b_world := (b_world b)\<lparr>w_wal := f\<rparr>, b_exchanges := X\<rparr>) = runtimes_ok b"
  "runtimes_ok (b\<lparr>b_world := (b_world b)\<lparr>w_wal := f\<rparr>\<rparr>) = runtimes_ok b"
  "owners_ok (b\<lparr>b_world := (b_world b)\<lparr>w_wal := f\<rparr>, b_exchanges := X\<rparr>) = owners_ok b"
  by (simp_all add: broker_defs)

lemma CreateQueue_ok:
  assumes ok: "broker_ok b"
  shows "\<exists>r b'. CreateQueue n b = Some (r, b') \<and> broker_ok b'"
proof (cases "validateQueueName n \<noteq> None \<or> b_closed b \<or> map_of (b_queues b) n \<noteq> None")
  case True
  with ok show ?thesis by (auto simp: CreateQueue_def split: option.splits)
next
  case False
  let ?r = "zero_record\<lparr>r_Type := QueueCreated, r_Queue := n\<rparr>"
  note d = broker_okD [OF ok]
  have "loggable ?r" by simp
  then obtain f where f: "b_Append ?r b = (None, b\<lparr>b_world := (b_world b)\<lparr>w_wal := f\<rparr>\<rparr>)" "reliable f"
    "\<forall>st. wal_Load (w_wal (b_world b)) = Inr st \<longrightarrow> wal_Load f = Inr (apply_record ?r st)"
    using append_reliable [OF log_ok_reliable [OF d(4)]] by blast
  let ?b = "b\<lparr>b_world := (b_world b)\<lparr>w_wal := f\<rparr>\<rparr>"
  obtain q where q: "add_queue n [] ?b = Some (b_next ?b, ?b\<lparr>b_runtimes := (b_runtimes ?b)(b_next ?b \<mapsto> q),
      b_next := b_next ?b + 1, b_queues := gm_put n (b_next ?b) (b_queues ?b)\<rparr>)"
    "newQueueRuntime (b_cfg ?b) (b_next ?b) n [] = Some q" "q_name q = n"
    using add_queue_ok [of n "[]" ?b] by metis
  let ?b2 = "?b\<lparr>b_runtimes := (b_runtimes ?b)(b_next ?b \<mapsto> q), b_next := b_next ?b + 1,
      b_queues := gm_put n (b_next ?b) (b_queues ?b)\<rparr>"
  have run: "CreateQueue n b = Some (None, if b_started ?b2 then startQueue (b_next b) ?b2 else ?b2)"
    using False f(1) q(1) by (auto simp: CreateQueue_def)
  have "queues_ok ?b2"
    by (rule queues_ok_add) (use d(1,5) False q(3) in simp_all)
  moreover have "runtimes_ok ?b2"
    by (rule runtimes_ok_add [OF _ q(2)]) (use d(5) False uuids_inj [OF d(1,5)] in simp_all)
  moreover have "exchanges_ok ?b2" using d(2) unfolding exchanges_ok_def by (auto split: if_splits)
  moreover have "owners_ok ?b2" using d(3) False by (auto simp: owners_ok_def ran_map_upd)
  moreover have "log_ok ?b2"
    by (rule log_okI [OF d(4) f(2) _ f(3)]) (simp_all add: topology_QueueCreated)
  ultimately have "broker_ok ?b2" by (simp add: broker_ok_def)
  moreover have "broker_ok (startQueue a x) \<longleftrightarrow> broker_ok x" for a x
    by (simp add: broker_ok_def broker_defs log_ok_def startQueue_def)
  ultimately show ?thesis using run by auto
qed

lemma validType: "validateExchangeType t = Inr ty \<Longrightarrow> exchange_type_string ty = t"
  by (auto simp: validateExchangeType_def split: if_splits)

lemma CreateExchange_success:
  assumes ok: "broker_with Y b" and n: "validateExchangeName n = None" "map_of (b_exchanges b) n = None"
    and ty: "validateExchangeType t = Inr ty"
  shows "\<exists>f. CreateExchange n t b = (None, b\<lparr>b_world := (b_world b)\<lparr>w_wal := f\<rparr>,
      b_exchanges := gm_put n (NewExchangeFactory n ty) (b_exchanges b)\<rparr>)
    \<and> broker_with (Y(n := None)) (b\<lparr>b_world := (b_world b)\<lparr>w_wal := f\<rparr>,
      b_exchanges := gm_put n (NewExchangeFactory n ty) (b_exchanges b)\<rparr>)"
proof -
  let ?r = "zero_record\<lparr>r_Type := ExchangeCreated, r_Exchange := n, r_ExchangeType := t\<rparr>"
  note d = broker_withD [OF ok]
  have "loggable ?r" by simp
  then obtain f where f: "b_Append ?r b = (None, b\<lparr>b_world := (b_world b)\<lparr>w_wal := f\<rparr>\<rparr>)" "reliable f"
    "\<forall>st. wal_Load (w_wal (b_world b)) = Inr st \<longrightarrow> wal_Load f = Inr (apply_record ?r st)"
    using append_reliable [OF log_with_reliable [OF d(4)]] by blast
  let ?b = "b\<lparr>b_world := (b_world b)\<lparr>w_wal := f\<rparr>, b_exchanges := gm_put n (NewExchangeFactory n ty) (b_exchanges b)\<rparr>"
  have nd: "n \<noteq> DefaultExchangeName" using n(1) by (auto simp: validateExchangeName_def split: if_splits)
  have m: "(map_of (b_exchanges b))(n \<mapsto> e) ++ Y(n := None) = (map_of (b_exchanges b) ++ Y)(n \<mapsto> e)" for e
    by (auto simp: map_add_def fun_eq_iff split: option.splits)
  have "log_with (Y(n := None)) ?b"
    by (rule log_withI [OF d(4) f(2) _ f(3)])
      (use nd in \<open>simp_all add: m topology_ExchangeCreated validType [OF ty]\<close>)
  moreover have "exchanges_ok ?b" using d(2) n(1) unfolding exchanges_ok_def by (auto simp: factory_empty exchange_ok_def)
  moreover have "CreateExchange n t b = (None, ?b)" using n ty f(1) by (simp add: CreateExchange_def)
  ultimately show ?thesis using d(1,3,5) by (auto simp: broker_with_def)
qed

lemma CreateExchange_ok:
  assumes ok: "broker_ok b" and run: "CreateExchange n t b = (r, b')"
  shows "broker_ok b'"
proof (cases "validateExchangeName n = None \<and> (\<exists>ty. validateExchangeType t = Inr ty) \<and> map_of (b_exchanges b) n = None")
  case False
  with ok run show ?thesis by (auto simp: CreateExchange_def split: option.splits sum.splits if_splits)
next
  case True
  then obtain ty where ty: "validateExchangeType t = Inr ty" by blast
  from CreateExchange_success [OF ok [folded broker_with_none] _ _ ty, of n] True run show ?thesis
    by (auto simp: broker_with_none)
qed

lemma DeleteExchange_ok:
  assumes ok: "broker_ok b" and run: "DeleteExchange n b = (r, b')"
  shows "broker_ok b'"
proof (cases "validateExchangeName n = None \<and> (\<exists>e. map_of (b_exchanges b) n = Some e \<and> ex_ListBindings e = [])")
  case False
  with ok run show ?thesis by (auto simp: DeleteExchange_def split: option.splits if_splits)
next
  case True
  let ?r = "zero_record\<lparr>r_Type := ExchangeDeleted, r_Exchange := n\<rparr>"
  note d = broker_okD [OF ok]
  have "loggable ?r" by simp
  then obtain f where f: "b_Append ?r b = (None, b\<lparr>b_world := (b_world b)\<lparr>w_wal := f\<rparr>\<rparr>)" "reliable f"
    "\<forall>st. wal_Load (w_wal (b_world b)) = Inr st \<longrightarrow> wal_Load f = Inr (apply_record ?r st)"
    using append_reliable [OF log_ok_reliable [OF d(4)]] by blast
  have b': "b' = b\<lparr>b_world := (b_world b)\<lparr>w_wal := f\<rparr>, b_exchanges := gm_del n (b_exchanges b)\<rparr>"
    using run True f(1) by (auto simp: DeleteExchange_def)
  have n: "n \<noteq> DefaultExchangeName" using True by (auto simp: validateExchangeName_def split: if_splits)
  then have "log_ok b'"
    by (intro log_okI [OF d(4) f(2) _ f(3)]) (simp_all add: b' topology_ExchangeDeleted)
  moreover have "exchanges_ok b'"
    using d(2) n unfolding exchanges_ok_def b' by simp
  ultimately show ?thesis using d(1,3,5) by (simp add: b' broker_ok_def)
qed

subsection \<open>Binding and unbinding\<close>

lemma exchanges_ok_put:
  assumes "exchanges_ok b" and "exchange_ok n e"
    and "\<forall>x \<in> set (ex_ListBindings e). map_of (b_queues b) (QueueName x) \<noteq> None"
  shows "exchanges_ok (b\<lparr>b_world := w, b_exchanges := gm_put n e (b_exchanges b)\<rparr>)"
  using assms unfolding exchanges_ok_def by auto

lemma exchange_okD:
  assumes "exchanges_ok b" and "map_of (b_exchanges b) n = Some e"
  shows "exchange_ok n e"
    and "\<forall>x \<in> set (ex_ListBindings e). map_of (b_queues b) (QueueName x) \<noteq> None"
  using assms unfolding exchanges_ok_def by blast+

lemma BindQueue_success:
  assumes ok: "broker_with Y b" and key: "validateBindingKey k = None" and q: "map_of (b_queues b) q \<noteq> None"
    and e: "map_of (b_exchanges b) n = Some e" "ex_Bind k q e = (None, e')" and Y: "Y n = None"
  shows "\<exists>f. BindQueue n q k b = (None, b\<lparr>b_world := (b_world b)\<lparr>w_wal := f\<rparr>, b_exchanges := gm_put n e' (b_exchanges b)\<rparr>)
    \<and> broker_with Y (b\<lparr>b_world := (b_world b)\<lparr>w_wal := f\<rparr>, b_exchanges := gm_put n e' (b_exchanges b)\<rparr>)"
proof -
  let ?r = "zero_record\<lparr>r_Type := QueueBinded, r_Exchange := n, r_Queue := q, r_BindingKey := k\<rparr>"
  let ?b = "b\<lparr>b_exchanges := gm_put n e' (b_exchanges b)\<rparr>"
  note d = broker_withD [OF ok] and x = exchange_okD [OF broker_withD(2) [OF ok] e(1)]
  have rl: "reliable (w_wal (b_world ?b))" "loggable ?r" using log_with_reliable [OF d(4)] by simp_all
  obtain f where f: "b_Append ?r ?b = (None, ?b\<lparr>b_world := (b_world ?b)\<lparr>w_wal := f\<rparr>\<rparr>)" "reliable f"
    "\<forall>st. wal_Load (w_wal (b_world ?b)) = Inr st \<longrightarrow> wal_Load f = Inr (apply_record ?r st)"
    using append_reliable [OF rl] by blast
  let ?b' = "b\<lparr>b_world := (b_world b)\<lparr>w_wal := f\<rparr>, b_exchanges := gm_put n e' (b_exchanges b)\<rparr>"
  have m: "(map_of (b_exchanges b))(n \<mapsto> e') ++ Y = (map_of (b_exchanges b) ++ Y)(n \<mapsto> e')"
    "(map_of (b_exchanges b) ++ Y) n = Some e"
    using Y e(1) by (auto simp: map_add_def fun_eq_iff split: option.splits)
  have "topology (apply_record ?r st) ((map_of (b_exchanges b) ++ Y)(n \<mapsto> e')) Q"
    if "topology st (map_of (b_exchanges b) ++ Y) Q" for st Q
    by (rule topology_Binded [where e = e and k = k and q = q]) (use that m(2) e(2) in simp_all)
  then have "log_with Y ?b'"
    by (intro log_withI [OF d(4) f(2), where r = ?r]) (use f(3) m(1) in simp_all)
  moreover have "ex_ListBindings e' = ex_ListBindings e @ [\<lparr>QueueName = q, BindingKey = k\<rparr>]"
    using exc.bind_law [OF e(2)] by (auto split: if_splits)
  then have "exchanges_ok ?b'"
    using x q key exc.bind_distinct [OF e(2)]
    by (intro exchanges_ok_put [OF d(2)]) (auto simp: exchange_ok_def)
  moreover have "BindQueue n q k b = (None, ?b')" using key q e f(1) by (auto simp: BindQueue_def)
  ultimately show ?thesis using d(1,3,5) by (auto simp: broker_with_def)
qed

lemma BindQueue_ok:
  assumes ok: "broker_ok b" and run: "BindQueue n q k b = (r, b')"
  shows "broker_ok b'"
proof (cases "validateBindingKey k = None \<and> map_of (b_queues b) q \<noteq> None
    \<and> (\<exists>e e'. map_of (b_exchanges b) n = Some e \<and> ex_Bind k q e = (None, e'))")
  case False
  with ok run show ?thesis by (auto simp: BindQueue_def split: option.splits if_splits prod.splits)
next
  case True
  then obtain e e' where e: "map_of (b_exchanges b) n = Some e" "ex_Bind k q e = (None, e')" by blast
  from BindQueue_success [OF ok [folded broker_with_none] _ _ e] True run show ?thesis
    by (auto simp: broker_with_none)
qed

lemma UnbindQueue_ok:
  assumes ok: "broker_ok b" and run: "UnbindQueue n q k b = (r, b')"
  shows "broker_ok b'"
proof (cases "map_of (b_queues b) q \<noteq> None
    \<and> (\<exists>e e'. map_of (b_exchanges b) n = Some e \<and> ex_Unbind k q e = (None, e'))")
  case False
  with ok run show ?thesis by (auto simp: UnbindQueue_def split: option.splits if_splits prod.splits)
next
  case True
  then obtain e e' where e: "map_of (b_exchanges b) n = Some e" "ex_Unbind k q e = (None, e')" by blast
  let ?r = "zero_record\<lparr>r_Type := QueueUnbinded, r_Exchange := n, r_Queue := q, r_BindingKey := k\<rparr>"
  let ?b = "b\<lparr>b_exchanges := gm_put n e' (b_exchanges b)\<rparr>"
  note d = broker_okD [OF ok] and x = exchange_okD [OF broker_okD(2) [OF ok] e(1)]
  have rl: "reliable (w_wal (b_world ?b))" "loggable ?r" using log_ok_reliable [OF d(4)] by simp_all
  obtain f where f: "b_Append ?r ?b = (None, ?b\<lparr>b_world := (b_world ?b)\<lparr>w_wal := f\<rparr>\<rparr>)" "reliable f"
    "\<forall>st. wal_Load (w_wal (b_world ?b)) = Inr st \<longrightarrow> wal_Load f = Inr (apply_record ?r st)"
    using append_reliable [OF rl] by blast
  have b': "b' = b\<lparr>b_world := (b_world b)\<lparr>w_wal := f\<rparr>, b_exchanges := gm_put n e' (b_exchanges b)\<rparr>"
    using run True e f(1) by (auto simp: UnbindQueue_def)
  have "log_ok b'"
    by (rule log_okI [OF d(4) f(2), where r = ?r]) (use b' f(3) e in \<open>simp_all add: topology_Unbinded\<close>)
  moreover have "ex_ListBindings e' = DeleteFunc (ex_ListBindings e) (unbinds k q)"
    using exc.unbind_law [OF e(2)] by (auto split: if_splits)
  then have "exchanges_ok b'"
    unfolding b' using x by (intro exchanges_ok_put [OF d(2)]) (auto simp: exchange_ok_def)
  ultimately show ?thesis using d(1,3,5) by (simp add: b' broker_ok_def)
qed

subsection \<open>Deleting a queue\<close>

text \<open>
  While the queue's bindings are being removed, the exchanges still to be visited (those of
  \<open>order\<close>) may hold bindings to the queue that is gone.
\<close>

definition dangling :: "string list \<Rightarrow> string \<Rightarrow> broker \<Rightarrow> bool" where
  "dangling order name b \<longleftrightarrow> gm_wf (b_exchanges b) \<and> map_of (b_exchanges b) DefaultExchangeName \<noteq> None
     \<and> (\<forall>n e. map_of (b_exchanges b) n = Some e \<longrightarrow> exchange_ok n e \<and>
          (\<forall>x \<in> set (ex_ListBindings e). map_of (b_queues b) (QueueName x) \<noteq> None
             \<or> QueueName x = name \<and> n \<in> set order))"

lemma dangling_done: "dangling [] name b \<Longrightarrow> exchanges_ok b"
  by (simp add: dangling_def exchanges_ok_def)

lemma dangling_skip:
  assumes "dangling (n # order) name b"
    and "\<And>e x. map_of (b_exchanges b) n = Some e \<Longrightarrow> x \<in> set (ex_ListBindings e) \<Longrightarrow> QueueName x \<noteq> name"
  shows "dangling order name b"
  using assms unfolding dangling_def by fastforce

lemma dangling_put:
  assumes "dangling (n # order) name b" and "map_of (b_exchanges b) n = Some e"
    and "set (ex_ListBindings e') \<subseteq> {x \<in> set (ex_ListBindings e). QueueName x \<noteq> name}"
    and "exchange_ok n e'"
  shows "dangling order name (b\<lparr>b_world := w, b_exchanges := gm_put n e' (b_exchanges b)\<rparr>)"
proof -
  from assms(1,2) have e: "\<forall>x \<in> set (ex_ListBindings e). map_of (b_queues b) (QueueName x) \<noteq> None \<or> QueueName x = name"
    by (auto simp: dangling_def)
  have other: "exchange_ok m e0 \<and> (\<forall>x \<in> set (ex_ListBindings e0).
      map_of (b_queues b) (QueueName x) \<noteq> None \<or> QueueName x = name \<and> m \<in> set order)"
    if "map_of (b_exchanges b) m = Some e0" "m \<noteq> n" for m e0
    using assms(1) that unfolding dangling_def by fastforce
  from assms(1) show ?thesis
    unfolding dangling_def using e other assms(3,4) by (auto split: if_splits)
qed

lemma unbind_everywhere_ok:
  assumes "log_ok b" and "dangling order name b"
  shows "\<exists>f X. unbind_everywhere order name b = (None, b\<lparr>b_world := (b_world b)\<lparr>w_wal := f\<rparr>, b_exchanges := X\<rparr>)
    \<and> log_ok (b\<lparr>b_world := (b_world b)\<lparr>w_wal := f\<rparr>, b_exchanges := X\<rparr>)
    \<and> exchanges_ok (b\<lparr>b_world := (b_world b)\<lparr>w_wal := f\<rparr>, b_exchanges := X\<rparr>)"
  using assms
proof (induction order arbitrary: b)
  case Nil
  then show ?case using dangling_done
    by (intro exI [of _ "w_wal (b_world b)"] exI [of _ "b_exchanges b"]) simp
next
  case (Cons n order)
  show ?case
  proof (cases "map_of (b_exchanges b) n")
    case None
    with Cons dangling_skip [OF Cons.prems(2)] show ?thesis by simp
  next
    case (Some e)
    obtain r e' where u: "ex_Unbind '''' name e = (r, e')" by (cases "ex_Unbind '''' name e")
    show ?thesis
    proof (cases "\<exists>x \<in> set (ex_ListBindings e). unbinds '''' name x")
      case False
      then have r: "r = Some ErrBindingNotExist" using exc.unbind_law [OF u] by simp
      have "dangling order name b"
        by (rule dangling_skip [OF Cons.prems(2)]) (use Some False in \<open>auto simp: unbinds_def\<close>)
      with Cons.IH [OF Cons.prems(1)] Some u r show ?thesis by simp
    next
      case True
      with exc.unbind_law [OF u] have r: "r = None"
        and e': "ex_ListBindings e' = DeleteFunc (ex_ListBindings e) (unbinds '''' name)" by simp_all
      let ?r = "zero_record\<lparr>r_Type := QueueUnbinded, r_Exchange := n, r_Queue := name\<rparr>"
      let ?b = "b\<lparr>b_exchanges := gm_put n e' (b_exchanges b)\<rparr>"
      have rl: "reliable (w_wal (b_world ?b))" "loggable ?r" using log_ok_reliable [OF Cons.prems(1)] by simp_all
      obtain f where f: "b_Append ?r ?b = (None, ?b\<lparr>b_world := (b_world ?b)\<lparr>w_wal := f\<rparr>\<rparr>)" "reliable f"
        "\<forall>st. wal_Load (w_wal (b_world ?b)) = Inr st \<longrightarrow> wal_Load f = Inr (apply_record ?r st)"
        using append_reliable [OF rl] by blast
      let ?b1 = "b\<lparr>b_world := (b_world b)\<lparr>w_wal := f\<rparr>, b_exchanges := gm_put n e' (b_exchanges b)\<rparr>"
      have rec: "?r = zero_record\<lparr>r_Type := QueueUnbinded, r_Exchange := n, r_Queue := name, r_BindingKey := ''''\<rparr>"
        by (simp add: zero_record_def)
      have top: "topology (apply_record ?r st) ((map_of (b_exchanges b))(n \<mapsto> e')) Q"
        if "topology st (map_of (b_exchanges b)) Q" for st Q
        by (rule topology_Unbinded [where e = e and k = "''''" and q = name])
          (use that Some u r rec in simp_all)
      have "log_ok ?b1"
        by (rule log_okI [OF Cons.prems(1) f(2), where r = ?r]) (use f(3) top in simp_all)
      moreover have "dangling order name ?b1"
        by (rule dangling_put [OF Cons.prems(2) Some])
          (use e' Some Cons.prems(2) in \<open>auto simp: unbinds_def dangling_def exchange_ok_def\<close>)
      moreover have "b_Append ?r ?b = (None, ?b1)" using f(1) by simp
      ultimately show ?thesis using Cons.IH [of ?b1] Some u r by simp
    qed
  qed
qed


subsection \<open>Operations of a runtime\<close>

text \<open>An operation of one runtime, seen from the broker.\<close>

lemma sess_ok_face:
  assumes "sess_ok w q" and "\<And>i c. map_of (consumerSessions q) i = Some c \<Longrightarrow> face w' c = face w c"
  shows "sess_ok w' q"
  unfolding sess_ok_def
proof (intro allI impI)
  fix i c
  assume c: "map_of (consumerSessions q) i = Some c"
  with assms(1) obtain s where "w_sessions w c = Some s" "cs_ID s = i" "\<not> Closed s" by (auto simp: sess_ok_def)
  with assms(2) [OF c] show "\<exists>s. w_sessions w' c = Some s \<and> cs_ID s = i \<and> \<not> Closed s"
    by (auto simp: face_def)
qed

lemma other_base:
  assumes "base w q" and "w_uuids w' = w_uuids w" and "w_uuid_pos w \<le> w_uuid_pos w'"
    and "\<And>i c. map_of (consumerSessions q) i = Some c \<Longrightarrow> face w' c = face w c"
  shows "base w' q"
  using assms sess_ok_face [OF base_parts(2) [OF assms(1)] assms(4)]
    tokens_ok_mono [OF base_parts(3) [OF assms(1)] assms(2,3)] by (simp add: base_def)

lemma effectD:
  assumes "effect w q w' q'" and "reliable (w_wal w)"
  shows "q_name q' = q_name q" "hooks q' = hooks q" "log_step (q_name q) (w_wal w) (w_wal w')"
    "owners_step q (w_tokenOwners w) (w_tokenOwners w')"
    "map_of (consumerSessions q') \<subseteq>\<^sub>m map_of (consumerSessions q)"
    "c \<notin> ran (map_of (consumerSessions q)) \<Longrightarrow> face w' c = face w c"
    "w_uuids w' = w_uuids w" "w_uuid_pos w \<le> w_uuid_pos w'"
    "retired q \<Longrightarrow> retired q'" "retired q \<Longrightarrow> w_wal w' = w_wal w"
  using assms by (simp_all add: effect_def)

lemma runtimes_okD:
  assumes "runtimes_ok b" and "b_runtimes b a = Some q"
  shows "a < b_next b" "base (b_world b) q" "hooks q = Some a"
    "map_of (b_queues b) (q_name q) = Some a \<or> retired q"
    "\<And>a' q' i i' c. b_runtimes b a' = Some q' \<Longrightarrow> map_of (consumerSessions q) i = Some c \<Longrightarrow>
       map_of (consumerSessions q') i' = Some c \<Longrightarrow> a = a'"
  using assms unfolding runtimes_ok_def by blast+

lemma runtimes_ok_set:
  assumes ok: "runtimes_ok b" and a: "b_runtimes b a = Some q" and eff: "effect (b_world b) q w' q'"
    and base: "base w' q'" and rel: "reliable (w_wal (b_world b))"
  shows "runtimes_ok (set_runtime a w' q' b)"
proof -
  note e = effectD [OF eff rel] and r = runtimes_okD [OF ok a]
  have le: "map_of (consumerSessions q) i = Some c" if "map_of (consumerSessions q') i = Some c" for i c
    using e(5) that by (force simp: map_le_def)
  have other: "base w' p" if "b_runtimes b a' = Some p" "a' \<noteq> a" for a' p
  proof (rule other_base [OF runtimes_okD(2) [OF ok that(1)] e(7,8)])
    fix i c
    assume "map_of (consumerSessions p) i = Some c"
    with runtimes_okD(5) [OF ok that(1) a] that(2) have "c \<notin> ran (map_of (consumerSessions q))"
      by (auto simp: ran_def)
    then show "face w' c = face (b_world b) c" by (rule e(6))
  qed
  show ?thesis
    unfolding runtimes_ok_def set_runtime_def
    using runtimes_okD [OF ok] other r e(1,2,9) base le by (auto split: if_splits; metis)
qed

lemma log_ok_set:
  assumes "log_ok b" and "effect (b_world b) q w' q'"
    and "q_name q \<in> dom (map_of (b_queues b)) \<or> retired q"
  shows "log_ok (set_runtime a w' q' b)"
proof (cases "retired q")
  case True
  from effectD(10) [OF assms(2) log_ok_reliable [OF assms(1)] True] assms(1) show ?thesis
    by (simp add: log_ok_def set_runtime_def)
next
  case False
  from assms(1) obtain st where st: "wal_Load (w_wal (b_world b)) = Inr st"
    "topology st (map_of (b_exchanges b)) (dom (map_of (b_queues b)))" by (auto simp: log_ok_def)
  from effectD(3) [OF assms(2) log_ok_reliable [OF assms(1)]] st(1) obtain st' where
    "reliable (w_wal w')" "wal_Load (w_wal w') = Inr st'" "same_elsewhere (q_name q) st st'"
    by (auto simp: log_step_def)
  with topology_elsewhere [OF st(2)] assms(3) False show ?thesis
    by (auto simp: log_ok_def set_runtime_def)
qed

lemma owners_ok_set:
  assumes "owners_ok b" and "owners_step q (w_tokenOwners (b_world b)) (w_tokenOwners w')"
    and "hooks q = Some a" and "map_of (b_queues b) (q_name q) = Some a \<or> retired q"
  shows "owners_ok (set_runtime a w' q' b)"
  using assms unfolding owners_ok_def owners_step_def set_runtime_def
  by simp (metis ranI)

lemma set_runtime_ok:
  assumes ok: "broker_ok b" and a: "b_runtimes b a = Some q" and eff: "effect (b_world b) q w' q'"
    and base: "base w' q'"
  shows "broker_ok (set_runtime a w' q' b)"
proof -
  note d = broker_okD [OF ok] and r = runtimes_okD [OF broker_okD(5) [OF ok] a]
  note rel = log_ok_reliable [OF d(4)]
  have "queues_ok (set_runtime a w' q' b)"
    using d(1) a effectD(1) [OF eff rel] by (fastforce simp: queues_ok_def set_runtime_def)
  moreover have "exchanges_ok (set_runtime a w' q' b)"
    using d(2) by (simp add: exchanges_ok_def set_runtime_def)
  moreover have "owners_ok (set_runtime a w' q' b)"
    by (rule owners_ok_set [OF d(3) effectD(4) [OF eff rel] r(3,4)])
  moreover have "log_ok (set_runtime a w' q' b)"
    by (rule log_ok_set [OF d(4) eff]) (use r(4) in auto)
  ultimately show ?thesis
    using runtimes_ok_set [OF d(5) a eff base rel] by (simp add: broker_ok_def)
qed

end
