(* ===== verification/Broker_Calls.thy ===== *)
theory Broker_Calls
  imports Broker_Topology
begin

text \<open>
  The calls of the broker that work on its queues (publish, subscribe, unsubscribe, ack, delete,
  start, shutdown, metrics) return, without a panic, and keep the invariants of the broker.
\<close>

subsection \<open>Finding a runtime\<close>

lemma queues_okD:
  assumes "queues_ok b" and "map_of (b_queues b) n = Some a"
  obtains q where "b_runtimes b a = Some q" and "q_name q = n"
  using assms unfolding queues_ok_def by blast

lemma queue_named:
  "queues_ok b \<Longrightarrow> map_of (b_queues b) n = Some a \<Longrightarrow> b_runtimes b a = Some q \<Longrightarrow> q_name q = n"
  by (auto elim: queues_okD)

lemma address_named:
  assumes "queues_ok b" and "map_of (b_queues b) n = Some a" and "map_of (b_queues b) k = Some a"
  shows "k = n"
proof -
  obtain q where q: "b_runtimes b a = Some q" using queues_okD [OF assms(1,2)] .
  show ?thesis using queue_named [OF assms(1,2) q] queue_named [OF assms(1,3) q] by simp
qed

lemma find_queue_runtime:
  assumes "queues_ok b" and "find_queue n b = Inr a"
  obtains q where "b_runtimes b a = Some q"
  using assms by (auto simp: find_queue_def Let_def split: if_splits option.splits elim: queues_okD)

lemma base_tokens [simp]: "base (w\<lparr>w_tokenOwners := m\<rparr>) q = base w q"
  by (simp add: base_def sess_ok_def tokens_ok_def)

lemma runtimes_ok_tokens [simp]:
  "runtimes_ok (b\<lparr>b_world := (b_world b)\<lparr>w_tokenOwners := m\<rparr>\<rparr>) = runtimes_ok b"
  by (simp add: runtimes_ok_def)

lemma set_runtime_simps [simp]:
  "b_queues (set_runtime a w q b) = b_queues b" "b_exchanges (set_runtime a w q b) = b_exchanges b"
  "b_world (set_runtime a w q b) = w" "b_next (set_runtime a w q b) = b_next b"
  "b_runtimes (set_runtime a w q b) = (b_runtimes b)(a \<mapsto> q)" "b_cfg (set_runtime a w q b) = b_cfg b"
  "b_closed (set_runtime a w q b) = b_closed b" "b_started (set_runtime a w q b) = b_started b"
  "b_workers (set_runtime a w q b) = b_workers b" "b_cancelled (set_runtime a w q b) = b_cancelled b"
  "set_runtime a w q (b\<lparr>b_world := w'\<rparr>) = set_runtime a w q b"
  by (simp_all add: set_runtime_def)

lemma step_ok:
  assumes "broker_ok b" and "b_runtimes b a = Some q"
    and "\<And>admit. base (b_world b) q \<Longrightarrow> steps admit (b_world b) q w' q'"
  shows "broker_ok (set_runtime a w' q' b)"
proof -
  have base: "base (b_world b) q" by (rule runtimes_okD(2) [OF broker_okD(5) [OF assms(1)] assms(2)])
  with steps_effect [OF assms(3)] have "effect (b_world b) q w' q'" "base w' q'" by simp_all
  then show ?thesis by (rule set_runtime_ok [OF assms(1,2)])
qed

subsection \<open>Publishing\<close>

lemma runtime_Publish_ok:
  assumes ok: "broker_ok b" and a: "b_runtimes b a = Some q"
  shows "\<exists>out w' q'. qr_Publish m ttl (b_world b) q = Some (out, w', q') \<and> broker_ok (set_runtime a w' q' b)"
proof -
  have base: "base (b_world b) q" by (rule runtimes_okD(2) [OF broker_okD(5) [OF ok] a])
  obtain out w' q' where p: "qr_Publish m ttl (b_world b) q = Some (out, w', q')"
    using qr_Publish_total [OF base_parts(1) [OF base]] by blast
  with set_runtime_ok [OF ok a qr_Publish_effect [OF base_parts(1) [OF base] p] qr_Publish_base [OF base p]]
  show ?thesis by blast
qed

lemma publish_loop_ok:
  "broker_ok b \<Longrightarrow> \<exists>r b'. publish_loop m ttl names b = Some (r, b') \<and> broker_ok b'"
proof (induction names arbitrary: b)
  case (Cons n names)
  show ?case
  proof (cases "find_queue n b")
    case (Inr a)
    obtain q where q: "b_runtimes b a = Some q" using find_queue_runtime [OF broker_okD(1) [OF Cons.prems] Inr] .
    obtain out w' q' where p: "qr_Publish m ttl (b_world b) q = Some (out, w', q')"
      and ok: "broker_ok (set_runtime a w' q' b)" using runtime_Publish_ok [OF Cons.prems q] by blast
    from Cons.IH [OF ok] Inr q p ok show ?thesis by (cases out) auto
  qed (use Cons.prems in auto)
qed auto

lemma publish_wake_ok:
  assumes "broker_ok b" and "b_runtimes b a \<noteq> None"
  shows "\<exists>r b'. publish_wake m ttl a names b = Some (r, b') \<and> broker_ok b'"
proof -
  from assms(2) obtain q where q: "b_runtimes b a = Some q" by blast
  obtain out w' q' where p: "qr_Publish m ttl (b_world b) q = Some (out, w', q')"
    and ok: "broker_ok (set_runtime a w' q' b)" using runtime_Publish_ok [OF assms(1) q] by blast
  from publish_loop_ok [OF ok] q p ok show ?thesis by (cases out) (auto simp: publish_wake_def)
qed

lemma Publish_ok:
  assumes "broker_ok b"
  shows "\<exists>r b'. Publish ex key m ttl b = Some (r, b') \<and> broker_ok b'"
  using assms publish_loop_ok [OF assms] by (auto simp: Publish_def Let_def split: option.splits)

subsection \<open>Consumers\<close>

lemma with_session_ok:
  assumes ok: "broker_ok b" and new: "w_sessions (b_world b) c = None"
  shows "broker_ok (b\<lparr>b_world := with_session c i (b_world b)\<rparr>)"
proof -
  note d = broker_okD [OF ok]
  have "base (with_session c i (b_world b)) q" if "b_runtimes b a = Some q" for a q
  proof (rule other_base)
    show base: "base (b_world b) q" by (rule runtimes_okD(2) [OF d(5) that])
    fix j x
    assume "map_of (consumerSessions q) j = Some x"
    with base_parts(2) [OF base] new have "x \<noteq> c" by (fastforce simp: sess_ok_def)
    then show "face (with_session c i (b_world b)) x = face (b_world b) x" by (simp add: face_def)
  qed simp_all
  with d(5) have "runtimes_ok (b\<lparr>b_world := with_session c i (b_world b)\<rparr>)"
    unfolding runtimes_ok_def by simp
  with d show ?thesis
    by (simp add: broker_ok_def owners_ok_def exchanges_ok_def log_ok_def)
qed

lemma join_ok:
  assumes ok: "broker_ok b" and a: "b_runtimes b a = Some q"
    and new: "w_sessions (b_world b) c = None" and w: "w = with_session c i (b_world b)"
    and run: "qr_Subscribe c w q = Some (e, q')"
  shows "broker_ok (set_runtime a w q' b)"
proof (cases "consumerSessions q' = consumerSessions q")
  case True
  then have "q' = q"
    using run w by (auto simp: qr_Subscribe_def gm_put_new split: if_splits option.splits dest: arg_cong [of _ _ length])
  then have "set_runtime a w q' b = b\<lparr>b_world := w\<rparr>" using a by (simp add: set_runtime_def fun_upd_idem)
  with with_session_ok [OF ok new] w show ?thesis by simp
next
  case False
  let ?b = "b\<lparr>b_world := w\<rparr>"
  have ok1: "broker_ok ?b" using with_session_ok [OF ok new] w by simp
  note d = broker_okD [OF ok1] and r = runtimes_okD [OF broker_okD(5) [OF ok1], of a q]
  have a1: "b_runtimes ?b a = Some q" using a by simp
  from False run w have q': "q' = notify (q\<lparr>consumerSessions := gm_put i c (consumerSessions q),
      consumerOrder := consumerOrder q @ [i]\<rparr>)" and open': "\<not> q_closed q"
    by (auto simp: qr_Subscribe_def NewConsumerSession_def split: if_splits option.splits)
  have base: "base w q" using runtimes_okD(2) [OF d(5) a1] by simp
  have s: "w_sessions w c = Some (NewConsumerSession i)" by (simp add: w)
  have sok: "sess_ok w q'" by (rule qr_Subscribe_sess_ok [OF base_parts(2) [OF base] s _ run]) (simp add: NewConsumerSession_def)
  then have base': "base w q'"
    using qr_Subscribe_wf [OF base_parts(1) [OF base] run] base_parts(3) [OF base]
    by (simp add: base_def q' tokens_ok_def)
  have fresh: "c \<notin> ran (map_of (consumerSessions p))" if "b_runtimes b x = Some p" for x p
    using base_parts(2) [OF runtimes_okD(2) [OF broker_okD(5) [OF ok] that]] new
    by (fastforce simp: sess_ok_def ran_def)
  have "runtimes_ok (set_runtime a w q' b)"
    unfolding runtimes_ok_def set_runtime_def
    using runtimes_okD [OF d(5)] a base' open' fresh
    by (auto simp: q' retired_def ran_def qr_messages_def split: if_splits; metis)
  moreover have "queues_ok (set_runtime a w q' b)"
    using d(1) a by (fastforce simp: queues_ok_def q')
  ultimately show ?thesis
    using d by (simp add: broker_ok_def owners_ok_def exchanges_ok_def log_ok_def)
qed

lemma Subscribe_ok:
  assumes ok: "broker_ok b" and new: "w_sessions (b_world b) c = None"
  shows "\<exists>r b'. Subscribe n c (b\<lparr>b_world := with_session c i (b_world b)\<rparr>) = Some (r, b') \<and> broker_ok b'"
proof -
  let ?w = "with_session c i (b_world b)"
  let ?b = "b\<lparr>b_world := ?w\<rparr>"
  have ok1: "broker_ok ?b" by (rule with_session_ok [OF ok new])
  show ?thesis
  proof (cases "find_queue n ?b")
    case (Inl e)
    with ok1 show ?thesis by (simp add: Subscribe_def)
  next
    case (Inr a)
    obtain q where q: "b_runtimes ?b a = Some q" using find_queue_runtime [OF broker_okD(1) [OF ok1] Inr] .
    have "qr_Subscribe c ?w q \<noteq> None" by (simp add: qr_Subscribe_def split: option.splits)
    then obtain e q' where s: "qr_Subscribe c ?w q = Some (e, q')" by auto
    from join_ok [OF ok _ new refl s] q Inr s show ?thesis by (simp add: Subscribe_def)
  qed
qed

lemma Unsubscribe_ok:
  assumes "broker_ok b"
  shows "\<exists>b'. Unsubscribe n i b = Some b' \<and> broker_ok b'"
proof (cases "find_queue n b")
  case (Inr a)
  obtain q where q: "b_runtimes b a = Some q" using find_queue_runtime [OF broker_okD(1) [OF assms] Inr] .
  obtain w' q' where u: "qr_Unsubscribe i (b_world b) q = (w', q')" by fastforce
  from step_ok [OF assms q steps_leaving(1) [OF _ u]] Inr q u show ?thesis by (simp add: Unsubscribe_def)
qed (use assms in \<open>simp add: Unsubscribe_def\<close>)

lemma Ack_ok:
  assumes "broker_ok b"
  shows "\<exists>r b'. Ack t b = Some (r, b') \<and> broker_ok b'"
proof (cases "map_of (w_tokenOwners (b_world b)) t")
  case (Some a)
  with broker_okD(3) [OF assms] obtain n where "map_of (b_queues b) n = Some a"
    by (auto simp: owners_ok_def ran_def)
  then obtain q where q: "b_runtimes b a = Some q" by (rule queues_okD [OF broker_okD(1) [OF assms]])
  obtain e w' q' where u: "qr_Ack t (b_world b) q = (e, w', q')" using prod_cases3 by blast
  from step_ok [OF assms q steps_Ack [OF u]] Some q u show ?thesis by (simp add: Ack_def)
qed (use assms in \<open>simp add: Ack_def\<close>)


subsection \<open>Deleting a queue\<close>

lemma CloseIfEmpty_retired:
  assumes "qr_wf q" and "CloseIfEmpty w q = (True, w', q')"
  shows "retired q'"
proof -
  from assms(2) have "rb_Size (q_queue q) = 0" "mgr_Size (q_inFlight q) = 0"
    "q' = q\<lparr>q_closed := True, consumerSessions := [], consumerOrder := [], nextConsumer := 0\<rparr>"
    by (auto simp: CloseIfEmpty_def split: if_splits)
  moreover have "rb_list (q_queue q) = [] \<longleftrightarrow> rb_Size (q_queue q) = 0"
    using rb.size_content [OF qr_wf_parts(1) [OF assms(1)]] by simp
  ultimately show ?thesis
    by (simp add: retired_def qr_messages_def mgr_messages_def mgr_Size_def)
qed

lemma unlist_ok:
  assumes ok: "broker_ok b" and n: "map_of (b_queues b) n = Some a" "n \<noteq> DefaultQueueName"
    and q: "b_runtimes b a = Some q" "retired q"
  shows "queues_ok (b\<lparr>b_queues := gm_del n (b_queues b)\<rparr>)"
    and "runtimes_ok (b\<lparr>b_queues := gm_del n (b_queues b)\<rparr>)"
    and "\<And>t x. map_of (w_tokenOwners (b_world b)) t = Some x \<Longrightarrow> x \<noteq> a \<Longrightarrow> x \<in> ran (map_of (gm_del n (b_queues b)))"
    and "set order = dom (map_of (b_exchanges b)) \<Longrightarrow> dangling order n (b\<lparr>b_queues := gm_del n (b_queues b)\<rparr>)"
proof -
  note d = broker_okD [OF ok]
  show "queues_ok (b\<lparr>b_queues := gm_del n (b_queues b)\<rparr>)" using d(1) n(2) by (auto simp: queues_ok_def)
  show "runtimes_ok (b\<lparr>b_queues := gm_del n (b_queues b)\<rparr>)"
  proof -
    have "map_of (gm_del n (b_queues b)) (q_name p) = Some x \<or> retired p" if p: "b_runtimes b x = Some p" for x p
      using runtimes_okD(4) [OF d(5) p] n(1) q p by (cases "q_name p = n") auto
    with d(5) show ?thesis unfolding runtimes_ok_def by simp
  qed
  show "x \<in> ran (map_of (gm_del n (b_queues b)))"
    if t: "map_of (w_tokenOwners (b_world b)) t = Some x" "x \<noteq> a" for t x
  proof -
    obtain k where "map_of (b_queues b) k = Some x" using d(3) t(1) by (auto simp: owners_ok_def ran_def)
    with t(2) n(1) show ?thesis by (intro ranI [of _ k]) auto
  qed
  show "dangling order n (b\<lparr>b_queues := gm_del n (b_queues b)\<rparr>)"
    if "set order = dom (map_of (b_exchanges b))"
    using d(2) that unfolding dangling_def exchanges_ok_def by fastforce
qed


lemma forget_tokens_simps [simp]:
  "b_queues (forget_tokens a b) = b_queues b" "b_exchanges (forget_tokens a b) = b_exchanges b"
  "b_runtimes (forget_tokens a b) = b_runtimes b" "w_wal (b_world (forget_tokens a b)) = w_wal (b_world b)"
  "runtimes_ok (forget_tokens a b) = runtimes_ok b" "queues_ok (forget_tokens a b) = queues_ok b"
  by (simp_all add: forget_tokens_def)

lemma owners_forgotten:
  assumes "gm_wf (w_tokenOwners (b_world b))"
    and "\<And>t x. map_of (w_tokenOwners (b_world b)) t = Some x \<Longrightarrow> x \<noteq> a \<Longrightarrow> x \<in> ran (map_of (b_queues b))"
  shows "owners_ok (forget_tokens a b)"
proof -
  let ?m = "filter (\<lambda>p. snd p \<noteq> a) (w_tokenOwners (b_world b))"
  have wf: "gm_wf ?m" using assms(1) by (simp add: gm_wf_def distinct_map_filter)
  have "x \<in> ran (map_of (b_queues b))" if "map_of ?m t = Some x" for t x
  proof -
    from that have "(t, x) \<in> set (w_tokenOwners (b_world b))" "x \<noteq> a" by (auto dest: map_of_SomeD)
    with assms show ?thesis by (simp add: gm_wf_map_of)
  qed
  with wf show ?thesis by (simp add: owners_ok_def forget_tokens_def)
qed

lemma delete_tail_ok:
  assumes parts: "queues_ok b" "runtimes_ok b" "exchanges_ok b" "log_ok b"
    and owners: "gm_wf (w_tokenOwners (b_world b))"
      "\<And>t x. map_of (w_tokenOwners (b_world b)) t = Some x \<Longrightarrow> x \<noteq> a \<Longrightarrow> x \<in> ran (map_of (b_queues b))"
    and q: "b_runtimes b a = Some q" "retired q" and sd: "qr_Shutdown (b_world b) q = (w', q')"
  shows "broker_ok (forget_tokens a (set_runtime a w' q' b))"
proof -
  have base: "base (b_world b) q" by (rule runtimes_okD(2) [OF parts(2) q(1)])
  from steps_effect [OF steps_leaving(2) [OF base sd] base]
  have eff: "effect (b_world b) q w' q'" "base w' q'" by simp_all
  note rel = log_ok_reliable [OF parts(4)]
  have "w_tokenOwners w' = w_tokenOwners (b_world b)" using sd by (auto simp: qr_Shutdown_def)
  then have "owners_ok (forget_tokens a (set_runtime a w' q' b))"
    using owners by (intro owners_forgotten) simp_all
  moreover have "runtimes_ok (set_runtime a w' q' b)" by (rule runtimes_ok_set [OF parts(2) q(1) eff rel])
  moreover have "log_ok (set_runtime a w' q' b)" by (rule log_ok_set [OF parts(4) eff(1)]) (simp add: q(2))
  then have "log_ok (forget_tokens a (set_runtime a w' q' b))" by (rule log_ok_cong) simp_all
  moreover have "queues_ok (set_runtime a w' q' b)"
    using parts(1) q(1) effectD(1) [OF eff(1) rel] by (fastforce simp: queues_ok_def)
  ultimately show ?thesis using parts(3) by (simp add: broker_ok_def exchanges_ok_def)
qed

lemma delete_empty_ok:
  assumes ok: "broker_ok b" and n: "map_of (b_queues b) n = Some a" "n \<noteq> DefaultQueueName"
    and q: "b_runtimes b a = Some q" "retired q" and order: "set order = dom (map_of (b_exchanges b))"
  shows "\<exists>b1 b2 w' q'. b_Append (zero_record\<lparr>r_Type := QueueDeleted, r_Queue := n\<rparr>) b = (None, b1)
    \<and> unbind_everywhere order n (b1\<lparr>b_queues := gm_del n (b_queues b1)\<rparr>) = (None, b2)
    \<and> b_queues b2 = gm_del n (b_queues b) \<and> qr_Shutdown (b_world b2) q = (w', q')
    \<and> broker_ok (forget_tokens a (set_runtime a w' q' b2))"
proof -
  let ?r = "zero_record\<lparr>r_Type := QueueDeleted, r_Queue := n\<rparr>"
  note d = broker_okD [OF ok] and u = unlist_ok [OF ok n q]
  have "loggable ?r" by simp
  then obtain f where f: "b_Append ?r b = (None, b\<lparr>b_world := (b_world b)\<lparr>w_wal := f\<rparr>\<rparr>)" "reliable f"
    "\<forall>st. wal_Load (w_wal (b_world b)) = Inr st \<longrightarrow> wal_Load f = Inr (apply_record ?r st)"
    using append_reliable [OF log_ok_reliable [OF d(4)]] by blast
  let ?b1 = "b\<lparr>b_world := (b_world b)\<lparr>w_wal := f\<rparr>, b_queues := gm_del n (b_queues b)\<rparr>"
  have log1: "log_ok ?b1"
    by (rule log_okI [OF d(4) f(2), where r = ?r]) (use f(3) in \<open>simp_all add: topology_QueueDeleted\<close>)
  have "dangling order n ?b1" using u(4) [OF order] by (simp add: dangling_def)
  from unbind_everywhere_ok [OF log1 this] obtain f' X where
    b2: "unbind_everywhere order n ?b1 = (None, ?b1\<lparr>b_world := (b_world ?b1)\<lparr>w_wal := f'\<rparr>, b_exchanges := X\<rparr>)"
    "log_ok (?b1\<lparr>b_world := (b_world ?b1)\<lparr>w_wal := f'\<rparr>, b_exchanges := X\<rparr>)"
    "exchanges_ok (?b1\<lparr>b_world := (b_world ?b1)\<lparr>w_wal := f'\<rparr>, b_exchanges := X\<rparr>)" by blast
  let ?b2 = "?b1\<lparr>b_world := (b_world ?b1)\<lparr>w_wal := f'\<rparr>, b_exchanges := X\<rparr>"
  obtain w' q' where sd: "qr_Shutdown (b_world ?b2) q = (w', q')" by fastforce
  have "broker_ok (forget_tokens a (set_runtime a w' q' ?b2))"
  proof (rule delete_tail_ok [OF _ _ b2(3,2) _ _ _ q(2) sd])
    show "queues_ok ?b2" "runtimes_ok ?b2" using u(1,2) by (simp_all add: queues_ok_def runtimes_ok_def)
    show "x \<in> ran (map_of (b_queues ?b2))" if "map_of (w_tokenOwners (b_world ?b2)) t = Some x" "x \<noteq> a" for t x
      using u(3) [of t x] that by simp
  qed (use d(3) q(1) in \<open>simp_all add: owners_ok_def\<close>)
  with f(1) b2(1) sd show ?thesis by simp
qed

lemma CloseIfEmpty_busy: "CloseIfEmpty w q = (False, w', q') \<Longrightarrow> w' = w \<and> q' = q"
  by (auto simp: CloseIfEmpty_def split: if_splits)

lemma DeleteQueue_total:
  assumes ok: "broker_ok b" and order: "set order = dom (map_of (b_exchanges b))"
  obtains
    (refused) e where "DeleteQueue order n b = Some (Some e, b)"
  | (deleted) a q w q1 b1 b2 w' q' where "n \<noteq> DefaultQueueName" "map_of (b_queues b) n = Some a"
      "b_runtimes b a = Some q" "CloseIfEmpty (b_world b) q = (True, w, q1)" "retired q1"
      "broker_ok (set_runtime a w q1 b)"
      "b_Append (zero_record\<lparr>r_Type := QueueDeleted, r_Queue := n\<rparr>) (set_runtime a w q1 b) = (None, b1)"
      "unbind_everywhere order n (b1\<lparr>b_queues := gm_del n (b_queues b1)\<rparr>) = (None, b2)"
      "qr_Shutdown (b_world b2) q1 = (w', q')"
      "DeleteQueue order n b = Some (None, forget_tokens a (set_runtime a w' q' b2))"
      "broker_ok (forget_tokens a (set_runtime a w' q' b2))"
proof (cases "n = DefaultQueueName \<or> map_of (b_queues b) n = None")
  case True
  with refused show thesis by (cases "n = DefaultQueueName") (auto simp: DeleteQueue_def)
next
  case nd: False
  then obtain a where a: "map_of (b_queues b) n = Some a" by blast
  obtain q where q: "b_runtimes b a = Some q" using queues_okD [OF broker_okD(1) [OF ok] a] .
  obtain e w q1 where c: "CloseIfEmpty (b_world b) q = (e, w, q1)" using prod_cases3 by blast
  let ?b0 = "set_runtime a w q1 b"
  have ok0: "broker_ok ?b0" by (rule step_ok [OF ok q steps_leaving(3) [OF _ c]])
  show thesis
  proof (cases e)
    case False
    with c CloseIfEmpty_busy [of "b_world b" q w q1] q have "?b0 = b" by (simp add: set_runtime_def fun_upd_idem)
    with refused nd a q c False show thesis by (simp add: DeleteQueue_def)
  next
    case True
    have ret: "retired q1"
      by (rule CloseIfEmpty_retired [OF base_parts(1) [OF runtimes_okD(2) [OF broker_okD(5) [OF ok] q]]])
        (use c True in simp)
    with delete_empty_ok [OF ok0, of n a q1 order] a nd order obtain b1 b2 w' q' where
      d: "b_Append (zero_record\<lparr>r_Type := QueueDeleted, r_Queue := n\<rparr>) ?b0 = (None, b1)"
      "unbind_everywhere order n (b1\<lparr>b_queues := gm_del n (b_queues b1)\<rparr>) = (None, b2)"
      "qr_Shutdown (b_world b2) q1 = (w', q')" "broker_ok (forget_tokens a (set_runtime a w' q' b2))"
      by auto
    have "DeleteQueue order n b = Some (None, forget_tokens a (set_runtime a w' q' b2))"
      using nd a q c True d(1-3) by (simp add: DeleteQueue_def)
    with deleted [OF _ a q _ ret ok0 d(1-3)] nd c True d(4) show thesis by simp
  qed
qed

lemma DeleteQueue_ok:
  assumes "broker_ok b" and "set order = dom (map_of (b_exchanges b))"
  shows "\<exists>r b'. DeleteQueue order n b = Some (r, b') \<and> broker_ok b'"
  using assms by (cases rule: DeleteQueue_total [where n = n]) (use assms(1) in auto)

subsection \<open>Life cycle and metrics\<close>

lemma start_keeps [simp]: "broker_ok (startQueue a b) = broker_ok b"
  by (simp add: broker_ok_def broker_defs log_ok_def startQueue_def)

lemma fold_start [simp]: "broker_ok (fold startQueue as b) = broker_ok b"
  by (induction as arbitrary: b) simp_all

lemma flags_keep [simp]:
  "broker_ok (b\<lparr>b_closed := c\<rparr>) = broker_ok b" "broker_ok (b\<lparr>b_cancelled := c\<rparr>) = broker_ok b"
  "broker_ok (b\<lparr>b_started := c\<rparr>) = broker_ok b"
  by (simp_all add: broker_ok_def broker_defs log_ok_def)

lemma Start_ok: "broker_ok b \<Longrightarrow> broker_ok (Start b)"
  by (simp add: Start_def)

lemma shutdown_runtime_ok:
  assumes "broker_ok b"
  shows "broker_ok (shutdown_runtime a b)"
proof (cases "b_runtimes b a")
  case (Some q)
  obtain w' q' where u: "qr_Shutdown (b_world b) q = (w', q')" by fastforce
  from step_ok [OF assms Some steps_leaving(2) [OF _ u]] Some u show ?thesis by (simp add: shutdown_runtime_def)
qed (use assms in \<open>simp add: shutdown_runtime_def\<close>)

lemma Shutdown_ok:
  assumes "broker_ok b"
  shows "broker_ok (Shutdown b)"
proof -
  have "broker_ok (fold shutdown_runtime as b)" if "broker_ok b" for as b
    using that by (induction as arbitrary: b) (simp_all add: shutdown_runtime_ok)
  moreover have "broker_ok (b\<lparr>b_world := (b_world b)\<lparr>w_tokenOwners := []\<rparr>\<rparr>)" if "broker_ok b" for b
    using that by (simp add: broker_ok_def) (simp add: exchanges_ok_def owners_ok_def log_ok_def)
  ultimately show ?thesis using assms by (simp add: Shutdown_def Let_def)
qed

lemma metrics_loop_total:
  "(\<And>n a. (n, a) \<in> set m \<Longrightarrow> b_runtimes b a \<noteq> None) \<Longrightarrow> metrics_loop m b qs t \<noteq> None"
proof (induction m arbitrary: qs t)
  case (Cons p m)
  obtain n a where p: "p = (n, a)" by (cases p)
  from Cons.prems [of n a] p obtain q where "b_runtimes b a = Some q" by auto
  moreover have "metrics_loop m b qs' t' \<noteq> None" for qs' t'
    by (rule Cons.IH) (use Cons.prems in auto)
  ultimately show ?case using p by (simp add: Let_def)
qed simp

lemma Metrics_total:
  assumes "queues_ok b"
  shows "Metrics b \<noteq> None" and "QueueMetrics n b \<noteq> None"
proof -
  have "b_runtimes b a \<noteq> None" if "(k, a) \<in> set (b_queues b)" for k a
    using assms that by (force simp: queues_ok_def gm_wf_map_of)
  with metrics_loop_total [of "b_queues b" b "[]" zero_metric] show "Metrics b \<noteq> None"
    by (simp add: Metrics_def)
  show "QueueMetrics n b \<noteq> None"
    by (cases "find_queue n b") (auto simp: QueueMetrics_def elim: find_queue_runtime [OF assms])
qed

end
