(* ===== verification/Broker_System.thy ===== *)
theory Broker_System
  imports Broker_Calls
begin

text \<open>
  The broker at work: the state machine whose events are the calls of the broker's interface, in
  any order, and the turns of the goroutines of its queues, in any interleaving. It composes the
  queue systems of the queues over one shared world (log, sessions, token registry, identifiers).

  A \<open>Publish\<close> that waits for room is continued by \<open>WakePublish\<close>. Each \<open>Subscribe\<close> comes with a
  session of its own, as the connection handler makes it. \<open>DeleteQueue\<close> visits the exchanges in
  the order of its argument, which has to list each once. \<open>ctx.Done()\<close> is ready once the broker
  has been shut down or the context given to \<open>Start\<close> has been cancelled (\<open>CancelContext\<close>).

  The interface \<open>system_invariant\<close> lifts an invariant of one event to all reachable states; it is
  interpreted on the broker system with \<open>broker_ok\<close>.
\<close>

record broker_system =
  bs_broker :: broker
  bs_dist :: "nat \<Rightarrow> distributor"

datatype broker_event =
    CallCreateQueue string | CallDeleteQueue "string list" string
  | CallBindQueue string string string | CallUnbindQueue string string string
  | CallCreateExchange string string | CallDeleteExchange string
  | CallPublish string string message int | WakePublish message int nat "string list"
  | CallSubscribe string nat string | CallUnsubscribe string string | CallAck string
  | CallMetrics | CallQueueMetrics string | CallStart | CallShutdown | CancelContext
  | TakeDelivery nat | Turn nat event

datatype broker_outcome = BDisabled | BPanicked | BNext broker_system

definition returns :: "broker_system \<Rightarrow> ('r \<times> broker) option \<Rightarrow> broker_outcome" where
  "returns s r = (case r of None \<Rightarrow> BPanicked | Some (_, b) \<Rightarrow> BNext (s\<lparr>bs_broker := b\<rparr>))"

definition goroutine_event :: "event \<Rightarrow> broker \<Rightarrow> bool" where
  "goroutine_event ev b =
     (case ev of
        EvTop \<Rightarrow> True | EvNotified \<Rightarrow> True | EvDone \<Rightarrow> b_cancelled b | EvReserve \<Rightarrow> True
      | EvSend \<Rightarrow> True | EvCancel \<Rightarrow> True | EvRedeliver _ _ \<Rightarrow> True | EvExpire _ \<Rightarrow> True
      | _ \<Rightarrow> False)"

text \<open>A connection takes the next delivery from the channel of its session.\<close>

definition take_delivery :: "nat \<Rightarrow> broker \<Rightarrow> (delivery \<times> broker) option" where
  "take_delivery c b =
     (case w_sessions (b_world b) c of
        None \<Rightarrow> None
      | Some cs \<Rightarrow>
          (case Deliveries cs of
             [] \<Rightarrow> None
           | d # ds \<Rightarrow> Some (d, b\<lparr>b_world := upd_session c (\<lambda>s. s\<lparr>Deliveries := ds\<rparr>) (b_world b)\<rparr>)))"

definition queue_view :: "broker_system \<Rightarrow> nat \<Rightarrow> queue_runtime \<Rightarrow> queue_system" where
  "queue_view s a q = \<lparr>qs_world = b_world (bs_broker s), qs_queue = q, qs_dist = bs_dist s a\<rparr>"

definition turn :: "nat \<Rightarrow> event \<Rightarrow> broker_system \<Rightarrow> broker_outcome" where
  "turn a ev s =
     (if a \<notin> set (b_workers (bs_broker s)) \<or> \<not> goroutine_event ev (bs_broker s) then BDisabled
      else case b_runtimes (bs_broker s) a of
        None \<Rightarrow> BDisabled
      | Some q \<Rightarrow>
          (case qs_exec ev (queue_view s a q) of
             Disabled \<Rightarrow> BDisabled
           | Panicked \<Rightarrow> BPanicked
           | Next t \<Rightarrow> BNext \<lparr>bs_broker = set_runtime a (qs_world t) (qs_queue t) (bs_broker s),
               bs_dist = (bs_dist s)(a := qs_dist t)\<rparr>))"

fun b_exec :: "broker_event \<Rightarrow> broker_system \<Rightarrow> broker_outcome" where
  "b_exec (CallCreateQueue n) s = returns s (CreateQueue n (bs_broker s))"
| "b_exec (CallDeleteQueue order n) s =
     (if mset order \<noteq> mset (map fst (b_exchanges (bs_broker s))) then BDisabled
      else returns s (DeleteQueue order n (bs_broker s)))"
| "b_exec (CallBindQueue ex n key) s = returns s (Some (BindQueue ex n key (bs_broker s)))"
| "b_exec (CallUnbindQueue ex n key) s = returns s (Some (UnbindQueue ex n key (bs_broker s)))"
| "b_exec (CallCreateExchange ex ty) s = returns s (Some (CreateExchange ex ty (bs_broker s)))"
| "b_exec (CallDeleteExchange ex) s = returns s (Some (DeleteExchange ex (bs_broker s)))"
| "b_exec (CallPublish ex key m ttl) s = returns s (Publish ex key m ttl (bs_broker s))"
| "b_exec (WakePublish m ttl a ns) s =
     (if b_runtimes (bs_broker s) a = None then BDisabled
      else returns s (publish_wake m ttl a ns (bs_broker s)))"
| "b_exec (CallSubscribe n c i) s =
     (if w_sessions (b_world (bs_broker s)) c \<noteq> None then BDisabled
      else returns s (Subscribe n c
             ((bs_broker s)\<lparr>b_world := with_session c i (b_world (bs_broker s))\<rparr>)))"
| "b_exec (CallUnsubscribe n i) s = returns s (map_option (Pair ()) (Unsubscribe n i (bs_broker s)))"
| "b_exec (CallAck t) s = returns s (Ack t (bs_broker s))"
| "b_exec CallMetrics s = returns s (map_option (\<lambda>m. (m, bs_broker s)) (Metrics (bs_broker s)))"
| "b_exec (CallQueueMetrics n) s = returns s (map_option (\<lambda>m. (m, bs_broker s)) (QueueMetrics n (bs_broker s)))"
| "b_exec CallStart s = BNext (s\<lparr>bs_broker := Start (bs_broker s)\<rparr>)"
| "b_exec CallShutdown s = BNext (s\<lparr>bs_broker := Shutdown (bs_broker s)\<rparr>)"
| "b_exec CancelContext s = BNext (s\<lparr>bs_broker := (bs_broker s)\<lparr>b_cancelled := True\<rparr>\<rparr>)"
| "b_exec (TakeDelivery c) s =
     (case take_delivery c (bs_broker s) of None \<Rightarrow> BDisabled | Some (_, b) \<Rightarrow> BNext (s\<lparr>bs_broker := b\<rparr>))"
| "b_exec (Turn a ev) s = turn a ev s"

text \<open>
  As for one queue, a cancelled reservation has to be in flight still and the queue to have room.
\<close>

definition b_safe :: "broker_event \<Rightarrow> broker_system \<Rightarrow> bool" where
  "b_safe ev s \<longleftrightarrow>
     (case ev of
        Turn a e \<Rightarrow> (case b_runtimes (bs_broker s) a of None \<Rightarrow> True | Some q \<Rightarrow> safe e (queue_view s a q))
      | _ \<Rightarrow> True)"

subsection \<open>The interface of an invariant\<close>

inductive b_reaches :: "(broker_event \<Rightarrow> broker_system \<Rightarrow> bool) \<Rightarrow> broker_system \<Rightarrow> broker_system \<Rightarrow> bool"
  for allowed s0 where
  start: "b_reaches allowed s0 s0"
| step: "b_reaches allowed s0 s \<Longrightarrow> allowed ev s \<Longrightarrow> b_exec ev s = BNext t \<Longrightarrow> b_reaches allowed s0 t"

locale system_invariant =
  fixes I :: "broker_system \<Rightarrow> bool"
    and allowed :: "broker_event \<Rightarrow> broker_system \<Rightarrow> bool"
  assumes keeps: "I s \<Longrightarrow> allowed ev s \<Longrightarrow> b_exec ev s = BNext t \<Longrightarrow> I t"
    and alive: "I s \<Longrightarrow> allowed ev s \<Longrightarrow> b_exec ev s \<noteq> BPanicked"
begin

lemma reach_keep: "b_reaches allowed s0 s \<Longrightarrow> I s0 \<Longrightarrow> I s"
  by (induction rule: b_reaches.induct) (blast intro: keeps)+

lemma reach_alive: "b_reaches allowed s0 s \<Longrightarrow> I s0 \<Longrightarrow> allowed ev s \<Longrightarrow> b_exec ev s \<noteq> BPanicked"
  using reach_keep alive by blast

end

subsection \<open>The broker's invariants, in every interleaving\<close>

lemma returns_ok:
  "\<exists>r b'. x = Some (r, b') \<and> P b' \<Longrightarrow> \<exists>b'. returns s x = BNext (s\<lparr>bs_broker := b'\<rparr>) \<and> P b'"
  by (auto simp: returns_def)

lemma turn_ok:
  assumes ok: "broker_ok (bs_broker s)" and safe: "b_safe (Turn a ev) s"
  shows "turn a ev s \<noteq> BPanicked" and "turn a ev s = BNext t \<Longrightarrow> broker_ok (bs_broker t)"
proof -
  have base: "base_sys (queue_view s a q)" if "b_runtimes (bs_broker s) a = Some q" for q
    using runtimes_okD(2) [OF broker_okD(5) [OF ok] that] by (simp add: base_sys_def queue_view_def)
  show "turn a ev s \<noteq> BPanicked"
    using safe base safe_no_panic
    by (auto simp: turn_def b_safe_def split: option.splits outcome.splits)
  show "broker_ok (bs_broker t)" if "turn a ev s = BNext t"
  proof -
    from that obtain q u where q: "b_runtimes (bs_broker s) a = Some q"
      and u: "qs_exec ev (queue_view s a q) = Next u" and g: "goroutine_event ev (bs_broker s)"
      and t: "bs_broker t = set_runtime a (qs_world u) (qs_queue u) (bs_broker s)"
      by (auto simp: turn_def split: if_splits option.splits outcome.splits)
    have "admitted admit ev (queue_view s a q)" for admit
      using safe g q by (auto simp: admitted_def b_safe_def goroutine_event_def split: event.splits)
    from event_steps [OF base [OF q] this u] show ?thesis
      unfolding t by (intro step_ok [OF ok q]) (simp add: queue_view_def)
  qed
qed

lemma take_delivery_steps:
  assumes "broker_ok b" and "take_delivery c b = Some (d, b')"
  obtains a q where "b_runtimes b a = Some q" and "b' = set_runtime a (b_world b') q b"
    and "\<forall>admit. steps admit (b_world b) q (b_world b') q"
proof -
  from broker_okD(1) [OF assms(1)] obtain a q where aq: "b_runtimes b a = Some q"
    by (fastforce simp: queues_ok_def)
  show thesis
  proof (rule that [OF aq])
    show "b' = set_runtime a (b_world b') q b"
      using assms(2) aq by (auto simp: take_delivery_def set_runtime_def fun_upd_idem split: option.splits list.splits)
    show "\<forall>admit. steps admit (b_world b) q (b_world b') q"
      using assms(2) by (auto simp: take_delivery_def split: option.splits list.splits intro: steps_Channel)
  qed
qed

lemma call_ok:
  assumes ok: "broker_ok (bs_broker s)" and call: "\<And>a e. ev \<noteq> Turn a e"
  shows "b_exec ev s = BDisabled \<or> (\<exists>b'. b_exec ev s = BNext (s\<lparr>bs_broker := b'\<rparr>) \<and> broker_ok b')"
proof (cases ev)
  case (CallDeleteQueue order n)
  have "returns s (DeleteQueue order n (bs_broker s)) = BDisabled \<or>
     (\<exists>b'. returns s (DeleteQueue order n (bs_broker s)) = BNext (s\<lparr>bs_broker := b'\<rparr>) \<and> broker_ok b')"
    if "mset order = mset (map fst (b_exchanges (bs_broker s)))"
  proof -
    from returns_ok [OF DeleteQueue_ok [OF ok order_keys [OF that]]] show ?thesis by blast
  qed
  with CallDeleteQueue show ?thesis by simp
next
  case (WakePublish m ttl a ns)
  with returns_ok [OF publish_wake_ok [OF ok]] show ?thesis by auto
next
  case (CallSubscribe n c i)
  with returns_ok [OF Subscribe_ok [OF ok]] show ?thesis by auto
next
  case (CallUnsubscribe n i)
  obtain b' where "Unsubscribe n i (bs_broker s) = Some b'" "broker_ok b'" using Unsubscribe_ok [OF ok] by blast
  with CallUnsubscribe show ?thesis by (auto simp: returns_def)
next
  case CallMetrics
  with Metrics_total(1) [OF broker_okD(1) [OF ok]] ok show ?thesis
    by (intro disjI2 exI [of _ "bs_broker s"]) (auto simp: returns_def)
next
  case (CallQueueMetrics n)
  obtain m where "QueueMetrics n (bs_broker s) = Some m" using Metrics_total(2) [OF broker_okD(1) [OF ok]] by blast
  with CallQueueMetrics ok show ?thesis
    by (intro disjI2 exI [of _ "bs_broker s"]) (simp add: returns_def)
next
  case (CallBindQueue x n k)
  with BindQueue_ok [OF ok] show ?thesis by (auto simp: returns_def split: prod.splits)
next
  case (CallUnbindQueue x n k)
  with UnbindQueue_ok [OF ok] show ?thesis by (auto simp: returns_def split: prod.splits)
next
  case (CallCreateExchange x ty)
  with CreateExchange_ok [OF ok] show ?thesis by (auto simp: returns_def split: prod.splits)
next
  case (CallDeleteExchange x)
  with DeleteExchange_ok [OF ok] show ?thesis by (auto simp: returns_def split: prod.splits)
next
  case (CallCreateQueue n)
  with returns_ok [OF CreateQueue_ok [OF ok]] show ?thesis by simp
next
  case (CallPublish x k m ttl)
  with returns_ok [OF Publish_ok [OF ok]] show ?thesis by simp
next
  case (CallAck t)
  with returns_ok [OF Ack_ok [OF ok]] show ?thesis by simp
next
  case (TakeDelivery c)
  show ?thesis
  proof (cases "take_delivery c (bs_broker s)")
    case (Some p)
    obtain d b' where p: "p = (d, b')" by (cases p)
    with Some have "take_delivery c (bs_broker s) = Some (d, b')" by simp
    with ok obtain a q where "b_runtimes (bs_broker s) a = Some q" "b' = set_runtime a (b_world b') q (bs_broker s)"
      and st: "\<forall>admit. steps admit (b_world (bs_broker s)) q (b_world b') q"
      by (rule take_delivery_steps)
    from step_ok [OF ok this(1) spec [OF st]] this(2) have "broker_ok b'" by simp
    with TakeDelivery Some p show ?thesis by auto
  qed (simp add: TakeDelivery)
qed (use ok call Start_ok Shutdown_ok in auto)

interpretation brk: system_invariant "\<lambda>s. broker_ok (bs_broker s)" b_safe
proof
  fix s ev t
  assume *: "broker_ok (bs_broker s)" "b_safe ev s" "b_exec ev s = BNext t"
  show "broker_ok (bs_broker t)"
  proof (cases "\<exists>a e. ev = Turn a e")
    case False
    with call_ok [OF *(1), of ev] *(3) show ?thesis by auto
  qed (use turn_ok(2) [OF *(1)] *(2,3) in auto)
next
  fix s ev
  assume *: "broker_ok (bs_broker s)" "b_safe ev s"
  show "b_exec ev s \<noteq> BPanicked"
  proof (cases "\<exists>a e. ev = Turn a e")
    case False
    with call_ok [OF *(1), of ev] show ?thesis by auto
  qed (use turn_ok(1) [OF *(1)] *(2) in auto)
qed

end
