(* ===== verification/Connection_Handler.thy ===== *)
theory Connection_Handler
  imports Protocol Broker_System
begin

text \<open>
  The connection handler of \<open>internal/server/handler.go\<close>: what the server does with each request
  of a client, and the two goroutines of a connection as a state machine.

  \<open>dispatch\<close> is the \<open>switch\<close> over the request types: it calls the broker and says how the handler
  goes on. \<open>cn_phase\<close> is the program counter of \<open>handleConnection\<close>, \<open>cn_pump\<close> that of the goroutine
  that a subscription starts (it moves deliveries from the session's channel to the connection).
  \<open>cn_stop\<close> is \<open>stopSubscribe\<close>: \<open>None\<close> for nil, otherwise whether the channel has been closed.
  \<open>subwg.Wait\<close> returns when the pump has finished.

  Parameters stand for what the code cannot decide: \<open>os\<close> gives the texts of the errors that wrap an
  error of the operating system, \<open>cn_writes\<close> what becomes of each write to the socket. The log
  messages of the handler are left out. \<open>CPanicked\<close> is a run-time panic (a panic in the broker, or
  closing a channel twice).
\<close>

subsection \<open>Errors as text\<close>

fun Error :: "(err \<Rightarrow> string) \<Rightarrow> err \<Rightarrow> string" where
  "Error os ErrQueueExists = ''queue already exists''"
| "Error os ErrQueueNotEmpty = ''queue is not empty''"
| "Error os ErrQueueNotFound = ''queue does not exist''"
| "Error os ErrInvalidQueue = ''queue name is invalid''"
| "Error os ErrBrokerClosed = ''broker closed''"
| "Error os ErrInvalidAckToken = ''invalid ack token''"
| "Error os ErrExchangeNotFound = ''exchange does not exist''"
| "Error os ErrInvalidExchange = ''exchange is invalid''"
| "Error os ErrInvalidExchangeType = ''exchange type is invalid''"
| "Error os ErrDefaultExchange = ''default exchange name is reserved''"
| "Error os ErrExchangeExists = ''exchange already exists''"
| "Error os ErrExchangeNotEmpty = ''exchange has existing bindings''"
| "Error os ErrNoRoute = ''no route found''"
| "Error os ErrInvalidBindingKey = ''binding key is invalid''"
| "Error os ErrBindingNotExist = ''binding does not exist''"
| "Error os ErrBindingAlreadyExist = ''binding already exists''"
| "Error os ErrWALClosed = ''WAL closed''"
| "Error os ErrShortWrite = ''short write''"
| "Error os e = os e"

definition errorString :: "(err \<Rightarrow> string) \<Rightarrow> err option \<Rightarrow> string" where
  "errorString os e = (case e of None \<Rightarrow> '''' | Some e \<Rightarrow> Error os e)"

definition ErrUnsupportedVersion :: string where
  "ErrUnsupportedVersion = ''unsupported protocol version''"

subsection \<open>Requests\<close>

datatype action =
    Respond response | NoResponse | AwaitRoom message int nat "string list"
  | Pump nat string string | StopPump

definition status :: "(err \<Rightarrow> string) \<Rightarrow> err option \<Rightarrow> response" where
  "status os e = zero_response\<lparr>rs_Success := (e = None), rs_Error := errorString os e\<rparr>"

definition success :: response where
  "success = zero_response\<lparr>rs_Success := True\<rparr>"

definition failure :: "string \<Rightarrow> response" where
  "failure text = zero_response\<lparr>rs_Error := text\<rparr>"

definition answer :: "(err \<Rightarrow> string) \<Rightarrow> (err option \<times> broker) option \<Rightarrow> (action \<times> broker) option" where
  "answer os r = map_option (\<lambda>(e, b). (Respond (status os e), b)) r"

definition published ::
  "(err \<Rightarrow> string) \<Rightarrow> message \<Rightarrow> int \<Rightarrow> (pub_result \<times> broker) option \<Rightarrow> (action \<times> broker) option" where
  "published os m ttl r =
     (case r of
        None \<Rightarrow> None
      | Some (PubDone e, b) \<Rightarrow> Some (Respond (status os e), b)
      | Some (PubBlocked a names, b) \<Rightarrow> Some (AwaitRoom m ttl a names, b))"

definition handle_ack :: "(err \<Rightarrow> string) \<Rightarrow> request \<Rightarrow> broker \<Rightarrow> (action \<times> broker) option" where
  "handle_ack os req b =
     (case Ack (rq_AckToken req) b of
        None \<Rightarrow> None
      | Some (Some e, b1) \<Rightarrow> Some (Respond (status os (Some e)), b1)
      | Some (None, b1) \<Rightarrow> Some (NoResponse, b1))"

definition queue_report :: "(err \<Rightarrow> string) \<Rightarrow> string \<Rightarrow> err + metric \<Rightarrow> response" where
  "queue_report os name r =
     (let (metric, e) = (case r of Inl e \<Rightarrow> (zero_metric, Some e) | Inr m \<Rightarrow> (m, None))
      in (status os e)\<lparr>rs_Metrics := \<lparr>bm_Queues = [\<lparr>qm_Name = name, qm_Metric = metric\<rparr>], bm_Total = metric\<rparr>\<rparr>)"

definition handle_metrics :: "(err \<Rightarrow> string) \<Rightarrow> request \<Rightarrow> broker \<Rightarrow> (action \<times> broker) option" where
  "handle_metrics os req b =
     (if rq_Queue req \<noteq> '''' then
        map_option (\<lambda>r. (Respond (queue_report os (rq_Queue req) r), b)) (QueueMetrics (rq_Queue req) b)
      else map_option (\<lambda>m. (Respond (success\<lparr>rs_Metrics := m\<rparr>), b)) (Metrics b))"

definition handle_subscribe ::
  "(err \<Rightarrow> string) \<Rightarrow> nat \<Rightarrow> bool \<Rightarrow> request \<Rightarrow> broker \<Rightarrow> (action \<times> broker) option" where
  "handle_subscribe os sess subscribed req b =
     (if subscribed then Some (Respond (failure ''Already subscribed''), b)
      else
        (case Subscribe (rq_Queue req) sess (b\<lparr>b_world := with_session sess (rq_ID req) (b_world b)\<rparr>) of
           None \<Rightarrow> None
         | Some (Some e, b1) \<Rightarrow> Some (Respond (status os (Some e)), b1)
         | Some (None, b1) \<Rightarrow> Some (Pump sess (rq_ID req) (rq_Queue req), b1)))"

text \<open>The requests that manage queues, bindings and exchanges, and the default case.\<close>

definition dispatch_admin :: "(err \<Rightarrow> string) \<Rightarrow> string list \<Rightarrow> request \<Rightarrow> broker \<Rightarrow> (action \<times> broker) option" where
  "dispatch_admin os order req b =
     (if rq_Type req = CreateQueueRequest then answer os (CreateQueue (rq_Queue req) b)
      else if rq_Type req = DeleteQueueRequest then answer os (DeleteQueue order (rq_Queue req) b)
      else if rq_Type req = ListQueuesRequest then
        Some (Respond (success\<lparr>rs_Queues :=
          Some (map (\<lambda>name. \<lparr>qm_Name = name, qm_Metric = zero_metric\<rparr>) (ListQueues b))\<rparr>), b)
      else if rq_Type req = BindQueueRequest then
        answer os (Some (BindQueue (rq_Exchange req) (rq_Queue req) (rq_BindingKey req) b))
      else if rq_Type req = UnbindQueueRequest then
        answer os (Some (UnbindQueue (rq_Exchange req) (rq_Queue req) (rq_BindingKey req) b))
      else if rq_Type req = CreateExchangeRequest then
        answer os (Some (CreateExchange (rq_Exchange req) (rq_ExchangeType req) b))
      else if rq_Type req = DeleteExchangeRequest then answer os (Some (DeleteExchange (rq_Exchange req) b))
      else if rq_Type req = ListExchangesRequest then
        Some (Respond (success\<lparr>rs_Exchanges := ListExchanges b\<rparr>), b)
      else Some (Respond (failure ''unknown request''), b))"

text \<open>
  \<open>sess\<close> is the address of the session that a subscription allocates, \<open>order\<close> the order in which
  \<open>DeleteQueue\<close> visits the exchanges, \<open>subscribed\<close> whether \<open>stopSubscribe\<close> is not nil.
\<close>

definition dispatch ::
  "(err \<Rightarrow> string) \<Rightarrow> nat \<Rightarrow> string list \<Rightarrow> bool \<Rightarrow> request \<Rightarrow> broker \<Rightarrow> (action \<times> broker) option" where
  "dispatch os sess order subscribed req b =
     (if rq_Type req = PublishRequest then
        published os (rq_Payload req) (rq_TTL req)
          (Publish (rq_Exchange req) (rq_RoutingKey req) (rq_Payload req) (rq_TTL req) b)
      else if rq_Type req = AckRequest then handle_ack os req b
      else if rq_Type req = MetricsRequest then handle_metrics os req b
      else if rq_Type req = SubscribeRequest then handle_subscribe os sess subscribed req b
      else if rq_Type req = UnsubscribeRequest then Some (StopPump, b)
      else dispatch_admin os order req b)"

subsection \<open>A connection\<close>

datatype phase = Top | Decoding | Waiting message int nat "string list" | Stopping | Leaving | Gone

datatype pump =
    Idle | Selecting nat string string | Sending nat string string delivery
  | Unsubscribing string string | Finished

fun running :: "pump \<Rightarrow> bool" where
  "running Idle = False"
| "running Finished = False"
| "running _ = True"

datatype write_outcome = WriteOk | DeadlineFails | WriteFails

record connection =
  cn_phase :: phase
  cn_stop :: "bool option"
  cn_pump :: pump
  cn_writes :: "nat \<Rightarrow> write_outcome"
  cn_attempts :: nat
  cn_broken :: bool
  cn_out :: "json list"
  cn_closed :: bool

definition new_connection :: "(nat \<Rightarrow> write_outcome) \<Rightarrow> connection" where
  "new_connection writes =
     \<lparr>cn_phase = Top, cn_stop = None, cn_pump = Idle, cn_writes = writes, cn_attempts = 0,
      cn_broken = False, cn_out = [], cn_closed = False\<rparr>"

text \<open>
  \<open>SetWriteDeadline\<close> fails on a closed connection; a \<open>json.Encoder\<close> that has met a write error
  returns it ever after (\<open>cn_broken\<close>).
\<close>

definition encode :: "response \<Rightarrow> connection \<Rightarrow> bool \<times> connection" where
  "encode resp c =
     (let c1 = c\<lparr>cn_attempts := cn_attempts c + 1\<rparr>
      in if cn_closed c \<or> cn_writes c (cn_attempts c) = DeadlineFails \<or> cn_broken c then (False, c1)
         else if cn_writes c (cn_attempts c) = WriteFails then (False, c1\<lparr>cn_broken := True\<rparr>)
         else (True, c1\<lparr>cn_out := cn_out c @ [enc_response (resp\<lparr>rs_Version := CurrentVersion\<rparr>)]\<rparr>))"

definition close_stop :: "connection \<Rightarrow> connection option" where
  "close_stop c = (if cn_stop c = Some False then Some (c\<lparr>cn_stop := Some True\<rparr>) else None)"

text \<open>\<open>leave\<close>: \<open>return\<close>, which runs the deferred functions.\<close>

definition leave :: "connection \<Rightarrow> connection option" where
  "leave c = map_option (\<lambda>c1. c1\<lparr>cn_phase := Leaving\<rparr>) (if cn_stop c = None then Some c else close_stop c)"

definition respond :: "response \<Rightarrow> connection \<Rightarrow> connection option" where
  "respond resp c = (case encode resp c of (True, c1) \<Rightarrow> Some (c1\<lparr>cn_phase := Top\<rparr>) | (False, c1) \<Rightarrow> leave c1)"

definition unsubscribed :: "connection \<Rightarrow> connection option" where
  "unsubscribed c = respond success (c\<lparr>cn_stop := None\<rparr>)"

definition follow :: "action \<Rightarrow> connection \<Rightarrow> connection option" where
  "follow act c =
     (case act of
        Respond resp \<Rightarrow> respond resp c
      | NoResponse \<Rightarrow> Some (c\<lparr>cn_phase := Top\<rparr>)
      | AwaitRoom m ttl a names \<Rightarrow> Some (c\<lparr>cn_phase := Waiting m ttl a names\<rparr>)
      | Pump sess i n \<Rightarrow> Some (c\<lparr>cn_stop := Some False, cn_pump := Selecting sess i n, cn_phase := Top\<rparr>)
      | StopPump \<Rightarrow>
          (if cn_stop c = None then unsubscribed c
           else map_option (\<lambda>c1. c1\<lparr>cn_phase := Stopping\<rparr>) (close_stop c)))"

datatype conn_event =
    CheckContext | ReadValue json nat "string list" | ReadError | Woken | Waited
  | PumpTake | PumpSend | PumpStop | PumpUnsubscribe

datatype conn_outcome = CDisabled | CPanicked | CNext broker connection

definition goes_on :: "broker \<Rightarrow> connection option \<Rightarrow> conn_outcome" where
  "goes_on b c = (case c of None \<Rightarrow> CPanicked | Some c1 \<Rightarrow> CNext b c1)"

definition acts :: "(action \<times> broker) option \<Rightarrow> connection \<Rightarrow> conn_outcome" where
  "acts r c = (case r of None \<Rightarrow> CPanicked | Some (act, b) \<Rightarrow> goes_on b (follow act c))"

definition supported :: "int \<Rightarrow> bool" where
  "supported version \<longleftrightarrow> version = CurrentVersion \<or> version = 0"

definition handle_value ::
  "(err \<Rightarrow> string) \<Rightarrow> json \<Rightarrow> nat \<Rightarrow> string list \<Rightarrow> broker \<Rightarrow> connection \<Rightarrow> conn_outcome" where
  "handle_value os v sess order b c =
     (case dec_request v zero_request of
        None \<Rightarrow> goes_on b (leave c)
      | Some req \<Rightarrow>
          if \<not> supported (rq_Version req) then
            goes_on b (leave (snd (encode (failure ErrUnsupportedVersion) c)))
          else acts (dispatch os sess order (cn_stop c \<noteq> None) req b) c)"

fun handler_exec :: "(err \<Rightarrow> string) \<Rightarrow> bool \<Rightarrow> conn_event \<Rightarrow> broker \<Rightarrow> connection \<Rightarrow> conn_outcome" where
  "handler_exec os done CheckContext b c =
     (if cn_phase c \<noteq> Top then CDisabled
      else if done then goes_on b (leave c) else CNext b (c\<lparr>cn_phase := Decoding\<rparr>))"
| "handler_exec os done (ReadValue v sess order) b c =
     (if cn_phase c \<noteq> Decoding \<or> w_sessions (b_world b) sess \<noteq> None
        \<or> mset order \<noteq> mset (map fst (b_exchanges b)) then CDisabled
      else handle_value os v sess order b c)"
| "handler_exec os done ReadError b c =
     (if cn_phase c \<noteq> Decoding then CDisabled else goes_on b (leave c))"
| "handler_exec os done Woken b c =
     (case cn_phase c of
        Waiting m ttl a names \<Rightarrow>
          if b_runtimes b a = None then CDisabled
          else acts (published os m ttl (publish_wake m ttl a names b)) c
      | _ \<Rightarrow> CDisabled)"
| "handler_exec os done Waited b c =
     (if cn_phase c = Stopping \<and> \<not> running (cn_pump c) then goes_on b (unsubscribed c)
      else if cn_phase c = Leaving \<and> (cn_stop c = None \<or> \<not> running (cn_pump c))
      then CNext b (c\<lparr>cn_phase := Gone, cn_closed := True\<rparr>)
      else CDisabled)"
| "handler_exec os done _ b c = CDisabled"

fun pump_exec :: "conn_event \<Rightarrow> broker \<Rightarrow> connection \<Rightarrow> conn_outcome" where
  "pump_exec PumpTake b c =
     (case cn_pump c of
        Selecting sess i n \<Rightarrow>
          (case take_delivery sess b of
             None \<Rightarrow> CDisabled
           | Some (d, b1) \<Rightarrow> CNext b1 (c\<lparr>cn_pump := Sending sess i n d\<rparr>))
      | _ \<Rightarrow> CDisabled)"
| "pump_exec PumpSend b c =
     (case cn_pump c of
        Sending sess i n d \<Rightarrow>
          (case encode (success\<lparr>rs_Message := d_Message d, rs_AckToken := d_AckToken d\<rparr>) c of
             (True, c1) \<Rightarrow> CNext b (c1\<lparr>cn_pump := Selecting sess i n\<rparr>)
           | (False, c1) \<Rightarrow> CNext b (c1\<lparr>cn_pump := Unsubscribing n i\<rparr>))
      | _ \<Rightarrow> CDisabled)"
| "pump_exec PumpStop b c =
     (case cn_pump c of
        Selecting sess i n \<Rightarrow>
          if cn_stop c = Some True then CNext b (c\<lparr>cn_pump := Unsubscribing n i\<rparr>) else CDisabled
      | _ \<Rightarrow> CDisabled)"
| "pump_exec PumpUnsubscribe b c =
     (case cn_pump c of
        Unsubscribing n i \<Rightarrow>
          (case Unsubscribe n i b of None \<Rightarrow> CPanicked | Some b1 \<Rightarrow> CNext b1 (c\<lparr>cn_pump := Finished\<rparr>))
      | _ \<Rightarrow> CDisabled)"
| "pump_exec _ b c = CDisabled"

fun pump_event :: "conn_event \<Rightarrow> bool" where
  "pump_event PumpTake = True"
| "pump_event PumpSend = True"
| "pump_event PumpStop = True"
| "pump_event PumpUnsubscribe = True"
| "pump_event _ = False"

definition conn_exec :: "(err \<Rightarrow> string) \<Rightarrow> bool \<Rightarrow> conn_event \<Rightarrow> broker \<Rightarrow> connection \<Rightarrow> conn_outcome" where
  "conn_exec os done ev b c = (if pump_event ev then pump_exec ev b c else handler_exec os done ev b c)"


subsection \<open>Which call of the broker an event makes\<close>

definition call_of :: "nat \<Rightarrow> string list \<Rightarrow> bool \<Rightarrow> request \<Rightarrow> broker_event option" where
  "call_of sess order subscribed req =
     (if rq_Type req = PublishRequest then
        Some (CallPublish (rq_Exchange req) (rq_RoutingKey req) (rq_Payload req) (rq_TTL req))
      else if rq_Type req = AckRequest then Some (CallAck (rq_AckToken req))
      else if rq_Type req = MetricsRequest then
        Some (if rq_Queue req \<noteq> '''' then CallQueueMetrics (rq_Queue req) else CallMetrics)
      else if rq_Type req = SubscribeRequest then
        (if subscribed then None else Some (CallSubscribe (rq_Queue req) sess (rq_ID req)))
      else if rq_Type req = CreateQueueRequest then Some (CallCreateQueue (rq_Queue req))
      else if rq_Type req = DeleteQueueRequest then Some (CallDeleteQueue order (rq_Queue req))
      else if rq_Type req = BindQueueRequest then
        Some (CallBindQueue (rq_Exchange req) (rq_Queue req) (rq_BindingKey req))
      else if rq_Type req = UnbindQueueRequest then
        Some (CallUnbindQueue (rq_Exchange req) (rq_Queue req) (rq_BindingKey req))
      else if rq_Type req = CreateExchangeRequest then
        Some (CallCreateExchange (rq_Exchange req) (rq_ExchangeType req))
      else if rq_Type req = DeleteExchangeRequest then Some (CallDeleteExchange (rq_Exchange req))
      else None)"

fun conn_call :: "conn_event \<Rightarrow> connection \<Rightarrow> broker_event option" where
  "conn_call (ReadValue v sess order) c =
     (case dec_request v zero_request of
        None \<Rightarrow> None
      | Some req \<Rightarrow>
          if supported (rq_Version req) then call_of sess order (cn_stop c \<noteq> None) req else None)"
| "conn_call Woken c =
     (case cn_phase c of Waiting m ttl a names \<Rightarrow> Some (WakePublish m ttl a names) | _ \<Rightarrow> None)"
| "conn_call PumpTake c = (case cn_pump c of Selecting sess i n \<Rightarrow> Some (TakeDelivery sess) | _ \<Rightarrow> None)"
| "conn_call PumpUnsubscribe c =
     (case cn_pump c of Unsubscribing n i \<Rightarrow> Some (CallUnsubscribe n i) | _ \<Rightarrow> None)"
| "conn_call _ c = None"

text \<open>\<open>mirrors\<close>: the broker event has the effect on the broker that \<open>r\<close> reports.\<close>

definition mirrors :: "broker_event option \<Rightarrow> broker_system \<Rightarrow> ('a \<times> broker) option \<Rightarrow> bool" where
  "mirrors call s r \<longleftrightarrow>
     (case call of
        None \<Rightarrow> (\<exists>x. r = Some (x, bs_broker s))
      | Some ev \<Rightarrow> b_exec ev s = (case r of None \<Rightarrow> BPanicked | Some (_, b) \<Rightarrow> BNext (s\<lparr>bs_broker := b\<rparr>)))"

lemma mirrors_silent [simp]: "mirrors None s (Some (x, bs_broker s))"
  by (simp add: mirrors_def)

lemma mirrors_returns: "b_exec ev s = returns s r \<Longrightarrow> mirrors (Some ev) s (map_option (\<lambda>(e, b). (f e b, b)) r)"
  by (auto simp: mirrors_def returns_def split: option.splits)

lemma answer_mirrors: "b_exec ev s = returns s r \<Longrightarrow> mirrors (Some ev) s (answer os r)"
  unfolding answer_def by (rule mirrors_returns)

lemma published_mirrors: "b_exec ev s = returns s r \<Longrightarrow> mirrors (Some ev) s (published os m ttl r)"
  by (auto simp: mirrors_def returns_def published_def split: option.splits pub_result.splits)

lemma handle_ack_mirrors: "mirrors (Some (CallAck (rq_AckToken req))) s (handle_ack os req (bs_broker s))"
  by (auto simp: mirrors_def returns_def handle_ack_def split: option.splits)

lemma handle_metrics_mirrors:
  "mirrors (Some (if rq_Queue req \<noteq> '''' then CallQueueMetrics (rq_Queue req) else CallMetrics)) s
     (handle_metrics os req (bs_broker s))"
  by (auto simp: mirrors_def returns_def handle_metrics_def split: option.splits)

lemma handle_subscribe_mirrors:
  "w_sessions (b_world (bs_broker s)) sess = None \<Longrightarrow>
   mirrors (if subscribed then None else Some (CallSubscribe (rq_Queue req) sess (rq_ID req))) s
     (handle_subscribe os sess subscribed req (bs_broker s))"
  by (auto simp: mirrors_def returns_def handle_subscribe_def split: option.splits)

lemma dispatch_mirrors:
  assumes "w_sessions (b_world (bs_broker s)) sess = None"
    and "mset order = mset (map fst (b_exchanges (bs_broker s)))"
  shows "mirrors (call_of sess order subscribed req) s (dispatch os sess order subscribed req (bs_broker s))"
proof -

  have "b_exec (CallDeleteQueue order n) s = returns s (DeleteQueue order n (bs_broker s))" for n
    using assms(2) by simp
  note answer_mirrors [OF this] handle_ack_mirrors handle_metrics_mirrors
    handle_subscribe_mirrors [OF assms(1)]
  moreover note answer_mirrors [OF b_exec.simps(1)] answer_mirrors [OF b_exec.simps(3)]
    answer_mirrors [OF b_exec.simps(4)] answer_mirrors [OF b_exec.simps(5)] answer_mirrors [OF b_exec.simps(6)]
    published_mirrors [OF b_exec.simps(7)]
  ultimately show ?thesis
    unfolding dispatch_def dispatch_admin_def call_of_def by (simp add: request_types)
qed


subsection \<open>The invariant of a connection\<close>

text \<open>
  The stop channel is open exactly while a subscription is wanted, the pump runs only while there
  is a stop channel to end it, and a handler that has returned has closed its connection and waited
  for the pump.
\<close>

abbreviation busy :: "phase \<Rightarrow> bool" where
  "busy p \<equiv> p \<noteq> Stopping \<and> p \<noteq> Leaving \<and> p \<noteq> Gone"

definition conn_wf :: "connection \<Rightarrow> bool" where
  "conn_wf c \<longleftrightarrow> (cn_stop c = None \<longrightarrow> \<not> running (cn_pump c)) \<and>
     (busy (cn_phase c) \<longrightarrow> cn_stop c \<noteq> Some True) \<and> (cn_phase c = Stopping \<longrightarrow> cn_stop c = Some True) \<and>
     (cn_phase c = Leaving \<or> cn_phase c = Gone \<longrightarrow> cn_stop c \<noteq> Some False) \<and>
     (cn_phase c = Gone \<longrightarrow> \<not> running (cn_pump c) \<and> cn_closed c)"

lemma encode_frame [simp]:
  "cn_phase (snd (encode r c)) = cn_phase c" "cn_stop (snd (encode r c)) = cn_stop c"
  "cn_pump (snd (encode r c)) = cn_pump c" "cn_closed (snd (encode r c)) = cn_closed c"
  by (simp_all add: encode_def Let_def)

lemma encode_fields:
  assumes "encode r c = (ok, c1)"
  shows "cn_phase c1 = cn_phase c" and "cn_stop c1 = cn_stop c" and "cn_pump c1 = cn_pump c"
    and "cn_closed c1 = cn_closed c" and "cn_closed c \<Longrightarrow> \<not> ok"
  using encode_frame [of r c] assms by (simp_all, auto simp: encode_def Let_def)

lemma conn_wf_busy: "busy (cn_phase c) \<Longrightarrow> conn_wf c \<longleftrightarrow>
    (cn_stop c = None \<longrightarrow> \<not> running (cn_pump c)) \<and> cn_stop c \<noteq> Some True"
  by (simp add: conn_wf_def)

lemma leave_wf:
  assumes "conn_wf c" and "busy (cn_phase c)"
  shows "\<exists>c1. leave c = Some c1 \<and> conn_wf c1"
  using assms(1) unfolding conn_wf_busy [OF assms(2)]
  by (cases "cn_stop c") (auto simp: leave_def close_stop_def conn_wf_def)

lemma respond_wf:
  assumes "cn_stop c = None \<longrightarrow> \<not> running (cn_pump c)" and "cn_stop c \<noteq> Some True"
  shows "\<exists>c1. respond r c = Some c1 \<and> conn_wf c1"
  using assms encode_frame [of r c]
  by (cases "encode r c"; cases "cn_stop c")
    (auto simp: respond_def leave_def close_stop_def conn_wf_def split: bool.splits)

lemma unsubscribed_wf: "\<not> running (cn_pump c) \<Longrightarrow> \<exists>c1. unsubscribed c = Some c1 \<and> conn_wf c1"
  unfolding unsubscribed_def by (rule respond_wf) simp_all

lemma follow_wf:
  assumes "conn_wf c" and "busy (cn_phase c)"
  shows "\<exists>c1. follow act c = Some c1 \<and> conn_wf c1"
proof (cases act)
  case (Respond r)
  with assms respond_wf [of c r] show ?thesis by (simp add: follow_def conn_wf_busy)
next
  case StopPump
  show ?thesis
  proof (cases "cn_stop c")
    case None
    with assms unsubscribed_wf [of c] StopPump show ?thesis by (simp add: follow_def conn_wf_busy)
  next
    case (Some closed)
    with assms(1) StopPump show ?thesis unfolding conn_wf_busy [OF assms(2)]
      by (simp add: follow_def close_stop_def conn_wf_def)
  qed
qed (use assms in \<open>simp_all add: follow_def conn_wf_busy\<close>)

lemma wf_after_encode: "conn_wf (snd (encode r c)) = conn_wf c"
  by (simp add: conn_wf_def)

text \<open>
  Every event of a connection keeps the invariant; it panics only where the broker call that it
  makes panics, and its effect on the broker is that call.
\<close>

definition faithful :: "broker_event option \<Rightarrow> broker_system \<Rightarrow> conn_outcome \<Rightarrow> bool" where
  "faithful call s out \<longleftrightarrow>
     (case out of
        CDisabled \<Rightarrow> True
      | CPanicked \<Rightarrow> (\<exists>be. call = Some be \<and> b_exec be s = BPanicked)
      | CNext b c \<Rightarrow> conn_wf c \<and>
          (case call of None \<Rightarrow> b = bs_broker s | Some be \<Rightarrow> b_exec be s = BNext (s\<lparr>bs_broker := b\<rparr>)))"

lemma faithful_disabled [simp]: "faithful call s CDisabled"
  by (simp add: faithful_def)

lemma faithful_leave: "conn_wf c \<Longrightarrow> busy (cn_phase c) \<Longrightarrow> faithful None s (goes_on (bs_broker s) (leave c))"
  using leave_wf by (fastforce simp: faithful_def goes_on_def)

lemma faithful_acts:
  assumes "conn_wf c" and "busy (cn_phase c)" and "mirrors call s r"
  shows "faithful call s (acts r c)"
proof (cases r)
  case (Some p)
  obtain act b where p: "p = (act, b)" by (cases p)
  from follow_wf [OF assms(1,2)] obtain c1 where "follow act c = Some c1" "conn_wf c1" by blast
  with Some p assms(3) show ?thesis by (auto simp: faithful_def acts_def goes_on_def mirrors_def split: option.splits)
qed (use assms(3) in \<open>auto simp: faithful_def acts_def mirrors_def split: option.splits\<close>)

lemma faithful_value:
  assumes "conn_wf c" and "cn_phase c = Decoding" and "w_sessions (b_world (bs_broker s)) sess = None"
    and "mset order = mset (map fst (b_exchanges (bs_broker s)))"
  shows "faithful (conn_call (ReadValue v sess order) c) s (handle_value os v sess order (bs_broker s) c)"
proof -
  have b: "busy (cn_phase c)" using assms(2) by simp
  have "conn_wf (snd (encode r c))" "busy (cn_phase (snd (encode r c)))" for r
    using assms(1,2) by (simp_all add: wf_after_encode)
  note faithful_leave [OF assms(1) b] faithful_leave [OF this]
    faithful_acts [OF assms(1) b dispatch_mirrors [OF assms(3,4)]]
  then show ?thesis by (simp add: handle_value_def split: option.splits)
qed

lemma faithful_handler:
  assumes "conn_wf c"
  shows "faithful (conn_call ev c) s (handler_exec os done ev (bs_broker s) c)"
proof (cases ev)
  case CheckContext
  with assms faithful_leave [OF assms] show ?thesis by (simp add: faithful_def conn_wf_def)
next
  case (ReadValue v sess order)
  with assms faithful_value show ?thesis by (simp del: conn_call.simps)
next
  case ReadError
  with assms faithful_leave [OF assms] show ?thesis by simp
next
  case Woken
  show ?thesis
  proof (cases "cn_phase c")
    case (Waiting m ttl a names)
    have "mirrors (Some (WakePublish m ttl a names)) s (published os m ttl (publish_wake m ttl a names (bs_broker s)))"
      if "b_runtimes (bs_broker s) a \<noteq> None" using that by (intro published_mirrors) auto
    with faithful_acts [OF assms] Woken Waiting show ?thesis by simp
  qed (simp_all add: Woken)
next
  case Waited
  from assms unsubscribed_wf [of c] Waited show ?thesis
    by (auto simp: faithful_def goes_on_def conn_wf_def)
qed simp_all

lemma faithful_pump:
  assumes "conn_wf c"
  shows "faithful (conn_call ev c) s (pump_exec ev (bs_broker s) c)"
proof (cases ev)
  case PumpTake
  with assms show ?thesis
    by (auto simp: faithful_def conn_wf_def split: pump.splits option.splits)
next
  case PumpSend
  show ?thesis
  proof (cases "cn_pump c")
    case (Sending sess i n d)
    let ?r = "success\<lparr>rs_Message := d_Message d, rs_AckToken := d_AckToken d\<rparr>"
    obtain ok c1 where e: "encode ?r c = (ok, c1)" by fastforce
    from encode_fields(1-4) [OF e] assms PumpSend Sending e show ?thesis
      by (cases ok) (simp_all add: faithful_def conn_wf_def)
  qed (simp_all add: PumpSend)
next
  case PumpStop
  with assms show ?thesis by (auto simp: faithful_def conn_wf_def split: pump.splits)
next
  case PumpUnsubscribe
  with assms show ?thesis
    by (auto simp: faithful_def conn_wf_def returns_def split: pump.splits option.splits)
qed simp_all

lemma conn_exec_faithful: "conn_wf c \<Longrightarrow> faithful (conn_call ev c) s (conn_exec os done ev (bs_broker s) c)"
  by (simp add: conn_exec_def faithful_handler faithful_pump)

end
