(* ===== verification/Broker_Recovery.thy ===== *)
theory Broker_Recovery
  imports Broker_System
begin

text \<open>
  Recovery (\<open>NewBroker\<close> of \<open>internal/engine/broker.go\<close>). A recovered state is \<open>recoverable\<close> when
  the names, types and keys in it are valid, no exchange has a binding twice and every binding
  names a queue of the state or the default queue. The log of a broker that satisfies its
  invariants always has such a state, and from such a state \<open>NewBroker\<close> builds a broker with the
  same exchanges and bindings and the same messages in the same order.
\<close>

definition state_ok :: "string set \<Rightarrow> string \<Rightarrow> exchange_state \<Rightarrow> bool" where
  "state_ok Q n es \<longleftrightarrow> validateExchangeName n = None \<and> (\<exists>ty. validateExchangeType (es_ExchangeType es) = Inr ty)
     \<and> distinct (es_Bindings es)
     \<and> (\<forall>x \<in> set (es_Bindings es). validateBindingKey (BindingKey x) = None \<and> QueueName x \<in> Q)"

definition recoverable :: "recovered_state \<Rightarrow> bool" where
  "recoverable st \<longleftrightarrow> gm_wf (PendingMessages st) \<and> gm_wf (PendingExchanges st)
     \<and> (\<forall>n es. map_of (PendingExchanges st) n = Some es \<longrightarrow>
          state_ok (insert DefaultQueueName (dom (map_of (PendingMessages st)))) n es)"

definition contents :: "broker \<Rightarrow> string \<Rightarrow> message list option" where
  "contents b n =
     (case map_of (b_queues b) n of
        None \<Rightarrow> None
      | Some a \<Rightarrow> map_option (\<lambda>q. rb_list (q_queue q)) (b_runtimes b a))"

lemma validType_string: "validateExchangeType (exchange_type_string ty) = Inr ty"
  by (cases ty) (simp_all add: validateExchangeType_def)

lemma broker_ok_recoverable:
  assumes ok: "broker_ok b" and st: "wal_Load (w_wal (b_world b)) = Inr st"
  shows "recoverable st"
proof -
  note d = broker_okD [OF ok]
  from d(4) st have t: "topology st (map_of (b_exchanges b)) (dom (map_of (b_queues b)))"
    by (auto simp: log_ok_def)
  have "state_ok (insert DefaultQueueName (dom (map_of (PendingMessages st)))) n es"
    if es: "map_of (PendingExchanges st) n = Some es" for n es
  proof -
    have nd: "n \<noteq> DefaultExchangeName" using t es by (auto simp: topology_def)
    then obtain e where e: "map_of (b_exchanges b) n = Some e" "es = ex_state e"
      using t es by (auto simp: topology_def)
    have q: "QueueName x \<in> insert DefaultQueueName (dom (map_of (PendingMessages st)))"
      if "x \<in> set (ex_ListBindings e)" for x
      using exchange_okD(2) [OF d(2) e(1)] that t by (fastforce simp: topology_def)
    with exchange_okD(1) [OF d(2) e(1)] nd show ?thesis
      by (auto simp: state_ok_def exchange_ok_def e(2) ex_state_def validType_string)
  qed
  with t show ?thesis by (auto simp: recoverable_def topology_def)
qed

subsection \<open>Queues\<close>

definition listed_ok :: "broker \<Rightarrow> bool" where
  "listed_ok b \<longleftrightarrow> gm_wf (b_queues b) \<and> runtimes_ok b
     \<and> (\<forall>name a. map_of (b_queues b) name = Some a \<longrightarrow> (\<exists>q. b_runtimes b a = Some q \<and> q_name q = name))"

lemma add_queue_listed:
  assumes ok: "listed_ok b" and new: "map_of (b_queues b) n = None" and u: "inj (w_uuids (b_world b))"
  shows "\<exists>a b'. add_queue n ms b = Some (a, b') \<and> listed_ok b' \<and> contents b' = (contents b)(n \<mapsto> ms)
    \<and> dom (map_of (b_queues b')) = insert n (dom (map_of (b_queues b)))
    \<and> b_world b' = b_world b \<and> b_exchanges b' = b_exchanges b"
proof -
  obtain q where q: "add_queue n ms b = Some (b_next b, b\<lparr>b_runtimes := (b_runtimes b)(b_next b \<mapsto> q),
      b_next := b_next b + 1, b_queues := gm_put n (b_next b) (b_queues b)\<rparr>)"
    "newQueueRuntime (b_cfg b) (b_next b) n ms = Some q" "q_name q = n" "rb_list (q_queue q) = ms"
    by (rule add_queue_ok)
  let ?b = "b\<lparr>b_runtimes := (b_runtimes b)(b_next b \<mapsto> q), b_next := b_next b + 1,
      b_queues := gm_put n (b_next b) (b_queues b)\<rparr>"
  from ok have r: "runtimes_ok b" by (simp add: listed_ok_def)
  have fresh: "a \<noteq> b_next b" if "map_of (b_queues b) k = Some a" for k a
    using ok that runtimes_okD(1) [OF r] by (fastforce simp: listed_ok_def)
  have "listed_ok ?b"
    using ok runtimes_ok_add [OF r q(2) new u] fresh q(3) unfolding listed_ok_def by (auto split: if_splits)
  moreover have "contents ?b = (contents b)(n \<mapsto> ms)"
    using q(4) fresh by (auto simp: contents_def fun_eq_iff split: option.splits)
  ultimately show ?thesis using q(1) by auto
qed

lemma overlay_Cons: "map_of m n = None \<Longrightarrow> (f(n \<mapsto> v)) ++ map_of m = f ++ map_of ((n, v) # m)"
  by (auto simp: map_add_def fun_eq_iff split: option.splits)

lemma recover_queues_spec:
  "listed_ok b \<Longrightarrow> inj (w_uuids (b_world b)) \<Longrightarrow> gm_wf qs \<Longrightarrow> (\<forall>n \<in> fst ` set qs. map_of (b_queues b) n = None) \<Longrightarrow>
   \<exists>b'. recover_queues qs b = Some b' \<and> listed_ok b' \<and> contents b' = contents b ++ map_of qs
     \<and> dom (map_of (b_queues b')) = fst ` set qs \<union> dom (map_of (b_queues b))
     \<and> b_world b' = b_world b \<and> b_exchanges b' = b_exchanges b"
proof (induction qs arbitrary: b)
  case (Cons p qs)
  obtain n ms where p: "p = (n, ms)" by (cases p)
  from Cons.prems p have "map_of (b_queues b) n = None" by auto
  from add_queue_listed [OF Cons.prems(1) this Cons.prems(2)] obtain a b1 where
    b1: "add_queue n ms b = Some (a, b1)" "listed_ok b1" "contents b1 = (contents b)(n \<mapsto> ms)"
    "dom (map_of (b_queues b1)) = insert n (dom (map_of (b_queues b)))" "b_world b1 = b_world b"
    "b_exchanges b1 = b_exchanges b" by blast
  have n: "map_of qs n = None" using Cons.prems(3) p by (simp add: map_of_eq_None_iff)
  have new: "map_of (b_queues b1) k = None" if "k \<in> fst ` set qs" for k
  proof -
    have "k \<noteq> n" using that n by (auto simp: map_of_eq_None_iff)
    moreover have "map_of (b_queues b) k = None" using that Cons.prems(4) by auto
    ultimately show ?thesis using b1(4) by (metis domIff insert_iff)
  qed
  have "\<exists>b'. recover_queues qs b1 = Some b' \<and> listed_ok b' \<and> contents b' = contents b1 ++ map_of qs
     \<and> dom (map_of (b_queues b')) = fst ` set qs \<union> dom (map_of (b_queues b1))
     \<and> b_world b' = b_world b1 \<and> b_exchanges b' = b_exchanges b1"
    by (rule Cons.IH [OF b1(2)]) (use new Cons.prems(2,3) b1(5) p in simp_all)
  then obtain b' where "recover_queues qs b1 = Some b'" "listed_ok b'" "contents b' = contents b1 ++ map_of qs"
     "dom (map_of (b_queues b')) = fst ` set qs \<union> dom (map_of (b_queues b1))"
     "b_world b' = b_world b1" "b_exchanges b' = b_exchanges b1" by blast
  moreover have "contents b1 ++ map_of qs = contents b ++ map_of (p # qs)"
    unfolding b1(3) p by (rule overlay_Cons [OF n])
  ultimately show ?case using b1 by (intro exI [of _ b']) (simp add: p del: map_of.simps)
qed auto


subsection \<open>Exchanges\<close>

definition ex_of :: "exchange_state \<Rightarrow> exchange" where
  "ex_of es = with_base \<lparr>ex_Name = '''', ex_bindings = es_Bindings es\<rparr>
     (case validateExchangeType (es_ExchangeType es) of
        Inr ty \<Rightarrow> NewExchangeFactory '''' ty | Inl _ \<Rightarrow> NewDirectExchange '''')"

lemma ex_state_of:
  assumes "validateExchangeType (es_ExchangeType es) = Inr ty"
  shows "ex_state (ex_of es) = es"
  using assms validType [OF assms]
  by (cases ty) (auto simp: ex_of_def ex_state_def ex_kind_def ex_ListBindings_def be_ListBindings_def
      NewExchangeFactory_def NewDirectExchange_def NewFanOutExchange_def NewTopicExchange_def)

definition same_queues :: "broker \<Rightarrow> broker \<Rightarrow> bool" where
  "same_queues b b' \<longleftrightarrow> b_queues b' = b_queues b \<and> b_runtimes b' = b_runtimes b"

lemma same_queues_simps [simp]:
  "same_queues b b" "same_queues b (b\<lparr>b_world := w, b_exchanges := X\<rparr>)"
  "same_queues b b1 \<Longrightarrow> contents b1 = contents b"
  by (auto simp: same_queues_def contents_def fun_eq_iff split: option.splits)

lemma same_queues_trans: "same_queues b b1 \<Longrightarrow> same_queues b1 b2 \<Longrightarrow> same_queues b b2"
  by (simp add: same_queues_def)

lemma Bind_new:
  assumes "\<lparr>QueueName = q, BindingKey = k\<rparr> \<notin> set (ex_ListBindings e)"
  obtains e' where "ex_Bind k q e = (None, e')"
    and "ex_state e' = (ex_state e)\<lparr>es_Bindings := ex_ListBindings e @ [\<lparr>QueueName = q, BindingKey = k\<rparr>]\<rparr>"
proof -
  obtain r e' where b: "ex_Bind k q e = (r, e')" by (cases "ex_Bind k q e")
  with exc.bind_law [OF b] assms have "r = None" "ex_ListBindings e' = ex_ListBindings e @ [\<lparr>QueueName = q, BindingKey = k\<rparr>]"
    by auto
  with b that show thesis by (simp add: ex_state_def)
qed

lemma recover_bindings_spec:
  assumes "broker_with Y b" and "Y n = None" and "map_of (b_exchanges b) n = Some e"
    and "distinct (ex_ListBindings e @ xs)"
    and "\<forall>x \<in> set xs. validateBindingKey (BindingKey x) = None \<and> QueueName x \<in> dom (map_of (b_queues b))"
  shows "\<exists>b' e'. recover_bindings n xs b = (None, b') \<and> broker_with Y b' \<and> same_queues b b'
    \<and> map_of (b_exchanges b') = (map_of (b_exchanges b))(n \<mapsto> e')
    \<and> ex_state e' = (ex_state e)\<lparr>es_Bindings := ex_ListBindings e @ xs\<rparr>"
  using assms
proof (induction xs arbitrary: b e)
  case Nil
  then show ?case by (intro exI [of _ b] exI [of _ e]) (simp add: ex_state_def fun_upd_idem)
next
  case (Cons x xs)
  have x: "\<lparr>QueueName = QueueName x, BindingKey = BindingKey x\<rparr> = x" by (cases x) simp
  have "x \<notin> set (ex_ListBindings e)" using Cons.prems(4) by simp
  then obtain e1 where e1: "ex_Bind (BindingKey x) (QueueName x) e = (None, e1)"
    "ex_state e1 = (ex_state e)\<lparr>es_Bindings := ex_ListBindings e @ [x]\<rparr>"
    by (rule Bind_new [where q = "QueueName x" and k = "BindingKey x", unfolded x])
  from BindQueue_success [OF Cons.prems(1) _ _ Cons.prems(3) e1(1) Cons.prems(2)] Cons.prems(5)
  obtain f where f: "BindQueue n (QueueName x) (BindingKey x) b =
      (None, b\<lparr>b_world := (b_world b)\<lparr>w_wal := f\<rparr>, b_exchanges := gm_put n e1 (b_exchanges b)\<rparr>)"
    "broker_with Y (b\<lparr>b_world := (b_world b)\<lparr>w_wal := f\<rparr>, b_exchanges := gm_put n e1 (b_exchanges b)\<rparr>)" by auto
  let ?b1 = "b\<lparr>b_world := (b_world b)\<lparr>w_wal := f\<rparr>, b_exchanges := gm_put n e1 (b_exchanges b)\<rparr>"
  have l: "ex_ListBindings e1 = ex_ListBindings e @ [x]" using e1(2) by (simp add: ex_state_def)
  have "distinct (ex_ListBindings e1 @ xs)" using Cons.prems(4) l by simp
  then have "\<exists>b' e'. recover_bindings n xs ?b1 = (None, b') \<and> broker_with Y b' \<and> same_queues ?b1 b'
    \<and> map_of (b_exchanges b') = (map_of (b_exchanges ?b1))(n \<mapsto> e')
    \<and> ex_state e' = (ex_state e1)\<lparr>es_Bindings := ex_ListBindings e1 @ xs\<rparr>"
    by (intro Cons.IH [OF f(2) Cons.prems(2)]) (use Cons.prems(5) in simp_all)
  then obtain b' e' where b': "recover_bindings n xs ?b1 = (None, b')" "broker_with Y b'" "same_queues ?b1 b'"
    "map_of (b_exchanges b') = (map_of (b_exchanges ?b1))(n \<mapsto> e')"
    "ex_state e' = (ex_state e1)\<lparr>es_Bindings := ex_ListBindings e1 @ xs\<rparr>" by blast
  have "recover_bindings n (x # xs) b = (None, b')" using f(1) b'(1) by simp
  moreover have "same_queues b b'" using b'(3) by (simp add: same_queues_def)
  moreover have "map_of (b_exchanges b') = (map_of (b_exchanges b))(n \<mapsto> e')" using b'(4) by simp
  moreover have "ex_state e' = (ex_state e)\<lparr>es_Bindings := ex_ListBindings e @ x # xs\<rparr>"
    using b'(5) e1(2) l by simp
  ultimately show ?case using b'(2) by blast
qed


definition still :: "(string \<times> exchange_state) list \<Rightarrow> string \<Rightarrow> exchange option" where
  "still exs n = map_option ex_of (map_of exs n)"

definition states :: "broker \<Rightarrow> string \<Rightarrow> exchange_state option" where
  "states b n = map_option ex_state (map_of (b_exchanges b) n)"

lemma recover_exchanges_spec:
  assumes "broker_with (still exs) b" and "gm_wf exs"
    and "\<forall>(n, es) \<in> set exs. map_of (b_exchanges b) n = None \<and> state_ok (dom (map_of (b_queues b))) n es"
  shows "\<exists>b'. recover_exchanges exs b = (None, b') \<and> broker_ok b' \<and> same_queues b b'
    \<and> states b' = states b ++ map_of exs"
  using assms
proof (induction exs arbitrary: b)
  case Nil
  have "still [] = Map.empty" by (simp add: still_def fun_eq_iff)
  with Nil.prems(1) show ?case by (simp add: broker_with_none)
next
  case (Cons p exs)
  obtain n es where p: "p = (n, es)" by (cases p)
  from Cons.prems(3) p have nx: "map_of (b_exchanges b) n = None"
    and so: "state_ok (dom (map_of (b_queues b))) n es" by simp_all
  then obtain ty where ty: "validateExchangeType (es_ExchangeType es) = Inr ty" by (auto simp: state_ok_def)
  have nn: "map_of exs n = None" using Cons.prems(2) p by (simp add: map_of_eq_None_iff)
  have Y: "(still (p # exs))(n := None) = still exs" using nn by (auto simp: still_def p fun_eq_iff)
  have vn: "validateExchangeName n = None" using so by (simp add: state_ok_def)
  from CreateExchange_success [OF Cons.prems(1) vn nx ty, unfolded Y] obtain f where
    c: "CreateExchange n (es_ExchangeType es) b = (None, b\<lparr>b_world := (b_world b)\<lparr>w_wal := f\<rparr>,
        b_exchanges := gm_put n (NewExchangeFactory n ty) (b_exchanges b)\<rparr>)"
    "broker_with (still exs) (b\<lparr>b_world := (b_world b)\<lparr>w_wal := f\<rparr>,
        b_exchanges := gm_put n (NewExchangeFactory n ty) (b_exchanges b)\<rparr>)" by blast
  let ?b1 = "b\<lparr>b_world := (b_world b)\<lparr>w_wal := f\<rparr>, b_exchanges := gm_put n (NewExchangeFactory n ty) (b_exchanges b)\<rparr>"
  have s: "still exs n = None" using nn by (simp add: still_def)
  have "\<exists>b' e'. recover_bindings n (es_Bindings es) ?b1 = (None, b') \<and> broker_with (still exs) b' \<and> same_queues ?b1 b'
    \<and> map_of (b_exchanges b') = (map_of (b_exchanges ?b1))(n \<mapsto> e')
    \<and> ex_state e' = (ex_state (NewExchangeFactory n ty))\<lparr>es_Bindings := ex_ListBindings (NewExchangeFactory n ty) @ es_Bindings es\<rparr>"
    by (rule recover_bindings_spec [OF c(2) s]) (use so in \<open>auto simp: factory_empty state_ok_def\<close>)
  then obtain b2 e' where b2: "recover_bindings n (es_Bindings es) ?b1 = (None, b2)" "broker_with (still exs) b2"
    "same_queues b b2" "map_of (b_exchanges b2) = (map_of (b_exchanges b))(n \<mapsto> e')" "ex_state e' = es"
    by (auto simp: factory_empty ex_state_new validType [OF ty] same_queues_def)
  have "map_of (b_exchanges b2) k = None \<and> state_ok (dom (map_of (b_queues b2))) k e" if "(k, e) \<in> set exs" for k e
  proof -
    have "k \<noteq> n" using that Cons.prems(2) p by force
    with that Cons.prems(3) b2(3,4) show ?thesis by (auto simp: same_queues_def)
  qed
  then have "\<forall>(k, e) \<in> set exs. map_of (b_exchanges b2) k = None \<and> state_ok (dom (map_of (b_queues b2))) k e"
    by blast
  with Cons.IH [OF b2(2)] Cons.prems(2) p obtain b' where
    b': "recover_exchanges exs b2 = (None, b')" "broker_ok b'" "same_queues b2 b'" "states b' = states b2 ++ map_of exs"
    by auto
  have "states b2 = (states b)(n \<mapsto> es)" using b2(4,5) by (simp add: states_def fun_eq_iff)
  with b'(4) have "states b' = states b ++ map_of (p # exs)" unfolding p by (simp only: overlay_Cons [OF nn])
  moreover have "recover_exchanges (p # exs) b = (None, b')" using c(1) b2(1) b'(1) by (simp add: p)
  ultimately show ?case using b'(2) same_queues_trans [OF b2(3) b'(3)] by blast
qed


subsection \<open>The whole recovery\<close>

definition default_state :: exchange_state where
  "default_state = \<lparr>es_ExchangeType = exchange_type_string DirectExchange,
     es_Bindings = [\<lparr>QueueName = DefaultQueueName, BindingKey = DefaultQueueName\<rparr>]\<rparr>"

lemma default_key: "validateBindingKey DefaultQueueName = None"
  by code_simp

lemma recovered_queues:
  assumes "gm_wf qs" and "inj (w_uuids w)" and "w_tokenOwners w = []"
  shows "\<exists>b1 b2. recover_queues qs (NewInMemoryBroker cfg w) = Some b1
    \<and> (if map_of (b_queues b1) DefaultQueueName = None
       then map_option snd (add_queue DefaultQueueName [] b1) else Some b1) = Some b2
    \<and> listed_ok b2 \<and> contents b2 = [DefaultQueueName \<mapsto> []] ++ map_of qs
    \<and> dom (map_of (b_queues b2)) = insert DefaultQueueName (dom (map_of qs))
    \<and> b_world b2 = w \<and> b_exchanges b2 = b_exchanges (NewInMemoryBroker cfg w)"
proof -
  let ?b = "NewInMemoryBroker cfg w"
  have b: "b_queues ?b = []" "b_world ?b = w" "contents ?b = Map.empty" "listed_ok ?b"
    by (simp_all add: NewInMemoryBroker_def contents_def listed_ok_def runtimes_ok_def fun_eq_iff)
  from recover_queues_spec [OF b(4)] assms(1,2) b(1-3) obtain b1 where
    b1: "recover_queues qs ?b = Some b1" "listed_ok b1" "contents b1 = map_of qs"
    "dom (map_of (b_queues b1)) = dom (map_of qs)" "b_world b1 = w" "b_exchanges b1 = b_exchanges ?b"
    by (auto simp: dom_map_of_conv_image_fst)
  show ?thesis
  proof (cases "map_of (b_queues b1) DefaultQueueName")
    case None
    from add_queue_listed [OF b1(2) None, of "[]"] assms(2) b1(5) obtain a b2 where
      b2: "add_queue DefaultQueueName [] b1 = Some (a, b2)" "listed_ok b2"
      "contents b2 = (map_of qs)(DefaultQueueName \<mapsto> [])"
      "dom (map_of (b_queues b2)) = insert DefaultQueueName (dom (map_of qs))" "b_world b2 = w"
      "b_exchanges b2 = b_exchanges ?b"
      unfolding b1(3-6) by blast
    have "map_of qs DefaultQueueName = None" using None b1(4) by (metis domIff)
    then have "contents b2 = [DefaultQueueName \<mapsto> []] ++ map_of qs"
      unfolding b2(3) by (auto simp: map_add_def fun_eq_iff split: option.splits)
    with b1(1) b2 None show ?thesis by (intro exI [of _ b1] exI [of _ b2]) simp
  next
    case (Some a)
    then have d: "DefaultQueueName \<in> dom (map_of qs)" using b1(4) by blast
    then have "map_of qs = [DefaultQueueName \<mapsto> []] ++ map_of qs"
      by (auto simp: map_add_def fun_eq_iff split: option.splits)
    with b1 d Some show ?thesis by (intro exI [of _ b1] exI [of _ b1]) auto
  qed
qed


lemma default_not_pending:
  "recoverable st \<Longrightarrow> map_of (PendingExchanges st) DefaultExchangeName = None"
  by (cases "map_of (PendingExchanges st) DefaultExchangeName")
    (auto simp: recoverable_def state_ok_def validateExchangeName_def split: if_splits)

lemma pending_exchange_ok:
  assumes st: "recoverable st" and exs: "gm_wf exs" "map_of exs = map_of (PendingExchanges st)"
    and Q: "dom (map_of (b_queues b)) = insert DefaultQueueName (dom (map_of (PendingMessages st)))"
    and X: "dom (map_of (b_exchanges b)) = {DefaultExchangeName}"
  shows "\<forall>(n, es) \<in> set exs. map_of (b_exchanges b) n = None \<and> state_ok (dom (map_of (b_queues b))) n es"
proof -
  have "map_of (b_exchanges b) n = None \<and> state_ok (dom (map_of (b_queues b))) n es" if "(n, es) \<in> set exs" for n es
  proof -
    have n: "map_of (PendingExchanges st) n = Some es" using that exs by (simp add: gm_wf_map_of)
    then have "state_ok (dom (map_of (b_queues b))) n es" using st Q by (simp add: recoverable_def)
    moreover have "n \<noteq> DefaultExchangeName" using n default_not_pending [OF st] by auto
    ultimately show ?thesis using X by (metis domIff singletonD)
  qed
  then show ?thesis by blast
qed

lemma recovering:
  assumes l: "listed_ok b" and Q: "dom (map_of (b_queues b)) = insert DefaultQueueName (dom (map_of (PendingMessages st)))"
    and w: "reliable (w_wal (b_world b))" "wal_Load (w_wal (b_world b)) = Inr st" "w_tokenOwners (b_world b) = []"
    and x: "b_exchanges b = [(DefaultExchangeName, NewDirectExchange DefaultExchangeName)]"
    and st: "recoverable st" and exs: "map_of exs = map_of (PendingExchanges st)"
  shows "broker_with (still exs) b"
proof -
  have e: "ex_ListBindings (NewDirectExchange DefaultExchangeName) = []"
    using factory_empty [of DefaultExchangeName DirectExchange] by (simp add: NewExchangeFactory_def)
  have "DefaultQueueName \<in> dom (map_of (b_queues b))" using Q by simp
  with l have "queues_ok b" "runtimes_ok b" by (auto simp: listed_ok_def queues_ok_def)
  moreover have "exchanges_ok b" using e by (simp add: exchanges_ok_def x exchange_ok_def)
  moreover have "owners_ok b" using w(3) by (simp add: owners_ok_def)
  moreover have "topology st (map_of (b_exchanges b) ++ still exs) (dom (map_of (b_queues b)))"
  proof -
    have s: "map_option ex_state (still exs n) = map_of (PendingExchanges st) n" for n
    proof (cases "map_of (PendingExchanges st) n")
      case (Some es)
      then have "state_ok (insert DefaultQueueName (dom (map_of (PendingMessages st)))) n es"
        using st by (simp add: recoverable_def)
      then have "ex_state (ex_of es) = es" using ex_state_of by (auto simp: state_ok_def)
      with Some show ?thesis by (simp add: still_def exs)
    qed (simp add: still_def exs)
    note d = default_not_pending [OF st]
    have "map_of (PendingExchanges st) n = map_option ex_state ((map_of (b_exchanges b) ++ still exs) n)"
      if "n \<noteq> DefaultExchangeName" for n
      using s [of n] that by (cases "still exs n") (simp_all add: map_add_def x)
    moreover have "map_of (PendingMessages st) n \<noteq> None \<longleftrightarrow> n \<in> dom (map_of (b_queues b))" if "n \<noteq> DefaultQueueName" for n
      unfolding Q using that by auto
    ultimately show ?thesis using st d by (simp add: topology_def recoverable_def)
  qed
  ultimately show ?thesis using w(1,2) by (auto simp: broker_with_def log_with_def)
qed

lemma default_binding:
  assumes ok: "broker_ok b" and e: "states b DefaultExchangeName = Some \<lparr>es_ExchangeType = t, es_Bindings = []\<rparr>"
  shows "\<exists>b'. BindQueue DefaultExchangeName DefaultQueueName DefaultQueueName b = (None, b') \<and> broker_ok b'
    \<and> same_queues b b' \<and> states b' = (states b)(DefaultExchangeName \<mapsto>
        \<lparr>es_ExchangeType = t, es_Bindings = [\<lparr>QueueName = DefaultQueueName, BindingKey = DefaultQueueName\<rparr>]\<rparr>)"
proof -
  from e obtain x where x: "map_of (b_exchanges b) DefaultExchangeName = Some x"
    "ex_state x = \<lparr>es_ExchangeType = t, es_Bindings = []\<rparr>" by (auto simp: states_def)
  then have "ex_ListBindings x = []" by (simp add: ex_state_def)
  with Bind_new [of DefaultQueueName DefaultQueueName x] obtain x' where
    x': "ex_Bind DefaultQueueName DefaultQueueName x = (None, x')"
    "ex_state x' = \<lparr>es_ExchangeType = t, es_Bindings = [\<lparr>QueueName = DefaultQueueName, BindingKey = DefaultQueueName\<rparr>]\<rparr>"
    using x(2) by auto
  have "map_of (b_queues b) DefaultQueueName \<noteq> None" using broker_okD(1) [OF ok] by (simp add: queues_ok_def)
  from BindQueue_success [OF ok [folded broker_with_none] default_key this x(1) x'(1)] obtain f where
    f: "BindQueue DefaultExchangeName DefaultQueueName DefaultQueueName b = (None, b\<lparr>b_world := (b_world b)\<lparr>w_wal := f\<rparr>,
          b_exchanges := gm_put DefaultExchangeName x' (b_exchanges b)\<rparr>)"
    "broker_ok (b\<lparr>b_world := (b_world b)\<lparr>w_wal := f\<rparr>, b_exchanges := gm_put DefaultExchangeName x' (b_exchanges b)\<rparr>)"
    unfolding broker_with_none by auto
  let ?b = "b\<lparr>b_world := (b_world b)\<lparr>w_wal := f\<rparr>, b_exchanges := gm_put DefaultExchangeName x' (b_exchanges b)\<rparr>"
  have "states ?b = (states b)(DefaultExchangeName \<mapsto> ex_state x')" by (simp add: states_def fun_eq_iff)
  with f x'(2) show ?thesis by (intro exI [of _ ?b]) simp
qed

lemma map_of_perm: "mset m = mset m' \<Longrightarrow> gm_wf m \<Longrightarrow> map_of m = map_of m'"
proof
  fix k
  assume m: "mset m = mset m'" "gm_wf m"
  from gm_wf_map_of [OF m(2), of k] gm_wf_map_of [OF gm_wf_perm [OF m], of k] mset_eq_setD [OF m(1)]
  show "map_of m k = map_of m' k" by (cases "map_of m k"; cases "map_of m' k") auto
qed

lemma recovered:
  assumes w: "reliable (w_wal w)" "wal_Load (w_wal w) = Inr st" and st: "recoverable st"
    and u: "inj (w_uuids w)" and t: "w_tokenOwners w = []" and o: "mset (order st) = mset (PendingExchanges st)"
  shows "\<exists>b. NewBroker cfg order w = Some (Some b, None) \<and> broker_ok b
    \<and> contents b = [DefaultQueueName \<mapsto> []] ++ map_of (PendingMessages st)
    \<and> states b = (map_of (PendingExchanges st))(DefaultExchangeName \<mapsto> default_state)"
proof -
  have wf: "gm_wf (PendingMessages st)" "gm_wf (PendingExchanges st)" using st by (simp_all add: recoverable_def)
  obtain b1 b2 where b: "recover_queues (PendingMessages st) (NewInMemoryBroker cfg w) = Some b1"
    "(if map_of (b_queues b1) DefaultQueueName = None
      then map_option snd (add_queue DefaultQueueName [] b1) else Some b1) = Some b2"
    "listed_ok b2" "contents b2 = [DefaultQueueName \<mapsto> []] ++ map_of (PendingMessages st)"
    "dom (map_of (b_queues b2)) = insert DefaultQueueName (dom (map_of (PendingMessages st)))"
    "b_world b2 = w" "b_exchanges b2 = [(DefaultExchangeName, NewDirectExchange DefaultExchangeName)]"
    using recovered_queues [OF wf(1) u t, of cfg] by (auto simp: NewInMemoryBroker_def)
  have ex: "gm_wf (order st)" "map_of (order st) = map_of (PendingExchanges st)"
    using gm_wf_perm [OF o [symmetric] wf(2)] map_of_perm [OF o [symmetric] wf(2)] by simp_all
  have bw: "broker_with (still (order st)) b2"
    by (rule recovering [OF b(3,5) _ _ _ b(7) st ex(2)]) (use w t b(6) in simp_all)
  from recover_exchanges_spec [OF bw ex(1) pending_exchange_ok [OF st ex b(5)]] b(7) obtain b3 where
    b3: "recover_exchanges (order st) b2 = (None, b3)" "broker_ok b3" "same_queues b2 b3"
    "states b3 = states b2 ++ map_of (PendingExchanges st)" unfolding ex(2) by auto
  have b2s: "states b2 = [DefaultExchangeName \<mapsto> \<lparr>es_ExchangeType = exchange_type_string DirectExchange, es_Bindings = []\<rparr>]"
    using ex_state_new [of DefaultExchangeName DirectExchange]
    by (auto simp: states_def b(7) fun_eq_iff NewExchangeFactory_def)
  have "states b3 DefaultExchangeName = Some \<lparr>es_ExchangeType = exchange_type_string DirectExchange, es_Bindings = []\<rparr>"
    using default_not_pending [OF st] by (simp add: b3(4) b2s map_add_def)
  from default_binding [OF b3(2) this] obtain b4 where
    b4: "BindQueue DefaultExchangeName DefaultQueueName DefaultQueueName b3 = (None, b4)" "broker_ok b4"
    "same_queues b3 b4" "states b4 = (states b3)(DefaultExchangeName \<mapsto> default_state)"
    unfolding default_state_def by blast
  have "NewBroker cfg order w = Some (Some b4, None)"
    using w(2) b(1,2) b3(1) b4(1) by (simp add: NewBroker_def recover_def)
  moreover have "contents b4 = contents b2" using b3(3) b4(3) by simp
  moreover have "states b4 = (map_of (PendingExchanges st))(DefaultExchangeName \<mapsto> default_state)"
    unfolding b4(4) b3(4) b2s by (auto simp: map_add_def fun_eq_iff split: option.splits)
  ultimately show ?thesis using b4(2) b(4) by auto
qed

end
