(* ===== verification/Broker_Properties.thy ===== *)
theory Broker_Properties
  imports Broker_Recovery
begin

text \<open>
  Properties of a broker that \<open>NewBroker\<close> has started on a log, over every sequence of calls and
  every interleaving with the goroutines of its queues, on a disk that works.
\<close>

definition good_start :: "(recovered_state \<Rightarrow> (string \<times> exchange_state) list) \<Rightarrow> world \<Rightarrow> recovered_state \<Rightarrow> bool" where
  "good_start order w st \<longleftrightarrow> reliable (w_wal w) \<and> wal_Load (w_wal w) = Inr st \<and> recoverable st
     \<and> inj (w_uuids w) \<and> w_tokenOwners w = [] \<and> mset (order st) = mset (PendingExchanges st)"

definition booted :: "broker \<Rightarrow> broker_system" where
  "booted b = \<lparr>bs_broker = b, bs_dist = (\<lambda>_. D_Top)\<rparr>"

lemma booted_ok:
  assumes "good_start order w st" and "NewBroker cfg order w = Some (Some b, None)"
  shows "broker_ok (bs_broker (booted b))"
  using assms recovered [of w st order cfg] by (auto simp: good_start_def booted_def)

lemma reached_ok:
  assumes "good_start order w st" and "NewBroker cfg order w = Some (Some b, None)"
    and "b_reaches b_safe (booted b) s"
  shows "broker_ok (bs_broker s)"
  by (rule brk.reach_keep [OF assms(3) booted_ok [OF assms(1,2)]])

subsection \<open>Sample runs\<close>

fun b_trace :: "(broker_event \<Rightarrow> broker_system \<Rightarrow> bool) \<Rightarrow> broker_event list \<Rightarrow> broker_system \<Rightarrow> broker_system option" where
  "b_trace allowed [] s = Some s"
| "b_trace allowed (ev # evs) s =
     (if allowed ev s then (case b_exec ev s of BNext t \<Rightarrow> b_trace allowed evs t | _ \<Rightarrow> None) else None)"

lemma b_reaches_trans: "b_reaches allowed s1 s2 \<Longrightarrow> b_reaches allowed s0 s1 \<Longrightarrow> b_reaches allowed s0 s2"
  by (induction rule: b_reaches.induct) (auto intro: b_reaches.step)

lemma b_trace_reaches: "b_trace allowed evs s = Some t \<Longrightarrow> b_reaches allowed s t"
proof (induction evs arbitrary: s)
  case (Cons ev evs)
  then obtain s1 where "allowed ev s" "b_exec ev s = BNext s1" "b_trace allowed evs s1 = Some t"
    by (auto split: if_splits broker_outcome.splits)
  with Cons.IH [of s1] b_reaches.step [OF b_reaches.start [of allowed s]] show ?case
    by (blast intro: b_reaches_trans)
qed (simp add: b_reaches.start)

definition sample_broker :: broker where
  "sample_broker = the (fst (the (NewBroker DefaultConfig PendingExchanges sample_world)))"

lemma sample_load: "wal_Load (w_wal sample_world) = Inr empty_state"
  by code_simp

lemma sample_good: "good_start PendingExchanges sample_world empty_state"
proof -
  have "reliable (w_wal sample_world)" by (simp add: reliable_def sample_world_def)
  moreover have "recoverable empty_state" by (simp add: recoverable_def empty_state_def)
  moreover have "w_tokenOwners sample_world = []" by (simp add: sample_world_def)
  ultimately show ?thesis using sample_load sample_uuids by (simp add: good_start_def)
qed

lemma sample_boot: "NewBroker DefaultConfig PendingExchanges sample_world = Some (Some sample_broker, None)"
proof -
  obtain b where "NewBroker DefaultConfig PendingExchanges sample_world = Some (Some b, None)"
    using recovered [of sample_world empty_state PendingExchanges DefaultConfig] sample_good
    by (auto simp: good_start_def)
  then show ?thesis by (simp add: sample_broker_def)
qed

subsection \<open>Safety and integrity\<close>



subsection \<open>Restart\<close>

text \<open>
  C19. Recovery: from a valid log NewBroker returns, without an error, a broker whose queues hold
  exactly the pending messages in order (and an empty default queue when the log has none), and
  whose exchanges have exactly the logged types and bindings in order, next to the default
  exchange with its one binding; the order in which the exchanges are visited is irrelevant.
\<close>

theorem NewBroker_restores:
  assumes "good_start order w st"
  shows "\<exists>b. NewBroker cfg order w = Some (Some b, None)
    \<and> contents b = [DefaultQueueName \<mapsto> []] ++ map_of (PendingMessages st)
    \<and> states b = (map_of (PendingExchanges st))(DefaultExchangeName \<mapsto> default_state)"
  using assms recovered [of w st order cfg] by (auto simp: good_start_def)


theorem NewBroker_restores_witness:
  "\<exists>b. NewBroker DefaultConfig PendingExchanges sample_world = Some (Some b, None)
    \<and> contents b DefaultQueueName = Some [] \<and> states b DefaultExchangeName = Some default_state"
  using NewBroker_restores [OF sample_good, of DefaultConfig] by (auto simp: empty_state_def)

abbreviation sample_calls :: "broker_event list" where
  "sample_calls \<equiv> [CallStart, CallCreateExchange ''logs'' ''topic'', CallCreateQueue ''jobs'',
     CallBindQueue ''logs'' ''jobs'' ''app.#'', CallSubscribe ''jobs'' 0 ''c1'',
     CallPublish ''logs'' ''app.db'' (msg ''a'') 0, Turn 1 EvTop, Turn 1 EvNotified, Turn 1 EvReserve]"






text \<open>
  The default exchange is not recovered: a queue that a client has bound to the default
  exchange gets the messages published there until the broker restarts; after a restart on the
  same log the publish fails with no route, because \<open>Load\<close> drops bindings of exchanges that it
  has seen no ExchangeCreated for.
\<close>

theorem default_exchange_bindings_lost:
  "case b_trace b_safe [CallCreateQueue ''jobs'', CallBindQueue DefaultExchangeName ''jobs'' ''jobs''] (booted sample_broker) of
     None \<Rightarrow> False
   | Some s \<Rightarrow>
       (case Publish DefaultExchangeName ''jobs'' (msg ''a'') 0 (bs_broker s) of
          Some (PubDone None, _) \<Rightarrow> True | _ \<Rightarrow> False)
       \<and> (case NewBroker DefaultConfig PendingExchanges (b_world (bs_broker s)) of
            Some (Some b', None) \<Rightarrow>
              map_of (b_queues b') ''jobs'' \<noteq> None
              \<and> map_option fst (Publish DefaultExchangeName ''jobs'' (msg ''a'') 0 b') = Some (PubDone (Some ErrNoRoute))
          | _ \<Rightarrow> False)"
  by code_simp

end
