(* ===== verification/Broker_Durability.thy ===== *)
theory Broker_Durability
  imports Broker_Properties
begin

text \<open>
  The messages of all queues survive a restart. \<open>broker_durable\<close> says, for every listed queue,
  that replaying the log gives back exactly its queued and in-flight messages. A call that logs a
  change of the topology leaves every queue's messages alone (\<open>log_keeps\<close>); an operation of one
  queue keeps the others' because it logs records of its own queue only. As for one queue, a
  publish has to use an identifier that no live message of the target queue has.
\<close>

definition broker_durable :: "broker \<Rightarrow> bool" where
  "broker_durable b \<longleftrightarrow> broker_ok b \<and> (\<forall>n a q. map_of (b_queues b) n = Some a \<longrightarrow> b_runtimes b a = Some q \<longrightarrow>
     durable (b_world b) q)"

definition log_keeps :: "string set \<Rightarrow> broker \<Rightarrow> broker \<Rightarrow> bool" where
  "log_keeps N b b' \<longleftrightarrow> (reliable (w_wal (b_world b)) \<longrightarrow> reliable (w_wal (b_world b'))
     \<and> (\<forall>q. q_name q \<notin> N \<longrightarrow> durable (b_world b) q \<longrightarrow> durable (b_world b') q))"

lemma broker_durableD:
  "broker_durable b \<Longrightarrow> broker_ok b"
  "broker_durable b \<Longrightarrow> map_of (b_queues b) n = Some a \<Longrightarrow> b_runtimes b a = Some q \<Longrightarrow> durable (b_world b) q"
  by (auto simp: broker_durable_def)

lemma log_keeps_refl [simp]: "w_wal (b_world b') = w_wal (b_world b) \<Longrightarrow> log_keeps N b b'"
  by (simp add: log_keeps_def durable_def)

lemma log_keeps_trans: "log_keeps N b b1 \<Longrightarrow> log_keeps N b1 b2 \<Longrightarrow> log_keeps N b b2"
  by (auto simp: log_keeps_def)

lemma reliable_clean: "reliable f \<Longrightarrow> clean_disk f"
  by (simp add: reliable_def clean_disk_def)

lemma b_Append_keeps:
  assumes "b_Append r b = (e, b')" and "loggable r"
    and "\<And>n st. n \<notin> N \<Longrightarrow> pending n (apply_record r st) = pending n st"
  shows "log_keeps N b b'"
  unfolding log_keeps_def
proof
  assume rel: "reliable (w_wal (b_world b))"
  from append_reliable [OF rel assms(2)] assms(1) obtain f where
    f: "w_wal (b_world b') = f" "reliable f"
    "\<forall>st. wal_Load (w_wal (b_world b)) = Inr st \<longrightarrow> wal_Load f = Inr (apply_record r st)" by auto
  with assms(3) reliable_clean show "reliable (w_wal (b_world b'))
     \<and> (\<forall>q. q_name q \<notin> N \<longrightarrow> durable (b_world b) q \<longrightarrow> durable (b_world b') q)"
    by (auto simp: durable_def)
qed

subsection \<open>Calls that change the topology\<close>

lemma pending_topology:
  "pending n (apply_record (zero_record\<lparr>r_Type := QueueCreated, r_Queue := k\<rparr>) st) = pending n st"
  "n \<noteq> k \<Longrightarrow> pending n (apply_record (zero_record\<lparr>r_Type := QueueDeleted, r_Queue := k\<rparr>) st) = pending n st"
  "pending n (apply_record (zero_record\<lparr>r_Type := QueueBinded, r_Exchange := ex, r_Queue := k, r_BindingKey := key\<rparr>) st) = pending n st"
  "pending n (apply_record (zero_record\<lparr>r_Type := QueueUnbinded, r_Exchange := ex, r_Queue := k, r_BindingKey := key\<rparr>) st) = pending n st"
  "pending n (apply_record (zero_record\<lparr>r_Type := QueueUnbinded, r_Exchange := ex, r_Queue := k\<rparr>) st) = pending n st"
  "pending n (apply_record (zero_record\<lparr>r_Type := ExchangeCreated, r_Exchange := ex, r_ExchangeType := t\<rparr>) st) = pending n st"
  "pending n (apply_record (zero_record\<lparr>r_Type := ExchangeDeleted, r_Exchange := ex\<rparr>) st) = pending n st"
  by (simp_all add: apply_record_types split: option.splits) (simp_all add: pending_def)

lemma with_exchanges_keeps:
  "log_keeps N (b\<lparr>b_exchanges := X\<rparr>) b' \<longleftrightarrow> log_keeps N b b'"
  "log_keeps N b (b'\<lparr>b_exchanges := X\<rparr>) \<longleftrightarrow> log_keeps N b b'"
  by (simp_all add: log_keeps_def)

lemma b_Append_frame:
  assumes "b_Append r b = (e, b')"
  shows "b_queues b' = b_queues b" "b_runtimes b' = b_runtimes b" "b_exchanges b' = b_exchanges b"
    "w_tokenOwners (b_world b') = w_tokenOwners (b_world b)"
  using assms by (auto simp: b_Append_def w_Append_result split: prod.splits)

lemma binding_calls_keep:
  "BindQueue ex n k b = (e, b') \<Longrightarrow> log_keeps {} b b' \<and> same_queues b b'"
  "UnbindQueue ex n k b = (e, b') \<Longrightarrow> log_keeps {} b b' \<and> same_queues b b'"
proof -
  show "log_keeps {} b b' \<and> same_queues b b'" if "BindQueue ex n k b = (e, b')"
    using that b_Append_keeps [OF _ _ pending_topology(3), where N = "{}"] b_Append_frame
    by (fastforce simp: BindQueue_def with_exchanges_keeps same_queues_def split: option.splits if_splits prod.splits)
  show "log_keeps {} b b' \<and> same_queues b b'" if "UnbindQueue ex n k b = (e, b')"
    using that b_Append_keeps [OF _ _ pending_topology(4), where N = "{}"] b_Append_frame
    by (fastforce simp: UnbindQueue_def with_exchanges_keeps same_queues_def split: option.splits if_splits prod.splits)
qed

lemma exchange_calls_keep:
  "CreateExchange ex t b = (e, b') \<Longrightarrow> log_keeps {} b b' \<and> same_queues b b'"
  "DeleteExchange ex b = (e, b') \<Longrightarrow> log_keeps {} b b' \<and> same_queues b b'"
proof -
  show "log_keeps {} b b' \<and> same_queues b b'" if "CreateExchange ex t b = (e, b')"
    using that b_Append_keeps [OF _ _ pending_topology(6), where N = "{}"] b_Append_frame
    by (fastforce simp: CreateExchange_def with_exchanges_keeps same_queues_def
        split: option.splits if_splits prod.splits sum.splits)
  show "log_keeps {} b b' \<and> same_queues b b'" if "DeleteExchange ex b = (e, b')"
    using that b_Append_keeps [OF _ _ pending_topology(7), where N = "{}"] b_Append_frame
    by (fastforce simp: DeleteExchange_def with_exchanges_keeps same_queues_def
        split: option.splits if_splits prod.splits)
qed


lemma topology_call_durable:
  assumes "broker_durable b" and "log_keeps {} b b'" and "same_queues b b'" and "broker_ok b'"
  shows "broker_durable b'"
proof -
  have "reliable (w_wal (b_world b))" by (rule log_ok_reliable [OF broker_okD(4) [OF broker_durableD(1) [OF assms(1)]]])
  with assms show ?thesis by (simp add: broker_durable_def log_keeps_def same_queues_def)
qed

lemma unbind_everywhere_keeps:
  "unbind_everywhere order n b = (e, b') \<Longrightarrow> log_keeps {} b b' \<and> same_queues b b'"
proof (induction order arbitrary: b)
  case (Cons x order)
  show ?case
  proof (cases "map_of (b_exchanges b) x")
    case (Some ex)
    obtain r ex' where u: "ex_Unbind '''' n ex = (r, ex')" by fastforce
    let ?r = "zero_record\<lparr>r_Type := QueueUnbinded, r_Exchange := x, r_Queue := n\<rparr>"
    let ?b = "b\<lparr>b_exchanges := gm_put x ex' (b_exchanges b)\<rparr>"
    obtain e1 b1 where ap: "b_Append ?r ?b = (e1, b1)" by fastforce
    have k: "log_keeps {} b b1 \<and> same_queues b b1"
      using b_Append_keeps [OF ap, where N = "{}"] pending_topology(5) b_Append_frame [OF ap]
      by (simp add: with_exchanges_keeps same_queues_def)
    show ?thesis
    proof (cases r)
      case None
      show ?thesis
      proof (cases e1)
        case None
        with Some u ap \<open>r = None\<close> Cons.prems have "unbind_everywhere order n b1 = (e, b')" by simp
        from Cons.IH [OF this] k show ?thesis by (blast intro: log_keeps_trans same_queues_trans)
      qed (use Some u ap \<open>r = None\<close> Cons.prems k in simp)
    qed (use Some u Cons in \<open>auto split: if_splits\<close>)
  qed (use Cons in simp)
qed simp

subsection \<open>Operations of one queue\<close>

lemma durable_elsewhere:
  assumes "durable w q" and "log_step n (w_wal w) (w_wal w')" and "q_name q \<noteq> n"
  shows "durable w' q"
  using assms reliable_clean unfolding durable_def log_step_def same_elsewhere_def pending_def by metis

lemma step_durable:
  assumes bd: "broker_durable b" and a: "b_runtimes b a = Some q"
    and st: "\<And>admit. base (b_world b) q \<Longrightarrow> steps admit (b_world b) q w' q'"
  shows "broker_durable (set_runtime a w' q' b)"
  unfolding broker_durable_def
proof (intro conjI allI impI)
  note ok = broker_durableD(1) [OF bd]
  note d = broker_okD [OF ok] and r = runtimes_okD [OF broker_okD(5) [OF ok] a]
  show "broker_ok (set_runtime a w' q' b)" by (rule step_ok [OF ok a st])
  from steps_effect [OF st [OF r(2)] r(2)] have eff: "effect (b_world b) q w' q'" by simp
  note e = effectD [OF eff log_ok_reliable [OF d(4)]]
  fix n x p
  assume n: "map_of (b_queues (set_runtime a w' q' b)) n = Some x" and p: "b_runtimes (set_runtime a w' q' b) x = Some p"
  show "durable (b_world (set_runtime a w' q' b)) p"
  proof (cases "x = a")
    case True
    with n p a broker_durableD(2) [OF bd] have "durable (b_world b) q" "p = q'" by auto
    with dur.steps_keep [OF st [OF r(2)] r(2)] show ?thesis by simp
  next
    case False
    with n p broker_durableD(2) [OF bd] have px: "b_runtimes b x = Some p" and dp: "durable (b_world b) p"
      and nx: "map_of (b_queues b) n = Some x" by auto
    show ?thesis
    proof (cases "retired q")
      case True
      from e(10) [OF True] dp show ?thesis by (simp add: durable_def)
    next
      case nr: False
      have "q_name p = n" by (rule queue_named [OF d(1) nx px])
      with r(4) nr nx False have "q_name p \<noteq> q_name q" by auto
      with durable_elsewhere [OF dp e(3)] show ?thesis by simp
    qed
  qed
qed

fun fresh_loop :: "message \<Rightarrow> int \<Rightarrow> string list \<Rightarrow> broker \<Rightarrow> bool" where
  "fresh_loop m ttl [] b = True"
| "fresh_loop m ttl (n # ns) b =
     (case find_queue n b of
        Inl e \<Rightarrow> True
      | Inr a \<Rightarrow>
          (case b_runtimes b a of
             None \<Rightarrow> True
           | Some q \<Rightarrow> ID (fst (stamp m ttl (b_world b))) \<notin> ID ` set_mset (qr_messages q)
               \<and> (case qr_Publish m ttl (b_world b) q of
                    Some (Accepted, w', q') \<Rightarrow> fresh_loop m ttl ns (set_runtime a w' q' b)
                  | _ \<Rightarrow> True)))"

lemma publish_one_durable:
  assumes "broker_durable b" and "b_runtimes b a = Some q" and "qr_Publish m ttl (b_world b) q = Some (out, w', q')"
    and "ID (fst (stamp m ttl (b_world b))) \<notin> ID ` set_mset (qr_messages q)"
  shows "broker_durable (set_runtime a w' q' b)"
  by (rule step_durable [OF assms(1,2) steps_Publish [OF _ assms(3,4)]])

lemma publish_loop_durable:
  "broker_durable b \<Longrightarrow> fresh_loop m ttl ns b \<Longrightarrow> publish_loop m ttl ns b = Some (r, b') \<Longrightarrow> broker_durable b'"
proof (induction ns arbitrary: b)
  case (Cons n ns)
  show ?case
  proof (cases "find_queue n b")
    case (Inr a)
    obtain q where q: "b_runtimes b a = Some q"
      using find_queue_runtime [OF broker_okD(1) [OF broker_durableD(1) [OF Cons.prems(1)]] Inr] .
    with Inr Cons.prems(3) obtain out w' q' where p: "qr_Publish m ttl (b_world b) q = Some (out, w', q')"
      by (auto split: option.splits)
    have "broker_durable (set_runtime a w' q' b)"
      by (rule publish_one_durable [OF Cons.prems(1) q p]) (use Cons.prems(2) Inr q in simp)
    with Cons.IH [OF this] Cons.prems(2,3) Inr q p show ?thesis by (cases out) auto
  qed (use Cons.prems in auto)
qed simp


subsection \<open>Creating and deleting queues\<close>

lemma unlisted_pending:
  assumes ok: "broker_ok b" and n: "map_of (b_queues b) n = None" and st: "wal_Load (w_wal (b_world b)) = Inr st"
  shows "pending n st = []"
proof -
  from broker_okD(4) [OF ok] st have t: "topology st (map_of (b_exchanges b)) (dom (map_of (b_queues b)))"
    by (auto simp: log_ok_def)
  have "n \<noteq> DefaultQueueName" using broker_okD(1) [OF ok] n by (auto simp: queues_ok_def)
  with t n have "map_of (PendingMessages st) n = None" unfolding topology_def by (metis domIff)
  then show ?thesis by (simp add: pending_def)
qed

lemma empty_durable:
  assumes "broker_ok b" and "map_of (b_queues b) (q_name q) = None" and "qr_messages q = {#}"
  shows "durable (b_world b) q"
  using unlisted_pending [OF assms(1,2)] broker_okD(4) [OF assms(1)] assms(3) reliable_clean
  by (auto simp: durable_def log_ok_def)

lemma new_messages: "newQueueRuntime cfg a n ms = Some q \<Longrightarrow> qr_messages q = mset ms \<and> mgr_messages (q_inFlight q) = {#}"
  using newQueueRuntime_result(2,3) [of cfg a n ms q] by (simp add: qr_messages_def NewManager_def mgr_messages_def)

lemma startQueue_simps [simp]:
  "b_queues (startQueue a b) = b_queues b" "b_runtimes (startQueue a b) = b_runtimes b"
  "b_world (startQueue a b) = b_world b"
  by (simp_all add: startQueue_def)

lemma CreateQueue_durable:
  assumes bd: "broker_durable b" and run: "CreateQueue n b = Some (e, b')"
  shows "broker_durable b'"
proof (cases "b' = b")
  case False
  note ok = broker_durableD(1) [OF bd]
  let ?r = "zero_record\<lparr>r_Type := QueueCreated, r_Queue := n\<rparr>"
  obtain e1 b1 where ap: "b_Append ?r b = (e1, b1)" by fastforce
  note fr = b_Append_frame [OF ap]
  from append_reliable [OF log_ok_reliable [OF broker_okD(4) [OF ok]], of ?r] ap have e1: "e1 = None" by simp
  from run False ap e1 have new: "map_of (b_queues b) n = None"
    and aq: "\<exists>a b2. add_queue n [] b1 = Some (a, b2) \<and> b' = (if b_started b2 then startQueue a b2 else b2)"
    by (auto simp: CreateQueue_def split: option.splits if_splits prod.splits)
  obtain q where q: "add_queue n [] b1 = Some (b_next b1, b1\<lparr>b_runtimes := (b_runtimes b1)(b_next b1 \<mapsto> q),
      b_next := b_next b1 + 1, b_queues := gm_put n (b_next b1) (b_queues b1)\<rparr>)"
    "newQueueRuntime (b_cfg b1) (b_next b1) n [] = Some q" "q_name q = n" using add_queue_ok by metis
  have b': "b_queues b' = gm_put n (b_next b1) (b_queues b)" "b_runtimes b' = (b_runtimes b)(b_next b1 \<mapsto> q)"
    "b_world b' = b_world b1" using aq q(1) fr by (auto split: if_splits)
  have keep: "durable (b_world b) p \<Longrightarrow> durable (b_world b1) p" for p
    using b_Append_keeps [OF ap, where N = "{}"] pending_topology(1) log_ok_reliable [OF broker_okD(4) [OF ok]]
    by (simp add: log_keeps_def)
  have "durable (b_world b') p" if "map_of (b_queues b') k = Some a" "b_runtimes b' a = Some p" for k a p
  proof (cases "p = q")
    case True
    from empty_durable [OF ok, of q] q(3) new new_messages [OF q(2)] keep b'(3) True show ?thesis by simp
  next
    case False
    then have a: "b_runtimes b a = Some p" "a \<noteq> b_next b1" using that(2) b'(2) by (auto split: if_splits)
    with that(1) b'(1) have "map_of (b_queues b) k = Some a" by (auto split: if_splits)
    with broker_durableD(2) [OF bd this a(1)] keep b'(3) show ?thesis by simp
  qed
  moreover have "broker_ok b'" using CreateQueue_ok [OF ok, of n] run by auto
  ultimately show ?thesis by (simp add: broker_durable_def)
qed (use bd in simp)

lemma DeleteQueue_durable:
  assumes bd: "broker_durable b" and order: "set order = dom (map_of (b_exchanges b))"
    and run: "DeleteQueue order n b = Some (e, b')"
  shows "broker_durable b'"
  using broker_durableD(1) [OF bd] order
proof (cases rule: DeleteQueue_total [where n = n])
  case (refused e)
  with bd run show ?thesis by simp
next
  case (deleted a q w q1 b1 b2 w' q')
  note qok = broker_okD(1) [OF broker_durableD(1) [OF bd]]
  let ?b0 = "set_runtime a w q1 b"
  have bd0: "broker_durable ?b0" by (rule step_durable [OF bd deleted(3) steps_leaving(3) [OF _ deleted(4)]])
  have b': "b' = forget_tokens a (set_runtime a w' q' b2)" using deleted(10) run by simp
  have k1: "log_keeps {n} ?b0 b1" by (rule b_Append_keeps [OF deleted(7)]) (simp_all add: pending_topology)
  have k2: "log_keeps {} b1 b2" "b_queues b2 = gm_del n (b_queues b)" "b_runtimes b2 = (b_runtimes b)(a \<mapsto> q1)"
    using unbind_everywhere_keeps [OF deleted(8)] b_Append_frame [OF deleted(7)]
    by (auto simp: log_keeps_def same_queues_def)
  have wal: "w_wal w' = w_wal (b_world b2)" using deleted(9) by (auto simp: qr_Shutdown_def)
  have "durable (b_world b') p" if l: "map_of (b_queues b') k = Some x" "b_runtimes b' x = Some p" for k x p
  proof -
    from l(1) b' k2(2) have kn: "k \<noteq> n" "map_of (b_queues b) k = Some x" by (auto split: if_splits)
    then have "x \<noteq> a" using address_named [OF qok deleted(2), of k] by blast
    with l(2) b' k2(3) have p: "b_runtimes b x = Some p" by simp
    with kn have "q_name p \<notin> {n}" using queue_named [OF qok kn(2)] by simp
    moreover have "durable (b_world ?b0) p"
      by (rule broker_durableD(2) [OF bd0, of k x]) (use kn(2) p \<open>x \<noteq> a\<close> in simp_all)
    ultimately have "durable (b_world b2) p"
      using k1 k2(1) log_ok_reliable [OF broker_okD(4) [OF deleted(6)]] by (simp add: log_keeps_def)
    with wal show ?thesis by (simp add: b' durable_def forget_tokens_def)
  qed
  with deleted(11) b' show ?thesis by (simp add: broker_durable_def)
qed


subsection \<open>Every event\<close>

definition b_fresh :: "broker_event \<Rightarrow> broker_system \<Rightarrow> bool" where
  "b_fresh ev s \<longleftrightarrow> b_safe ev s \<and>
     (case ev of
        CallPublish ex key m ttl \<Rightarrow>
          (case map_of (b_exchanges (bs_broker s)) ex of
             None \<Rightarrow> True
           | Some e \<Rightarrow> fresh_loop m ttl (ex_Route key e) (bs_broker s))
      | WakePublish m ttl a ns \<Rightarrow>
          (case b_runtimes (bs_broker s) a of
             None \<Rightarrow> True
           | Some q \<Rightarrow> ID (fst (stamp m ttl (b_world (bs_broker s)))) \<notin> ID ` set_mset (qr_messages q)
               \<and> (case qr_Publish m ttl (b_world (bs_broker s)) q of
                    Some (Accepted, w', q') \<Rightarrow> fresh_loop m ttl ns (set_runtime a w' q' (bs_broker s))
                  | _ \<Rightarrow> True))
      | _ \<Rightarrow> True)"

lemma durable_cong:
  assumes "broker_durable b" and "broker_ok b'" and "b_queues b' = b_queues b" and "b_runtimes b' = b_runtimes b"
    and "w_wal (b_world b') = w_wal (b_world b)"
  shows "broker_durable b'"
  using assms by (simp add: broker_durable_def durable_def)

lemma Publish_durable:
  assumes "broker_durable (bs_broker s)" and "b_fresh (CallPublish ex key m ttl) s"
    and "Publish ex key m ttl (bs_broker s) = Some (r, b')"
  shows "broker_durable b'"
proof (cases "map_of (b_exchanges (bs_broker s)) ex")
  case (Some e)
  show ?thesis
  proof (cases "ex_Route key e = []")
    case True
    with Some assms show ?thesis by (simp add: Publish_def)
  next
    case False
    with Some assms(3) have "publish_loop m ttl (ex_Route key e) (bs_broker s) = Some (r, b')"
      by (simp add: Publish_def)
    with Some assms(2) show ?thesis by (intro publish_loop_durable [OF assms(1)]) (simp_all add: b_fresh_def)
  qed
qed (use assms in \<open>auto simp: Publish_def\<close>)

lemma publish_wake_durable:
  assumes bd: "broker_durable (bs_broker s)" and fr: "b_fresh (WakePublish m ttl a ns) s"
    and run: "publish_wake m ttl a ns (bs_broker s) = Some (r, b')"
  shows "broker_durable b'"
proof -
  from run obtain q out w' q' where q: "b_runtimes (bs_broker s) a = Some q"
    and p: "qr_Publish m ttl (b_world (bs_broker s)) q = Some (out, w', q')"
    by (auto simp: publish_wake_def split: option.splits)
  have bd1: "broker_durable (set_runtime a w' q' (bs_broker s))"
    by (rule publish_one_durable [OF bd q p]) (use fr q in \<open>simp add: b_fresh_def\<close>)
  show ?thesis
  proof (cases out)
    case Accepted
    with run fr q p publish_loop_durable [OF bd1] show ?thesis by (auto simp: publish_wake_def b_fresh_def)
  qed (use run q p bd1 in \<open>auto simp: publish_wake_def\<close>)
qed

lemma Subscribe_durable:
  assumes bd: "broker_durable b" and new: "w_sessions (b_world b) c = None"
    and run: "Subscribe n c (b\<lparr>b_world := with_session c i (b_world b)\<rparr>) = Some (r, b')"
  shows "broker_durable b'"
proof -
  let ?b = "b\<lparr>b_world := with_session c i (b_world b)\<rparr>"
  have ok: "broker_ok b'" using Subscribe_ok [OF broker_durableD(1) [OF bd] new, of n i] run by auto
  show ?thesis
  proof (cases "find_queue n ?b")
    case (Inl e)
    with run ok show ?thesis by (intro durable_cong [OF bd]) (auto simp: Subscribe_def)
  next
    case (Inr a)
    with run obtain q e q' where q: "b_runtimes b a = Some q"
      and s: "qr_Subscribe c (b_world ?b) q = Some (e, q')"
      and b': "b' = set_runtime a (b_world ?b) q' b"
      by (auto simp: Subscribe_def split: option.splits)
    have "qr_messages q' = qr_messages q" "q_name q' = q_name q"
      using s by (auto simp: qr_Subscribe_def qr_messages_def split: if_splits option.splits)
    with bd ok b' q show ?thesis
      by (auto simp: broker_durable_def durable_def split: if_splits; metis)
  qed
qed

lemma Unsubscribe_durable:
  assumes "broker_durable b" and "Unsubscribe n i b = Some b'"
  shows "broker_durable b'"
proof (cases "find_queue n b")
  case (Inr a)
  with assms(2) obtain q w' q' where q: "b_runtimes b a = Some q" and u: "qr_Unsubscribe i (b_world b) q = (w', q')"
    and b': "b' = set_runtime a w' q' b" by (auto simp: Unsubscribe_def split: option.splits prod.splits)
  show ?thesis unfolding b' by (rule step_durable [OF assms(1) q steps_leaving(1) [OF _ u]])
qed (use assms in \<open>simp add: Unsubscribe_def\<close>)

lemma Ack_durable:
  assumes "broker_durable b" and "Ack t b = Some (r, b')"
  shows "broker_durable b'"
proof (cases "map_of (w_tokenOwners (b_world b)) t")
  case (Some a)
  with assms(2) obtain q w' q' where q: "b_runtimes b a = Some q" and u: "qr_Ack t (b_world b) q = (r, w', q')"
    and b': "b' = set_runtime a w' q' b" by (auto simp: Ack_def split: option.splits prod.splits)
  show ?thesis unfolding b' by (rule step_durable [OF assms(1) q steps_Ack [OF u]])
qed (use assms in \<open>simp add: Ack_def\<close>)

lemma lifecycle_durable:
  assumes bd: "broker_durable b"
  shows "broker_durable (Start b)" and "broker_durable (Shutdown b)"
    and "broker_durable (b\<lparr>b_cancelled := True\<rparr>)"
proof -
  note ok = broker_durableD(1) [OF bd]
  show "broker_durable (b\<lparr>b_cancelled := True\<rparr>)" using ok by (intro durable_cong [OF bd]) simp_all
  have "b_queues (fold startQueue as c) = b_queues c \<and> b_runtimes (fold startQueue as c) = b_runtimes c
      \<and> b_world (fold startQueue as c) = b_world c" for as c
    by (induction as arbitrary: c) simp_all
  then show "broker_durable (Start b)"
    by (intro durable_cong [OF bd Start_ok [OF ok]]) (simp_all add: Start_def)
  have one: "broker_durable (shutdown_runtime a c)" if "broker_durable c" for a c
  proof (cases "b_runtimes c a")
    case (Some q)
    obtain w' q' where u: "qr_Shutdown (b_world c) q = (w', q')" by fastforce
    from step_durable [OF that Some steps_leaving(2) [OF _ u]] Some u show ?thesis by (simp add: shutdown_runtime_def)
  qed (use that in \<open>simp add: shutdown_runtime_def\<close>)
  have all: "broker_durable (fold shutdown_runtime as c)" if "broker_durable c" for as c
    using that by (induction as arbitrary: c) (simp_all add: one)
  have "broker_durable (fold shutdown_runtime (map snd (b_queues b)) (b\<lparr>b_closed := True\<rparr>))"
    by (rule all) (use bd ok in \<open>simp add: broker_durable_def\<close>)
  from this Shutdown_ok [OF ok] bd show "broker_durable (Shutdown b)"
    by (cases "b_closed b") (auto simp: Shutdown_def Let_def intro: durable_cong)
qed

lemma turn_durable:
  assumes bd: "broker_durable (bs_broker s)" and safe: "b_safe (Turn a ev) s" and run: "turn a ev s = BNext t"
  shows "broker_durable (bs_broker t)"
proof -
  from run obtain q u where q: "b_runtimes (bs_broker s) a = Some q"
    and u: "qs_exec ev (queue_view s a q) = Next u" and g: "goroutine_event ev (bs_broker s)"
    and t: "bs_broker t = set_runtime a (qs_world u) (qs_queue u) (bs_broker s)"
    by (auto simp: turn_def split: if_splits option.splits outcome.splits)
  have ad: "admitted admit ev (queue_view s a q)" for admit
    using safe g q by (auto simp: admitted_def b_safe_def goroutine_event_def split: event.splits)
  show ?thesis unfolding t
  proof (rule step_durable [OF bd q])
    fix admit
    assume "base (b_world (bs_broker s)) q"
    then have "base_sys (queue_view s a q)" by (simp add: base_sys_def queue_view_def)
    from event_steps [OF this ad u] show "steps admit (b_world (bs_broker s)) q (qs_world u) (qs_queue u)"
      by (simp add: queue_view_def)
  qed
qed


lemma returns_Next: "returns s x = BNext t \<longleftrightarrow> (\<exists>r b'. x = Some (r, b') \<and> t = s\<lparr>bs_broker := b'\<rparr>)"
  by (auto simp: returns_def split: option.splits)

lemma event_durable:
  assumes bd: "broker_durable (bs_broker s)" and fr: "b_fresh ev s" and run: "b_exec ev s = BNext t"
  shows "broker_durable (bs_broker t)"
proof -
  have ok: "broker_ok (bs_broker t)"
    using brk.keeps [OF broker_durableD(1) [OF bd] _ run] fr by (simp add: b_fresh_def)
  note top = topology_call_durable [OF bd _ _ ok]
  show ?thesis
  proof (cases ev)
    case (CallDeleteQueue order n)
    with run have "mset order = mset (map fst (b_exchanges (bs_broker s)))" by (simp split: if_splits)
    then have "set order = dom (map_of (b_exchanges (bs_broker s)))" by (rule order_keys)
    with CallDeleteQueue run DeleteQueue_durable [OF bd] show ?thesis by (auto simp: returns_Next split: if_splits)
  next
    case (CallBindQueue x n k)
    with run top binding_calls_keep(1) show ?thesis by (auto simp: returns_Next)
  next
    case (CallUnbindQueue x n k)
    with run top binding_calls_keep(2) show ?thesis by (auto simp: returns_Next)
  next
    case (CallCreateExchange x ty)
    with run top exchange_calls_keep(1) show ?thesis by (auto simp: returns_Next)
  next
    case (CallDeleteExchange x)
    with run top exchange_calls_keep(2) show ?thesis by (auto simp: returns_Next)
  next
    case (CallPublish x k m ttl)
    with run fr Publish_durable [OF bd] show ?thesis by (auto simp: returns_Next)
  next
    case (WakePublish m ttl a ns)
    with run fr publish_wake_durable [OF bd] show ?thesis by (auto simp: returns_Next split: if_splits)
  next
    case (CallSubscribe n c i)
    with run Subscribe_durable [OF bd] show ?thesis by (auto simp: returns_Next split: if_splits)
  next
    case (TakeDelivery c)
    with run obtain d b' where b': "take_delivery c (bs_broker s) = Some (d, b')" "bs_broker t = b'"
      by (auto split: option.splits)
    from broker_durableD(1) [OF bd] b'(1) obtain a q where "b_runtimes (bs_broker s) a = Some q"
      "b' = set_runtime a (b_world b') q (bs_broker s)"
      and st: "\<forall>admit. steps admit (b_world (bs_broker s)) q (b_world b') q"
      by (rule take_delivery_steps)
    from step_durable [OF bd this(1) spec [OF st]] this(2) b'(2) show ?thesis by simp
  next
    case (Turn a e)
    with run fr turn_durable [OF bd] show ?thesis by (simp add: b_fresh_def)
  qed (use run bd CreateQueue_durable [OF bd] Unsubscribe_durable [OF bd] Ack_durable [OF bd]
      lifecycle_durable [OF bd] in \<open>auto simp: returns_Next\<close>)
qed

interpretation bdu: system_invariant "\<lambda>s. broker_durable (bs_broker s)" b_fresh
proof
  fix s ev
  assume "broker_durable (bs_broker s)" "b_fresh ev s"
  then show "b_exec ev s \<noteq> BPanicked"
    using brk.alive [OF broker_durableD(1)] by (simp add: b_fresh_def)
qed (rule event_durable)


subsection \<open>The recovered broker\<close>

definition idle :: "broker \<Rightarrow> bool" where
  "idle b \<longleftrightarrow> (\<forall>a q. b_runtimes b a = Some q \<longrightarrow> mgr_messages (q_inFlight q) = {#})"

lemma add_queue_frame:
  assumes "add_queue n ms b = Some (a, b')"
  shows "b_world b' = b_world b" and "idle b \<Longrightarrow> idle b'"
  using assms new_messages by (auto simp: add_queue_def idle_def split: option.splits if_splits)

lemma recover_queues_frame: "recover_queues qs b = Some b' \<Longrightarrow> b_world b' = b_world b \<and> (idle b \<longrightarrow> idle b')"
proof (induction qs arbitrary: b)
  case (Cons p qs)
  obtain n ms where p: "p = (n, ms)" by (cases p)
  with Cons.prems obtain a b1 where b1: "add_queue n ms b = Some (a, b1)" "recover_queues qs b1 = Some b'"
    by (auto split: option.splits)
  from Cons.IH [OF b1(2)] add_queue_frame [OF b1(1)] show ?case by simp
qed simp

lemma recover_bindings_keeps: "recover_bindings ex xs b = (e, b') \<Longrightarrow> log_keeps {} b b' \<and> same_queues b b'"
proof (induction xs arbitrary: b)
  case (Cons x xs)
  obtain e1 b1 where b1: "BindQueue ex (QueueName x) (BindingKey x) b = (e1, b1)" by fastforce
  note k = binding_calls_keep(1) [OF b1]
  show ?case
  proof (cases e1)
    case None
    with Cons.prems b1 have "recover_bindings ex xs b1 = (e, b')" by simp
    from Cons.IH [OF this] k show ?thesis by (blast intro: log_keeps_trans same_queues_trans)
  qed (use Cons.prems b1 k in simp)
qed simp

lemma recover_exchanges_keeps: "recover_exchanges exs b = (e, b') \<Longrightarrow> log_keeps {} b b' \<and> same_queues b b'"
proof (induction exs arbitrary: b)
  case (Cons p exs)
  obtain n es where p: "p = (n, es)" by (cases p)
  obtain e1 b1 where b1: "CreateExchange n (es_ExchangeType es) b = (e1, b1)" by fastforce
  obtain e2 b2 where b2: "recover_bindings n (es_Bindings es) b1 = (e2, b2)" by fastforce
  note k1 = exchange_calls_keep(1) [OF b1] and k2 = recover_bindings_keeps [OF b2]
  then have k: "log_keeps {} b b2 \<and> same_queues b b2" by (blast intro: log_keeps_trans same_queues_trans)
  show ?case
  proof (cases e1)
    case None
    show ?thesis
    proof (cases e2)
      case None
      with \<open>e1 = None\<close> Cons.prems p b1 b2 have "recover_exchanges exs b2 = (e, b')" by simp
      from Cons.IH [OF this] k show ?thesis by (blast intro: log_keeps_trans same_queues_trans)
    qed (use \<open>e1 = None\<close> Cons.prems p b1 b2 k in simp)
  qed (use Cons.prems p b1 k1 in simp)
qed simp

lemma NewBroker_keeps:
  assumes "NewBroker cfg order w = Some (Some b, None)"
  shows "log_keeps {} (NewInMemoryBroker cfg w) b" and "idle b"
proof -
  from assms obtain st b1 b2 b3 where
    b1: "recover_queues (PendingMessages st) (NewInMemoryBroker cfg w) = Some b1" and
    b2: "b2 = b1 \<or> (\<exists>a. add_queue DefaultQueueName [] b1 = Some (a, b2))" and
    b3: "recover_exchanges (order st) b2 = (None, b3)" and
    b: "\<exists>e. BindQueue DefaultExchangeName DefaultQueueName DefaultQueueName b3 = (e, b)"
    by (auto simp: NewBroker_def recover_def split: sum.splits option.splits if_splits prod.splits) blast+
  have i0: "idle (NewInMemoryBroker cfg w)" by (simp add: idle_def NewInMemoryBroker_def)
  have w: "b_world b2 = b_world (NewInMemoryBroker cfg w)" "idle b2"
    using recover_queues_frame [OF b1] b2 add_queue_frame i0 by auto
  have k: "log_keeps {} b2 b \<and> same_queues b2 b"
    using recover_exchanges_keeps [OF b3] binding_calls_keep(1) b by (blast intro: log_keeps_trans same_queues_trans)
  with w show "log_keeps {} (NewInMemoryBroker cfg w) b" "idle b"
    by (auto simp: log_keeps_def idle_def same_queues_def)
qed

lemma booted_durable:
  assumes gs: "good_start order w st" and nb: "NewBroker cfg order w = Some (Some b, None)"
    and ids: "\<And>n. distinct (map ID (pending n st))"
  shows "broker_durable (bs_broker (booted b))"
proof -
  from gs have g: "reliable (w_wal w)" "wal_Load (w_wal w) = Inr st" by (simp_all add: good_start_def)
  obtain b0 where "NewBroker cfg order w = Some (Some b0, None)" "broker_ok b0"
    "contents b0 = [DefaultQueueName \<mapsto> []] ++ map_of (PendingMessages st)"
    using gs recovered [of w st order cfg] by (auto simp: good_start_def)
  with nb have ok: "broker_ok b" and cn: "contents b = [DefaultQueueName \<mapsto> []] ++ map_of (PendingMessages st)" by simp_all
  note k = NewBroker_keeps [OF nb]
  have "durable (b_world b) q" if n: "map_of (b_queues b) n = Some a" and q: "b_runtimes b a = Some q" for n a q
  proof -
    have "contents b n = Some (rb_list (q_queue q))" using n q by (simp add: contents_def)
    moreover have "contents b n = (case map_of (PendingMessages st) n of None \<Rightarrow> [DefaultQueueName \<mapsto> []] n | Some x \<Rightarrow> Some x)"
      by (simp add: cn map_add_def)
    ultimately have "rb_list (q_queue q) = pending n st"
      by (auto simp: pending_def split: option.splits if_splits)
    moreover have "q_name q = n" by (rule queue_named [OF broker_okD(1) [OF ok] n q])
    ultimately have "durable w q"
      using k(2) q g ids reliable_clean by (auto simp: durable_def idle_def qr_messages_def)
    with k(1) g(1) show ?thesis by (simp add: log_keeps_def NewInMemoryBroker_def)
  qed
  with ok show ?thesis by (simp add: broker_durable_def booted_def)
qed


text \<open>What a broker with a durable log leaves to the next one.\<close>

lemma durable_restart:
  assumes "broker_durable b" and "reliable (w_wal w')" and "wal_Load (w_wal w') = wal_Load (w_wal (b_world b))"
    and "inj (w_uuids w')" and "w_tokenOwners w' = []" and "\<And>st. mset (order' st) = mset (PendingExchanges st)"
  shows "\<exists>b'. NewBroker cfg' order' w' = Some (Some b', None) \<and>
    (\<forall>n a q. map_of (b_queues b) n = Some a \<longrightarrow> b_runtimes b a = Some q \<longrightarrow>
       (\<exists>ms. contents b' n = Some ms \<and> mset ms = mset (rb_list (q_queue q)) + mgr_messages (q_inFlight q)))"
proof -
  note ok = broker_durableD(1) [OF assms(1)]
  obtain st' where st': "wal_Load (w_wal (b_world b)) = Inr st'"
    using broker_okD(4) [OF ok] by (auto simp: log_ok_def)
  have "wal_Load (w_wal w') = Inr st'" using assms(3) st' by simp
  from recovered [where order = order' and cfg = cfg', OF assms(2) this broker_ok_recoverable [OF ok st'] assms(4,5)]
    assms(6) obtain b' where b': "NewBroker cfg' order' w' = Some (Some b', None)"
    "contents b' = [DefaultQueueName \<mapsto> []] ++ map_of (PendingMessages st')" by auto
  have "\<exists>ms. contents b' n = Some ms \<and> mset ms = mset (rb_list (q_queue q)) + mgr_messages (q_inFlight q)"
    if n: "map_of (b_queues b) n = Some a" "b_runtimes b a = Some q" for n a q
  proof -
    have "q_name q = n" by (rule queue_named [OF broker_okD(1) [OF ok] n])
    with broker_durableD(2) [OF assms(1) n] st' have "mset (pending n st') = qr_messages q" by (simp add: durable_def)
    moreover have "n \<noteq> DefaultQueueName \<Longrightarrow> map_of (PendingMessages st') n \<noteq> None"
      using broker_okD(4) [OF ok] st' n(1) by (auto simp: log_ok_def topology_def)
    then have "contents b' n = Some (pending n st')"
      by (cases "map_of (PendingMessages st') n") (auto simp: b'(2) map_add_def pending_def)
    ultimately show ?thesis by (simp add: qr_messages_def)
  qed
  with b'(1) show ?thesis by blast
qed




end
