(* ===== verification/Broker_Functional.thy ===== *)
theory Broker_Functional
  imports Broker_Durability
begin

text \<open>
  What single calls of the broker do: where a published message goes, what deleting a queue
  removes, what the metrics add up to, that a rejected call changes nothing, and runs that show
  where the code falls short of what it means to do.
\<close>

subsection \<open>Publishing\<close>

definition accepting :: "broker \<Rightarrow> string \<Rightarrow> bool" where
  "accepting b n \<longleftrightarrow> n \<noteq> '''' \<and> (case map_of (b_queues b) n of
     None \<Rightarrow> False
   | Some a \<Rightarrow> (case b_runtimes b a of
       None \<Rightarrow> False
     | Some q \<Rightarrow> \<not> q_closed q \<and> rb_Size (q_queue q) \<noteq> rb_Capacity (q_queue q)))"

definition stamped :: "message \<Rightarrow> int \<Rightarrow> message \<Rightarrow> bool" where
  "stamped m ttl m' \<longleftrightarrow> Payload m' = Payload m \<and> Retry m' = Retry m \<and> (ID m \<noteq> '''' \<longrightarrow> ID m' = ID m)
     \<and> ExpiryAt m' = (if ttl > 0 then Some (Timestamp m' + ttl) else ExpiryAt m)"

lemma contents_set:
  assumes "queues_ok b" and "map_of (b_queues b) n = Some a" and "b_runtimes b a = Some q" and "q_name q' = q_name q"
  shows "contents (set_runtime a w q' b) = (contents b)(n \<mapsto> rb_list (q_queue q'))"
proof
  fix k
  show "contents (set_runtime a w q' b) k = ((contents b)(n \<mapsto> rb_list (q_queue q'))) k"
  proof (cases "k = n")
    case False
    then have "map_of (b_queues b) k \<noteq> Some a" using address_named [OF assms(1,2)] by blast
    with False show ?thesis by (auto simp: contents_def split: option.splits)
  qed (use assms(2) in \<open>simp add: contents_def\<close>)
qed

lemma publish_accepted:
  assumes ok: "broker_ok b" and ac: "accepting b n" and cl: "\<not> b_closed b"
  obtains a q w' q' m' where "find_queue n b = Inr a" and "b_runtimes b a = Some q"
    and "qr_Publish m ttl (b_world b) q = Some (Accepted, w', q')" and "broker_ok (set_runtime a w' q' b)"
    and "contents (set_runtime a w' q' b) = (contents b)(n \<mapsto> the (contents b n) @ [m'])"
    and "\<And>k. k \<noteq> n \<Longrightarrow> accepting b k \<Longrightarrow> accepting (set_runtime a w' q' b) k" and "stamped m ttl m'"
proof -
  from ac obtain a q where a: "map_of (b_queues b) n = Some a" and q: "b_runtimes b a = Some q"
    and room: "\<not> q_closed q" "rb_Size (q_queue q) \<noteq> rb_Capacity (q_queue q)"
    by (auto simp: accepting_def split: option.splits)
  have f: "find_queue n b = Inr a" using ac a cl by (simp add: find_queue_def accepting_def)
  note d = broker_okD [OF ok]
  have base: "base (b_world b) q" by (rule runtimes_okD(2) [OF d(5) q])
  obtain out w' q' where p: "qr_Publish m ttl (b_world b) q = Some (out, w', q')"
    and ok': "broker_ok (set_runtime a w' q' b)" using runtime_Publish_ok [OF ok q] by blast
  from base_parts(1) [OF base] p obtain m' where out: "out = Accepted" and m': "stamped m ttl m'"
    and q': "rb_list (q_queue q') = rb_list (q_queue q) @ [m']" "q_name q' = q_name q"
  proof (cases rule: qr_Publish_cases)
    case (log_failed e m' w1)
    have "w_wal w1 = w_wal (b_world b)" using stamp_world [OF log_failed(4)] by simp
    with log_failed(5) append_reliable_wal [OF log_ok_reliable [OF d(4)], of "publish_record q m'"]
    have False by (auto simp: w_Append_result message_records)
    then show thesis ..
  next
    case (accepted m' w1 r)
    have "stamped m ttl m'" using stamp_message [OF accepted(3)] by (simp add: stamped_def)
    with that accepted show thesis by simp
  qed (use room in simp_all)
  have "contents b n = Some (rb_list (q_queue q))" using a q by (simp add: contents_def)
  with contents_set [OF d(1) a q q'(2)] q'(1)
  have c: "contents (set_runtime a w' q' b) = (contents b)(n \<mapsto> the (contents b n) @ [m'])" by simp
  have other: "accepting (set_runtime a w' q' b) k" if "k \<noteq> n" "accepting b k" for k
  proof -
    have "map_of (b_queues b) k \<noteq> Some a" using address_named [OF d(1) a] that(1) by blast
    with that(2) show ?thesis by (auto simp: accepting_def split: option.splits)
  qed
  from that [OF f q _ ok' c other m'] p out show thesis by simp
qed

lemma publish_loop_reaches:
  assumes "broker_ok b" and "\<not> b_closed b" and "distinct ns" and "\<forall>n \<in> set ns. accepting b n"
  shows "\<exists>b'. publish_loop m ttl ns b = Some (PubDone None, b')
    \<and> (\<forall>n. n \<notin> set ns \<longrightarrow> contents b' n = contents b n)
    \<and> (\<forall>n \<in> set ns. \<exists>m'. contents b' n = Some (the (contents b n) @ [m']) \<and> stamped m ttl m')"
  using assms
proof (induction ns arbitrary: b)
  case (Cons n ns)
  obtain a q w' q' m' where s: "find_queue n b = Inr a" "b_runtimes b a = Some q"
    "qr_Publish m ttl (b_world b) q = Some (Accepted, w', q')" "broker_ok (set_runtime a w' q' b)"
    "contents (set_runtime a w' q' b) = (contents b)(n \<mapsto> the (contents b n) @ [m'])"
    "\<And>k. k \<noteq> n \<Longrightarrow> accepting b k \<Longrightarrow> accepting (set_runtime a w' q' b) k" "stamped m ttl m'"
    by (rule publish_accepted [OF Cons.prems(1) _ Cons.prems(2), of n m ttl]) (use Cons.prems(4) in auto)
  let ?b = "set_runtime a w' q' b"
  have other: "\<forall>k \<in> set ns. accepting ?b k"
  proof
    fix k
    assume "k \<in> set ns"
    with Cons.prems(3,4) have "k \<noteq> n" "accepting b k" by auto
    then show "accepting ?b k" by (rule s(6))
  qed
  have "\<exists>b'. publish_loop m ttl ns ?b = Some (PubDone None, b')
    \<and> (\<forall>n. n \<notin> set ns \<longrightarrow> contents b' n = contents ?b n)
    \<and> (\<forall>n \<in> set ns. \<exists>m'. contents b' n = Some (the (contents ?b n) @ [m']) \<and> stamped m ttl m')"
    by (rule Cons.IH [OF s(4)]) (use Cons.prems(2-4) other in simp_all)
  then obtain b' where b': "publish_loop m ttl ns ?b = Some (PubDone None, b')"
    "\<forall>n. n \<notin> set ns \<longrightarrow> contents b' n = contents ?b n"
    "\<forall>n \<in> set ns. \<exists>m'. contents b' n = Some (the (contents ?b n) @ [m']) \<and> stamped m ttl m'" by blast
  have n: "n \<notin> set ns" using Cons.prems(3) by simp
  have "\<exists>m'. contents b' k = Some (the (contents b k) @ [m']) \<and> stamped m ttl m'" if "k \<in> set (n # ns)" for k
    using that b'(2,3) n s(5,7) by (cases "k = n") auto
  moreover have "contents b' k = contents b k" if "k \<notin> set (n # ns)" for k using that b'(2) s(5) by simp
  moreover have "publish_loop m ttl (n # ns) b = Some (PubDone None, b')" using s(1-3) b'(1) by simp
  ultimately show ?case by blast
qed simp




subsection \<open>Deleting a queue\<close>

definition without_queue :: "string \<Rightarrow> exchange_state \<Rightarrow> exchange_state" where
  "without_queue n es = es\<lparr>es_Bindings := filter (\<lambda>x. QueueName x \<noteq> n) (es_Bindings es)\<rparr>"

lemma unbind_state:
  assumes "ex_Unbind '''' n e = (r, e')"
  shows "r = None \<Longrightarrow> ex_state e' = without_queue n (ex_state e)"
    and "r \<noteq> None \<Longrightarrow> r = Some ErrBindingNotExist \<and> without_queue n (ex_state e) = ex_state e"
proof -
  have u: "unbinds '''' n x \<longleftrightarrow> QueueName x = n" for x by (simp add: unbinds_def)
  note l = exc.unbind_law [OF assms, unfolded u]
  show "ex_state e' = without_queue n (ex_state e)" if "r = None"
    using l that assms by (auto simp: ex_state_def without_queue_def DeleteFunc_def split: if_splits)
  show "r = Some ErrBindingNotExist \<and> without_queue n (ex_state e) = ex_state e" if "r \<noteq> None"
    using l that by (auto simp: ex_state_def without_queue_def intro!: filter_True split: if_splits)
qed

lemma unbind_everywhere_states:
  assumes "unbind_everywhere order n b = (None, b')" and "distinct order"
  shows "states b' x = (if x \<in> set order then map_option (without_queue n) (states b x) else states b x)"
  using assms
proof (induction order arbitrary: b)
  case (Cons y order)
  show ?case
  proof (cases "map_of (b_exchanges b) y")
    case (Some e)
    obtain r e' where u: "ex_Unbind '''' n e = (r, e')" by fastforce
    note us = unbind_state [OF u]
    show ?thesis
    proof (cases r)
      case None
      let ?b = "b\<lparr>b_exchanges := gm_put y e' (b_exchanges b)\<rparr>"
      from Some u None Cons.prems(1) obtain b1 where
        ap: "b_Append (zero_record\<lparr>r_Type := QueueUnbinded, r_Exchange := y, r_Queue := n\<rparr>) ?b = (None, b1)"
        and rest: "unbind_everywhere order n b1 = (None, b')" by (auto split: prod.splits option.splits)
      have "states b1 = (states b)(y \<mapsto> without_queue n (ex_state e))"
        using b_Append_frame(3) [OF ap] us(1) [OF None] by (simp add: states_def fun_eq_iff)
      with Cons.IH [OF rest] Cons.prems(2) Some show ?thesis by (auto simp: states_def)
    next
      case (Some e2)
      with us(2) \<open>map_of (b_exchanges b) y = Some e\<close> u Cons.prems(1)
      have rest: "unbind_everywhere order n b = (None, b')" by auto
      from Cons.IH [OF rest] Cons.prems(2) us(2) Some \<open>map_of (b_exchanges b) y = Some e\<close> show ?thesis
        by (auto simp: states_def)
    qed
  qed (use Cons in \<open>auto simp: states_def\<close>)
qed simp




subsection \<open>Metrics\<close>

definition total_of :: "metric list \<Rightarrow> metric" where
  "total_of ms = \<lparr>ProducedCount = sum_list (map ProducedCount ms), AckedCount = sum_list (map AckedCount ms),
     DlqCount = sum_list (map DlqCount ms), InflightCount = sum_list (map InflightCount ms),
     RedeliveredCount = sum_list (map RedeliveredCount ms),
     ConsumerSessionCount = sum_list (map ConsumerSessionCount ms), QueueDepth = sum_list (map QueueDepth ms)\<rparr>"

definition metric_of :: "broker \<Rightarrow> nat \<Rightarrow> metric" where
  "metric_of b a = (case b_runtimes b a of None \<Rightarrow> zero_metric | Some q \<Rightarrow> qr_Metrics q)"

lemma metrics_loop_sums:
  assumes "\<forall>(n, a) \<in> set m. b_runtimes b a \<noteq> None" and "t = total_of ms"
  shows "metrics_loop m b qs t =
    Some (qs @ map (\<lambda>(n, a). \<lparr>qm_Name = n, qm_Metric = metric_of b a\<rparr>) m, total_of (ms @ map (metric_of b \<circ> snd) m))"
  using assms
proof (induction m arbitrary: qs t ms)
  case (Cons p m)
  obtain n a where p: "p = (n, a)" by (cases p)
  with Cons.prems(1) obtain q where q: "b_runtimes b a = Some q" by auto
  have "add_metric (qr_Metrics q) t = total_of (ms @ [metric_of b a])"
    using Cons.prems(2) q by (simp add: add_metric_def total_of_def metric_of_def)
  from Cons.IH [OF _ this] Cons.prems(1) p q show ?case by (simp add: Let_def metric_of_def)
qed simp

text \<open>
  C26. Metrics: the report lists every queue once with its own counters, sorted by name, and the
  totals are the sums of the columns, in whatever order the map of queues is visited.
\<close>

theorem Metrics_are_sums:
  assumes "broker_ok b"
  shows "\<exists>bm. Metrics b = Some bm \<and> sorted (map qm_Name (bm_Queues bm))
    \<and> mset (bm_Queues bm) = mset (map (\<lambda>(n, a). \<lparr>qm_Name = n, qm_Metric = metric_of b a\<rparr>) (b_queues b))
    \<and> bm_Total bm = total_of (map qm_Metric (bm_Queues bm))"
proof -
  let ?qs = "map (\<lambda>(n, a). \<lparr>qm_Name = n, qm_Metric = metric_of b a\<rparr>) (b_queues b)"
  have "\<forall>(n, a) \<in> set (b_queues b). b_runtimes b a \<noteq> None"
    using broker_okD(1) [OF assms] by (force simp: queues_ok_def gm_wf_map_of)
  moreover have "zero_metric = total_of []" by (simp add: total_of_def zero_metric_def)
  ultimately have m: "Metrics b = Some \<lparr>bm_Queues = sort_key qm_Name ?qs, bm_Total = total_of (map (metric_of b \<circ> snd) (b_queues b))\<rparr>"
    using metrics_loop_sums [of "b_queues b" b zero_metric "[]" "[]"] by (simp add: Metrics_def)
  have "total_of xs = total_of ys" if "mset xs = mset ys" for xs ys
    using that by (simp add: total_of_def) (metis mset_map sum_mset_sum_list)
  moreover have "mset (map qm_Metric (sort_key qm_Name ?qs)) = mset (map (metric_of b \<circ> snd) (b_queues b))"
    by (simp add: mset_map multiset.map_comp comp_def case_prod_beta)
  ultimately show ?thesis using m by simp
qed


theorem Metrics_are_sums_witness:
  "\<exists>s bm. b_trace b_safe sample_calls (booted sample_broker) = Some s \<and> Metrics (bs_broker s) = Some bm
     \<and> map qm_Name (bm_Queues bm) = [''default'', ''jobs''] \<and> sorted (map qm_Name (bm_Queues bm))
     \<and> bm_Total bm = total_of (map qm_Metric (bm_Queues bm))"
proof -
  let ?t = "b_trace b_safe sample_calls (booted sample_broker)"
  have "case ?t of None \<Rightarrow> False | Some s \<Rightarrow> (case Metrics (bs_broker s) of None \<Rightarrow> False
      | Some bm \<Rightarrow> map qm_Name (bm_Queues bm) = [''default'', ''jobs''])" by code_simp
  then obtain s bm where s: "?t = Some s" "Metrics (bs_broker s) = Some bm" "map qm_Name (bm_Queues bm) = [''default'', ''jobs'']"
    by (auto split: option.splits)
  from Metrics_are_sums [OF reached_ok [OF sample_good sample_boot b_trace_reaches [OF s(1)]]] s show ?thesis by auto
qed

subsection \<open>Rejected calls\<close>

lemma append_errors: "reliable (w_wal (b_world b)) \<Longrightarrow> loggable r \<Longrightarrow> b_Append r b \<noteq> (Some e, b')"
  using append_reliable [of b r] by auto

lemma topology_calls_rejected:
  assumes "reliable (w_wal (b_world b))"
  shows "CreateQueue n b = Some (Some e, b') \<Longrightarrow> b' = b"
    and "BindQueue x n k b = (Some e, b') \<Longrightarrow> b' = b" and "UnbindQueue x n k b = (Some e, b') \<Longrightarrow> b' = b"
    and "CreateExchange x t b = (Some e, b') \<Longrightarrow> b' = b" and "DeleteExchange x b = (Some e, b') \<Longrightarrow> b' = b"
  using assms
  by (auto simp: CreateQueue_def BindQueue_def UnbindQueue_def CreateExchange_def DeleteExchange_def append_errors
      split: option.splits if_splits prod.splits sum.splits)

lemma set_runtime_same: "b_runtimes b a = Some q \<Longrightarrow> set_runtime a (b_world b) q b = b"
  by (simp add: set_runtime_def fun_upd_idem)

lemma consumer_calls_rejected:
  assumes rel: "reliable (w_wal (b_world b))"
  shows "Subscribe n c b = Some (Some e, b') \<Longrightarrow> b' = b" and "Ack t b = Some (Some e, b') \<Longrightarrow> b' = b"
proof -
  show "b' = b" if "Subscribe n c b = Some (Some e, b')"
    using that set_runtime_same by (auto simp: Subscribe_def qr_Subscribe_def split: option.splits sum.splits if_splits)
  show "b' = b" if r: "Ack t b = Some (Some e, b')"
  proof (cases "map_of (w_tokenOwners (b_world b)) t")
    case (Some a)
    with r obtain q w' q' where q: "b_runtimes b a = Some q" and u: "qr_Ack t (b_world b) q = (Some e, w', q')"
      and b': "b' = set_runtime a w' q' b" by (auto simp: Ack_def split: option.splits prod.splits)
    from u have "w' = b_world b \<and> q' = q"
    proof (cases rule: qr_Ack_cases)
      case (log_failed e i)
      with append_reliable_wal [OF rel, of "ack_record q (if_Message i)"] show ?thesis
        by (auto simp: w_Append_result message_records)
    qed simp_all
    with set_runtime_same [OF q] b' show ?thesis by simp
  qed (use r in \<open>simp add: Ack_def\<close>)
qed

lemma runtime_Publish_errors:
  assumes "broker_ok b" and "b_runtimes b a = Some q" and "qr_Publish m ttl (b_world b) q = Some (Refused e, w', q')"
  shows "e = ErrBrokerClosed"
proof -
  note ok = broker_okD [OF assms(1)]
  from base_parts(1) [OF runtimes_okD(2) [OF ok(5) assms(2)]] assms(3) show ?thesis
  proof (cases rule: qr_Publish_cases)
    case (log_failed e' m' w1)
    have "w_wal w1 = w_wal (b_world b)" using stamp_world [OF log_failed(4)] by simp
    with log_failed(5) append_reliable_wal [OF log_ok_reliable [OF ok(4)], of "publish_record q m'"]
    show ?thesis by (auto simp: w_Append_result message_records)
  qed simp_all
qed

lemma publish_loop_errors:
  "broker_ok b \<Longrightarrow> publish_loop m ttl ns b = Some (PubDone (Some e), b') \<Longrightarrow> e \<in> {ErrBrokerClosed, ErrQueueNotFound}"
proof (induction ns arbitrary: b)
  case (Cons n ns)
  show ?case
  proof (cases "find_queue n b")
    case (Inr a)
    obtain q where q: "b_runtimes b a = Some q" using find_queue_runtime [OF broker_okD(1) [OF Cons.prems(1)] Inr] .
    obtain out w' q' where p: "qr_Publish m ttl (b_world b) q = Some (out, w', q')"
      and ok: "broker_ok (set_runtime a w' q' b)" using runtime_Publish_ok [OF Cons.prems(1) q] by blast
    from Cons.IH [OF ok] Cons.prems Inr q p runtime_Publish_errors [OF Cons.prems(1) q] show ?thesis
      by (cases out) auto
  qed (use Cons.prems in \<open>auto simp: find_queue_def Let_def split: if_splits option.splits\<close>)
qed simp




subsection \<open>Runs that go wrong\<close>

text \<open>A disk on which the write with number \<open>k\<close> fails without leaving a trace.\<close>

definition failing_world :: "nat \<Rightarrow> world" where
  "failing_world k = sample_world\<lparr>w_wal := empty_wal\<lparr>wf_io := (\<lambda>n. if n = k then IoWriteErr False else IoOk)\<rparr>\<rparr>"

definition boot_and_run :: "world \<Rightarrow> broker_event list \<Rightarrow> broker_system option" where
  "boot_and_run w evs =
     (case NewBroker DefaultConfig PendingExchanges w of
        Some (Some b, None) \<Rightarrow> b_trace b_safe evs (booted b)
      | _ \<Rightarrow> None)"

abbreviation bound_jobs :: "broker_event list" where
  "bound_jobs \<equiv> [CallCreateExchange ''logs'' ''topic'', CallCreateQueue ''jobs'', CallBindQueue ''logs'' ''jobs'' ''app.#'']"

text \<open>
  An interrupted deletion stops the broker for good: DeleteQueue logs the deletion before the
  unbindings; when it gets no further (here because the next write fails; a crash between the two
  records leaves the same log), the binding in the log names a queue that is gone, and the next
  NewBroker fails with queue not found.
\<close>

theorem interrupted_delete_blocks_recovery:
  "case boot_and_run (failing_world 5) bound_jobs of
     None \<Rightarrow> False
   | Some s \<Rightarrow>
       (case DeleteQueue [DefaultExchangeName, ''logs''] ''jobs'' (bs_broker s) of
          Some (Some e, b') \<Rightarrow> e = ErrWALWrite \<and>
            (case NewBroker DefaultConfig PendingExchanges (b_world b') of
               Some (_, Some e') \<Rightarrow> e' = ErrQueueNotFound | _ \<Rightarrow> False)
        | _ \<Rightarrow> False)"
  by code_simp

text \<open>
  A failed deletion leaves a dead queue: DeleteQueue closes the runtime before it appends the
  record; when the append fails, the call reports the error and the queue is still listed and
  bound, but every publish to it fails with broker closed.
\<close>

theorem failed_delete_closes_queue:
  "case boot_and_run (failing_world 4) bound_jobs of
     None \<Rightarrow> False
   | Some s \<Rightarrow>
       (case DeleteQueue [DefaultExchangeName, ''logs''] ''jobs'' (bs_broker s) of
          Some (Some e, b') \<Rightarrow> e = ErrWALWrite \<and> ListQueues b' = [''default'', ''jobs'']
            \<and> map_option fst (Publish ''logs'' ''app.x'' (msg ''a'') 0 b') = Some (PubDone (Some ErrBrokerClosed))
        | _ \<Rightarrow> False)"
  by code_simp

text \<open>
  Two bindings of one queue lose a message: a queue bound twice gets the message twice under
  one identifier; acknowledging one copy logs that identifier, and Load removes both copies, so the
  unacknowledged one is gone after a restart.
\<close>

theorem double_binding_loses_message:
  "case boot_and_run sample_world [CallStart, CallCreateExchange ''all'' ''fanout'', CallCreateQueue ''jobs'',
      CallBindQueue ''all'' ''jobs'' ''a'', CallBindQueue ''all'' ''jobs'' ''b'', CallSubscribe ''jobs'' 0 ''c1'',
      CallPublish ''all'' ''x'' (msg ''m'') 0, Turn 1 EvTop, Turn 1 EvNotified, Turn 1 EvReserve, Turn 1 EvSend,
      CallAck ''u''] of
     None \<Rightarrow> False
   | Some s \<Rightarrow> map_option (map ID) (contents (bs_broker s) ''jobs'') = Some [''m'']
       \<and> (case NewBroker DefaultConfig PendingExchanges (b_world (bs_broker s)) of
            Some (Some b', None) \<Rightarrow> contents b' ''jobs'' = Some [] | _ \<Rightarrow> False)"
  by code_simp

end
