(* ===== verification/Tcp_Server.thy ===== *)
theory Tcp_Server
  imports Connection_Handler Broker_Functional
begin

text \<open>
  The server of \<open>internal/server/tcp.go\<close> with the start and stop sequence of
  \<open>cmd/dsend/server.go\<close>: the accept loop, the goroutine that waits for the end of the context, the
  goroutines of the connections, and below them the broker and its goroutines, in any interleaving.

  A connection is named by a number. \<open>sv_conns\<close> holds the connections that were accepted,
  \<open>sv_tracked\<close> is the map \<open>conns\<close>, \<open>sv_live\<close> lists the handlers that \<open>wg\<close> counts. \<open>sv_accept\<close> and
  \<open>sv_watch\<close> are the program counters of \<open>Start\<close> and of the goroutine it launches. \<open>sv_done\<close> says
  that the context has ended, which ends the context of the broker's goroutines as well.
\<close>

datatype accept = Accepting | Checking nat | WaitingAll | Returned | Stopped

datatype watch = AwaitDone | CloseConns | WatchDone

record server =
  sv_sys :: broker_system
  sv_os :: "err \<Rightarrow> string"
  sv_conns :: "nat \<Rightarrow> connection option"
  sv_tracked :: "nat list"
  sv_live :: "nat list"
  sv_listening :: bool
  sv_done :: bool
  sv_accept :: accept
  sv_watch :: watch

datatype server_event =
    Signal | CloseListener | CloseConnections
  | Accept nat "nat \<Rightarrow> write_outcome" | AcceptFails | CheckAccepted | AcceptClosed
  | WaitAll | ShutdownBroker
  | Conn nat conn_event | Goroutine nat event

datatype server_outcome = SDisabled | SPanicked | SNext server

definition New :: "(err \<Rightarrow> string) \<Rightarrow> broker_system \<Rightarrow> server" where
  "New os bs = \<lparr>sv_sys = bs, sv_os = os, sv_conns = (\<lambda>_. None), sv_tracked = [], sv_live = [],
     sv_listening = True, sv_done = False, sv_accept = Accepting, sv_watch = AwaitDone\<rparr>"

definition trackConn :: "nat \<Rightarrow> server \<Rightarrow> server" where
  "trackConn n s = s\<lparr>sv_tracked := (if n \<in> set (sv_tracked s) then sv_tracked s else sv_tracked s @ [n])\<rparr>"

definition untrackConn :: "nat \<Rightarrow> server \<Rightarrow> server" where
  "untrackConn n s = s\<lparr>sv_tracked := filter (\<lambda>m. m \<noteq> n) (sv_tracked s)\<rparr>"

definition set_conn :: "nat \<Rightarrow> connection \<Rightarrow> server \<Rightarrow> server" where
  "set_conn n c s = s\<lparr>sv_conns := (sv_conns s)(n \<mapsto> c)\<rparr>"

definition closeConn :: "nat \<Rightarrow> server \<Rightarrow> server" where
  "closeConn n s = (case sv_conns s n of None \<Rightarrow> s | Some c \<Rightarrow> set_conn n (c\<lparr>cn_closed := True\<rparr>) s)"

definition closeConns :: "server \<Rightarrow> server" where
  "closeConns s = fold closeConn (sv_tracked s) s"

definition set_broker :: "broker \<Rightarrow> server \<Rightarrow> server" where
  "set_broker b s = s\<lparr>sv_sys := (sv_sys s)\<lparr>bs_broker := b\<rparr>\<rparr>"

text \<open>
  \<open>conn_turn\<close>: an event of a live connection. When its handler returns, the deferred calls
  \<open>untrackConn\<close> and \<open>wg.Done\<close> follow.
\<close>

definition conn_turn :: "nat \<Rightarrow> conn_event \<Rightarrow> server \<Rightarrow> server_outcome" where
  "conn_turn n ev s =
     (if n \<notin> set (sv_live s) then SDisabled
      else case sv_conns s n of
        None \<Rightarrow> SDisabled
      | Some c \<Rightarrow>
          (case conn_exec (sv_os s) (sv_done s) ev (bs_broker (sv_sys s)) c of
             CDisabled \<Rightarrow> SDisabled
           | CPanicked \<Rightarrow> SPanicked
           | CNext b c1 \<Rightarrow>
               let s1 = set_conn n c1 (set_broker b s)
               in SNext (if cn_phase c1 = Gone
                         then (untrackConn n s1)\<lparr>sv_live := filter (\<lambda>m. m \<noteq> n) (sv_live s)\<rparr> else s1)))"

fun sv_exec :: "server_event \<Rightarrow> server \<Rightarrow> server_outcome" where
  "sv_exec Signal s =
     (case b_exec CancelContext (sv_sys s) of
        BNext bs \<Rightarrow> SNext (s\<lparr>sv_done := True, sv_sys := bs\<rparr>) | _ \<Rightarrow> SDisabled)"
| "sv_exec CloseListener s =
     (if sv_watch s = AwaitDone \<and> sv_done s then SNext (s\<lparr>sv_listening := False, sv_watch := CloseConns\<rparr>)
      else SDisabled)"
| "sv_exec CloseConnections s =
     (if sv_watch s = CloseConns then SNext ((closeConns s)\<lparr>sv_watch := WatchDone\<rparr>) else SDisabled)"
| "sv_exec (Accept n writes) s =
     (if sv_accept s = Accepting \<and> sv_listening s \<and> sv_conns s n = None
      then SNext ((trackConn n (set_conn n (new_connection writes) s))\<lparr>sv_accept := Checking n\<rparr>)
      else SDisabled)"
| "sv_exec AcceptFails s = (if sv_accept s = Accepting \<and> sv_listening s then SNext s else SDisabled)"
| "sv_exec CheckAccepted s =
     (case sv_accept s of
        Checking n \<Rightarrow>
          if sv_done s then SNext ((closeConn n (untrackConn n s))\<lparr>sv_accept := Accepting\<rparr>)
          else SNext (s\<lparr>sv_live := sv_live s @ [n], sv_accept := Accepting\<rparr>)
      | _ \<Rightarrow> SDisabled)"
| "sv_exec AcceptClosed s =
     (if sv_accept s = Accepting \<and> \<not> sv_listening s then SNext (s\<lparr>sv_accept := WaitingAll\<rparr>) else SDisabled)"
| "sv_exec WaitAll s =
     (if sv_accept s = WaitingAll \<and> sv_live s = [] then SNext (s\<lparr>sv_accept := Returned\<rparr>) else SDisabled)"
| "sv_exec ShutdownBroker s =
     (if sv_accept s = Returned then
        (case b_exec CallShutdown (sv_sys s) of
           BNext bs \<Rightarrow> SNext (s\<lparr>sv_sys := bs, sv_accept := Stopped\<rparr>) | _ \<Rightarrow> SDisabled)
      else SDisabled)"
| "sv_exec (Conn n ev) s = conn_turn n ev s"
| "sv_exec (Goroutine a ev) s =
     (case b_exec (Turn a ev) (sv_sys s) of
        BDisabled \<Rightarrow> SDisabled | BPanicked \<Rightarrow> SPanicked | BNext bs \<Rightarrow> SNext (s\<lparr>sv_sys := bs\<rparr>))"

text \<open>\<open>runServer\<close>: the broker is recovered from the log and started, then the server.\<close>

definition runServer :: "(err \<Rightarrow> string) \<Rightarrow> config \<Rightarrow> (recovered_state \<Rightarrow> (string \<times> exchange_state) list) \<Rightarrow>
    world \<Rightarrow> (err + server) option" where
  "runServer os cfg order w =
     (case NewBroker cfg order w of
        None \<Rightarrow> None
      | Some (_, Some e) \<Rightarrow> Some (Inl e)
      | Some (None, None) \<Rightarrow> None
      | Some (Some b, None) \<Rightarrow> Some (Inr (New os (booted (Start b)))))"

subsection \<open>The server drives the broker through its interface\<close>

fun sv_call :: "server_event \<Rightarrow> server \<Rightarrow> broker_event option" where
  "sv_call Signal s = Some CancelContext"
| "sv_call ShutdownBroker s = Some CallShutdown"
| "sv_call (Conn n ev) s = (case sv_conns s n of None \<Rightarrow> None | Some c \<Rightarrow> conn_call ev c)"
| "sv_call (Goroutine a ev) s = Some (Turn a ev)"
| "sv_call _ s = None"

definition sv_allowed :: "(broker_event \<Rightarrow> broker_system \<Rightarrow> bool) \<Rightarrow> server_event \<Rightarrow> server \<Rightarrow> bool" where
  "sv_allowed allowed ev s = (case sv_call ev s of None \<Rightarrow> True | Some be \<Rightarrow> allowed be (sv_sys s))"

inductive sv_reaches :: "(broker_event \<Rightarrow> broker_system \<Rightarrow> bool) \<Rightarrow> server \<Rightarrow> server \<Rightarrow> bool"
  for allowed s0 where
  start: "sv_reaches allowed s0 s0"
| step: "sv_reaches allowed s0 s \<Longrightarrow> sv_allowed allowed ev s \<Longrightarrow> sv_exec ev s = SNext t \<Longrightarrow>
    sv_reaches allowed s0 t"

definition conns_wf :: "server \<Rightarrow> bool" where
  "conns_wf s \<longleftrightarrow> (\<forall>n c. sv_conns s n = Some c \<longrightarrow> conn_wf c)"

lemma server_frames [simp]:
  "sv_sys (untrackConn n s) = sv_sys s" "sv_sys (trackConn n s) = sv_sys s" "sv_sys (set_conn n c s) = sv_sys s"
  "sv_sys (closeConn n s) = sv_sys s" "sv_sys (set_broker b s) = (sv_sys s)\<lparr>bs_broker := b\<rparr>"
  "sv_conns (untrackConn n s) = sv_conns s" "sv_conns (trackConn n s) = sv_conns s"
  "sv_conns (set_conn n c s) = (sv_conns s)(n \<mapsto> c)" "sv_conns (set_broker b s) = sv_conns s"
  "sv_live (untrackConn n s) = sv_live s" "sv_live (trackConn n s) = sv_live s"
  "sv_live (set_conn n c s) = sv_live s" "sv_live (closeConn n s) = sv_live s" "sv_live (set_broker b s) = sv_live s"
  "sv_tracked (set_conn n c s) = sv_tracked s" "sv_tracked (closeConn n s) = sv_tracked s"
  "sv_tracked (set_broker b s) = sv_tracked s"
  "sv_accept (untrackConn n s) = sv_accept s" "sv_accept (trackConn n s) = sv_accept s"
  "sv_accept (set_conn n c s) = sv_accept s" "sv_accept (closeConn n s) = sv_accept s"
  "sv_accept (set_broker b s) = sv_accept s" "sv_done (closeConn n s) = sv_done s"
  "sv_listening (closeConn n s) = sv_listening s"
  by (simp_all add: untrackConn_def trackConn_def set_conn_def closeConn_def set_broker_def split: option.splits)

lemma fold_closeConn [simp]:
  "sv_sys (fold closeConn ns s) = sv_sys s" "sv_live (fold closeConn ns s) = sv_live s"
  "sv_tracked (fold closeConn ns s) = sv_tracked s" "sv_accept (fold closeConn ns s) = sv_accept s"
  "sv_done (fold closeConn ns s) = sv_done s" "sv_listening (fold closeConn ns s) = sv_listening s"
  by (induction ns arbitrary: s) simp_all

lemma closeConn_conns:
  "sv_conns (closeConn n s) m =
     map_option (\<lambda>c. if m = n then c\<lparr>cn_closed := True\<rparr> else c) (sv_conns s m)"
  by (cases "sv_conns s m") (auto simp: closeConn_def split: option.splits)

lemma fold_closeConn_conns:
  "sv_conns (fold closeConn ns s) m =
     map_option (\<lambda>c. if m \<in> set ns then c\<lparr>cn_closed := True\<rparr> else c) (sv_conns s m)"
proof (induction ns arbitrary: s)
  case (Cons n ns)
  then show ?case by (cases "sv_conns s m") (simp_all add: closeConn_conns)
qed (simp add: option.map_ident)

lemma close_wf: "conn_wf c \<Longrightarrow> conn_wf (c\<lparr>cn_closed := True\<rparr>)"
  by (simp add: conn_wf_def)

lemma conn_turn_cases:
  assumes "conn_turn n ev s = SNext t"
  obtains c b c1 where "n \<in> set (sv_live s)" and "sv_conns s n = Some c"
    and "conn_exec (sv_os s) (sv_done s) ev (bs_broker (sv_sys s)) c = CNext b c1"
    and "sv_sys t = (sv_sys s)\<lparr>bs_broker := b\<rparr>" and "sv_conns t = (sv_conns s)(n \<mapsto> c1)"
    and "sv_accept t = sv_accept s" and "sv_watch t = sv_watch s" and "sv_done t = sv_done s"
    and "sv_listening t = sv_listening s"
    and "sv_live t = (if cn_phase c1 = Gone then filter (\<lambda>m. m \<noteq> n) (sv_live s) else sv_live s)"
    and "sv_tracked t = (if cn_phase c1 = Gone then filter (\<lambda>m. m \<noteq> n) (sv_tracked s) else sv_tracked s)"
  using assms
  by (cases "n \<in> set (sv_live s)"; cases "sv_conns s n")
    (auto simp: conn_turn_def Let_def untrackConn_def set_conn_def set_broker_def split: conn_outcome.splits if_splits)

lemma server_mirrors:
  assumes "conns_wf s" and "sv_exec ev s = SNext t"
  shows "case sv_call ev s of None \<Rightarrow> sv_sys t = sv_sys s | Some be \<Rightarrow> b_exec be (sv_sys s) = BNext (sv_sys t)"
proof (cases ev)
  case (Conn n e)
  with assms(2) have "conn_turn n e s = SNext t" by simp
  then obtain c b c1 where c: "sv_conns s n = Some c"
    and x: "conn_exec (sv_os s) (sv_done s) e (bs_broker (sv_sys s)) c = CNext b c1"
    and t: "sv_sys t = (sv_sys s)\<lparr>bs_broker := b\<rparr>" by (rule conn_turn_cases)
  from assms(1) c have "conn_wf c" by (auto simp: conns_wf_def)
  from conn_exec_faithful [OF this, of e "sv_sys s" "sv_os s" "sv_done s"] x t c Conn show ?thesis
    by (auto simp: faithful_def split: option.splits)
qed (use assms(2) in \<open>auto simp: closeConns_def split: if_splits broker_outcome.splits accept.splits\<close>)

lemma server_panics:
  assumes "conns_wf s" and "sv_exec ev s = SPanicked"
  shows "\<exists>be. sv_call ev s = Some be \<and> b_exec be (sv_sys s) = BPanicked"
proof (cases ev)
  case (Conn n e)
  with assms(2) obtain c where c: "sv_conns s n = Some c"
    and x: "conn_exec (sv_os s) (sv_done s) e (bs_broker (sv_sys s)) c = CPanicked"
    by (auto simp: conn_turn_def Let_def split: if_splits option.splits conn_outcome.splits)
  from assms(1) c have "conn_wf c" by (auto simp: conns_wf_def)
  from conn_exec_faithful [OF this, of e "sv_sys s" "sv_os s" "sv_done s"] x c Conn show ?thesis
    by (auto simp: faithful_def)
qed (use assms(2) in \<open>auto split: if_splits broker_outcome.splits accept.splits\<close>)

lemma server_conns_wf:
  assumes "conns_wf s" and "sv_exec ev s = SNext t"
  shows "conns_wf t"
proof (cases ev)
  case (Conn n e)
  with assms(2) have "conn_turn n e s = SNext t" by simp
  then obtain c b c1 where c: "sv_conns s n = Some c"
    and x: "conn_exec (sv_os s) (sv_done s) e (bs_broker (sv_sys s)) c = CNext b c1"
    and t: "sv_conns t = (sv_conns s)(n \<mapsto> c1)" by (rule conn_turn_cases)
  from assms(1) c have "conn_wf c" by (auto simp: conns_wf_def)
  from conn_exec_faithful [OF this, of e "sv_sys s" "sv_os s" "sv_done s"] x t assms(1) show ?thesis
    by (auto simp: faithful_def conns_wf_def split: option.splits)
next
  case CloseConnections
  with assms show ?thesis
    by (auto simp: conns_wf_def closeConns_def fold_closeConn_conns close_wf split: if_splits)
next
  case (Accept n writes)
  have "conn_wf (new_connection writes)" by (simp add: conn_wf_def new_connection_def)
  with Accept assms show ?thesis by (auto simp: conns_wf_def split: if_splits)
next
  case CheckAccepted
  with assms show ?thesis
    by (auto simp: conns_wf_def closeConn_conns close_wf split: accept.splits if_splits)
qed (use assms in \<open>auto simp: conns_wf_def split: if_splits broker_outcome.splits\<close>)

text \<open>
  What holds of the broker in every run of its interface holds of the broker in every run of the
  server.
\<close>

context system_invariant
begin

lemma served_keep:
  "sv_reaches allowed s0 s \<Longrightarrow> I (sv_sys s0) \<Longrightarrow> conns_wf s0 \<Longrightarrow> I (sv_sys s) \<and> conns_wf s"
proof (induction rule: sv_reaches.induct)
  case (step s ev t)
  then have s: "I (sv_sys s)" "conns_wf s" by simp_all
  from server_mirrors [OF s(2) step.hyps(3)] step.hyps(2) s(1) keeps have "I (sv_sys t)"
    by (auto simp: sv_allowed_def split: option.splits)
  with server_conns_wf [OF s(2) step.hyps(3)] show ?case by simp
qed simp

lemma served_alive:
  assumes "sv_reaches allowed s0 s" and "I (sv_sys s0)" and "conns_wf s0" and "sv_allowed allowed ev s"
  shows "sv_exec ev s \<noteq> SPanicked"
  using served_keep [OF assms(1-3)] server_panics [of s ev] assms(4) alive
  by (auto simp: sv_allowed_def split: option.splits)

end

lemma served_reaches:
  "sv_reaches allowed s0 s \<Longrightarrow> conns_wf s0 \<Longrightarrow> b_reaches allowed (sv_sys s0) (sv_sys s) \<and> conns_wf s"
proof (induction rule: sv_reaches.induct)
  case (step s ev t)
  then have s: "b_reaches allowed (sv_sys s0) (sv_sys s)" "conns_wf s" by simp_all
  from server_mirrors [OF s(2) step.hyps(3)] step.hyps(2) s(1) have "b_reaches allowed (sv_sys s0) (sv_sys t)"
    by (auto simp: sv_allowed_def split: option.splits intro: b_reaches.step)
  with server_conns_wf [OF s(2) step.hyps(3)] show ?case by simp
qed (simp add: b_reaches.start)

end
