(* ===== verification/Server_Properties.thy ===== *)
theory Server_Properties
  imports Tcp_Server
begin

text \<open>
  Properties of the whole server over every sequence of requests on any number of connections and
  every interleaving of its goroutines: it does not panic, what the broker guarantees holds under
  it, a connection that ends leaves nothing behind, and after the end of the context every
  connection is wound up in a bounded number of steps, a blocked publisher apart.
\<close>

subsection \<open>Starting\<close>

lemma booted_Start: "broker_ok b \<Longrightarrow> broker_ok (bs_broker (booted (Start b)))"
  by (simp add: booted_def Start_ok)

lemma runServer_ok:
  assumes "good_start order w st"
  shows "\<exists>s. runServer os cfg order w = Some (Inr s)"
    and "runServer os cfg order w = Some (Inr s) \<Longrightarrow> broker_ok (bs_broker (sv_sys s)) \<and> conns_wf s
      \<and> (\<exists>b. NewBroker cfg order w = Some (Some b, None) \<and> s = New os (booted (Start b)))"
proof -
  from recovered [of w st order cfg] assms obtain b where b: "NewBroker cfg order w = Some (Some b, None)" "broker_ok b"
    by (auto simp: good_start_def)
  then show "\<exists>s. runServer os cfg order w = Some (Inr s)" by (simp add: runServer_def)
  show "broker_ok (bs_broker (sv_sys s)) \<and> conns_wf s
      \<and> (\<exists>b. NewBroker cfg order w = Some (Some b, None) \<and> s = New os (booted (Start b)))"
    if "runServer os cfg order w = Some (Inr s)"
    using that b booted_Start [OF b(2)] by (auto simp: runServer_def New_def conns_wf_def)
qed

subsection \<open>Connections are accounted for\<close>

definition pending_conn :: "server \<Rightarrow> nat set" where
  "pending_conn s = (case sv_accept s of Checking n \<Rightarrow> {n} | _ \<Rightarrow> {})"

text \<open>
  \<open>settled\<close>: the map of tracked connections holds exactly those with a live handler and the one
  that is being accepted; any other connection is closed and has no goroutine left. A connection
  is only waited for while it is not gone. Once the listener has been closed nothing is accepted,
  and once the watcher is done every tracked connection is closed.
\<close>

definition settled :: "server \<Rightarrow> bool" where
  "settled s \<longleftrightarrow> set (sv_tracked s) = set (sv_live s) \<union> pending_conn s
     \<and> (\<forall>n \<in> set (sv_live s) \<union> pending_conn s. \<exists>c. sv_conns s n = Some c \<and> cn_phase c \<noteq> Gone)
     \<and> (\<forall>n c. sv_conns s n = Some c \<longrightarrow> n \<notin> set (sv_live s) \<longrightarrow> \<not> running (cn_pump c))
     \<and> (\<forall>n c. sv_conns s n = Some c \<longrightarrow> n \<notin> set (sv_tracked s) \<longrightarrow> cn_closed c)
     \<and> pending_conn s \<inter> set (sv_live s) = {}
     \<and> (sv_watch s \<noteq> AwaitDone \<longrightarrow> sv_done s \<and> \<not> sv_listening s)
     \<and> (sv_watch s = WatchDone \<longrightarrow> (\<forall>n c. sv_conns s n = Some c \<longrightarrow> cn_closed c))"

lemma settledD:
  assumes "settled s"
  shows "set (sv_tracked s) = set (sv_live s) \<union> pending_conn s"
    and "n \<in> set (sv_live s) \<union> pending_conn s \<Longrightarrow> \<exists>c. sv_conns s n = Some c \<and> cn_phase c \<noteq> Gone"
    and "sv_conns s n = Some c \<Longrightarrow> n \<notin> set (sv_tracked s) \<Longrightarrow> cn_closed c \<and> \<not> running (cn_pump c)"
    and "sv_watch s \<noteq> AwaitDone \<Longrightarrow> sv_done s \<and> \<not> sv_listening s"
    and "sv_watch s = WatchDone \<Longrightarrow> sv_conns s n = Some c \<Longrightarrow> cn_closed c"
  using assms by (simp_all add: settled_def)

lemma leave_closed: "leave c = Some c1 \<Longrightarrow> cn_closed c1 = cn_closed c"
  by (auto simp: leave_def close_stop_def split: if_splits)

lemma respond_closed: "respond r c = Some c1 \<Longrightarrow> cn_closed c1 = cn_closed c"
proof -
  assume *: "respond r c = Some c1"
  obtain ok c2 where e: "encode r c = (ok, c2)" by fastforce
  from encode_fields(4) [OF e] * leave_closed [of c2 c1] e show ?thesis
    by (cases ok) (auto simp: respond_def)
qed

lemma follow_closed: "follow act c = Some c1 \<Longrightarrow> cn_closed c1 = cn_closed c"
  by (auto simp: follow_def unsubscribed_def close_stop_def split: action.splits if_splits dest: respond_closed)

lemma conn_exec_closed:
  assumes "conn_exec os done ev b c = CNext b1 c1" and "cn_closed c"
  shows "cn_closed c1"
proof -
  have go: "cn_closed c1" if "goes_on b' x = CNext b1 c1" "\<And>y. x = Some y \<Longrightarrow> cn_closed y" for b' x
    using that by (auto simp: goes_on_def split: option.splits)
  have act: "cn_closed c1" if "acts r c = CNext b1 c1" for r
    using that assms(2) by (auto simp: acts_def goes_on_def split: option.splits dest: follow_closed)
  have l: "leave c = Some y \<Longrightarrow> cn_closed y" "leave (snd (encode r c)) = Some y \<Longrightarrow> cn_closed y" for y r
    using assms(2) leave_closed [of c y] leave_closed [of "snd (encode r c)" y] by simp_all
  have u: "unsubscribed c = Some y \<Longrightarrow> cn_closed y" for y
    using assms(2) respond_closed [of success "c\<lparr>cn_stop := None\<rparr>" y] by (simp add: unsubscribed_def)
  show ?thesis
  proof (cases ev)
    case (ReadValue v sess order)
    with assms(1) act go l show ?thesis
      by (auto simp: conn_exec_def handle_value_def split: if_splits option.splits)
  next
    case PumpSend
    with assms show ?thesis
      by (auto simp: conn_exec_def split: pump.splits prod.splits bool.splits dest: encode_fields(4))
  qed (use assms act go l u in \<open>auto simp: conn_exec_def split: if_splits phase.splits pump.splits option.splits\<close>)
qed


lemma settled_conn:
  assumes st: "settled s" and wf: "conns_wf s" and run: "conn_turn n ev s = SNext t"
  shows "settled t"
proof -
  from run obtain c b c1 where n: "n \<in> set (sv_live s)" "sv_conns s n = Some c"
    and x: "conn_exec (sv_os s) (sv_done s) ev (bs_broker (sv_sys s)) c = CNext b c1"
    and t: "sv_conns t = (sv_conns s)(n \<mapsto> c1)" "sv_accept t = sv_accept s" "sv_watch t = sv_watch s"
      "sv_done t = sv_done s" "sv_listening t = sv_listening s"
      "sv_live t = (if cn_phase c1 = Gone then filter (\<lambda>m. m \<noteq> n) (sv_live s) else sv_live s)"
      "sv_tracked t = (if cn_phase c1 = Gone then filter (\<lambda>m. m \<noteq> n) (sv_tracked s) else sv_tracked s)"
    by (rule conn_turn_cases)
  from wf n(2) have "conn_wf c" by (auto simp: conns_wf_def)
  with conn_exec_faithful [of c ev "sv_sys s" "sv_os s" "sv_done s"] x have w: "conn_wf c1"
    by (simp add: faithful_def)
  have ch: "pending_conn t = pending_conn s" by (simp add: pending_conn_def t)
  have cl: "cn_closed c \<Longrightarrow> cn_closed c1" by (rule conn_exec_closed [OF x])
  have nch: "n \<notin> pending_conn s" using st n(1) by (auto simp: settled_def)
  show ?thesis
  proof (cases "cn_phase c1 = Gone")
    case True
    with w have "\<not> running (cn_pump c1)" "cn_closed c1" by (simp_all add: conn_wf_def)
    with st True nch show ?thesis unfolding settled_def ch by (auto simp: t)
  next
    case False
    with st n cl show ?thesis unfolding settled_def ch by (simp add: t)
  qed
qed

lemma settled_step:
  assumes st: "settled s" and wf: "conns_wf s" and run: "sv_exec ev s = SNext t"
  shows "settled t"
proof (cases ev)
  case (Conn n e)
  with settled_conn [OF st wf] run show ?thesis by simp
next
  case (Accept n writes)
  with run have a: "sv_accept s = Accepting" "sv_listening s" "sv_conns s n = None"
    and t: "t = (trackConn n (set_conn n (new_connection writes) s))\<lparr>sv_accept := Checking n\<rparr>"
    by (auto split: if_splits)
  have "n \<notin> set (sv_live s)" using settledD(2) [OF st] a(3) by fastforce
  with st a show ?thesis
    by (auto simp: settled_def t pending_conn_def trackConn_def set_conn_def new_connection_def)
next
  case CheckAccepted
  then show ?thesis
  proof (cases "sv_accept s")
    case (Checking n)
    with CheckAccepted run st show ?thesis
      by (auto simp: settled_def pending_conn_def untrackConn_def closeConn_conns closeConn_def set_conn_def
          split: if_splits option.splits)
  qed (use run CheckAccepted in simp_all)
next
  case CloseConnections
  with run have w: "sv_watch s = CloseConns" and t: "t = (fold closeConn (sv_tracked s) s)\<lparr>sv_watch := WatchDone\<rparr>"
    by (auto simp: closeConns_def split: if_splits)
  have ch: "pending_conn t = pending_conn s" by (simp add: pending_conn_def t)
  have old: "\<exists>z. sv_conns s n = Some z \<and> cn_phase c = cn_phase z \<and> cn_pump c = cn_pump z \<and> cn_closed c"
    if "sv_conns t n = Some c" for n c
    using that settledD(3) [OF st, of n]
    by (cases "n \<in> set (sv_tracked s)") (auto simp: t fold_closeConn_conns)
  have new: "\<exists>c. sv_conns t n = Some c \<and> cn_phase c = cn_phase z" if "sv_conns s n = Some z" for n z
    using that by (simp add: t fold_closeConn_conns)
  have "sv_done t \<and> \<not> sv_listening t" using settledD(4) [OF st] w by (simp add: t)
  moreover have "\<exists>c. sv_conns t n = Some c \<and> cn_phase c \<noteq> Gone" if n: "n \<in> set (sv_live s) \<union> pending_conn s" for n
  proof -
    from settledD(2) [OF st n] obtain z where "sv_conns s n = Some z" "cn_phase z \<noteq> Gone" by blast
    with new [of n z] show ?thesis by auto
  qed
  moreover have "\<not> running (cn_pump c)" if "sv_conns t n = Some c" "n \<notin> set (sv_live s)" for n c
    using old [OF that(1)] that(2) st by (auto simp: settled_def)
  moreover have "set (sv_tracked t) = set (sv_live t) \<union> pending_conn s" "sv_live t = sv_live s"
    "pending_conn s \<inter> set (sv_live s) = {}"
    using st by (auto simp: settled_def t)
  moreover have "cn_closed c" if "sv_conns t n = Some c" for n c using old [OF that] by blast
  ultimately show ?thesis unfolding settled_def ch by simp
qed (use st run in \<open>auto simp: settled_def pending_conn_def split: if_splits broker_outcome.splits\<close>)

lemma New_settled: "settled (New os bs)"
  by (simp add: settled_def New_def pending_conn_def)

lemma reached_settled:
  "sv_reaches allowed s0 s \<Longrightarrow> settled s0 \<Longrightarrow> conns_wf s0 \<Longrightarrow> settled s \<and> conns_wf s"
  by (induction rule: sv_reaches.induct) (auto intro: settled_step server_conns_wf)


subsection \<open>Winding up\<close>

text \<open>
  The steps that a connection has left once the context has ended and the connection is closed.
  A handler that waits for a request may still find one in the decoder's buffer.
\<close>

fun phase_rank :: "phase \<Rightarrow> nat" where
  "phase_rank Gone = 0"
| "phase_rank Leaving = 1"
| "phase_rank Decoding = 6"
| "phase_rank _ = 2"

fun pump_rank :: "pump \<Rightarrow> nat" where
  "pump_rank (Selecting _ _ _) = 3"
| "pump_rank (Sending _ _ _ _) = 2"
| "pump_rank (Unsubscribing _ _) = 1"
| "pump_rank _ = 0"

definition rank :: "connection \<Rightarrow> nat" where
  "rank c = phase_rank (cn_phase c) + pump_rank (cn_pump c)"

lemma rank_bound: "rank c \<le> 9"
proof -
  have "phase_rank (cn_phase c) \<le> 6" by (cases "cn_phase c") simp_all
  moreover have "pump_rank (cn_pump c) \<le> 3" by (cases "cn_pump c") simp_all
  ultimately show ?thesis by (simp add: rank_def)
qed

lemma leave_rank: "leave c = Some c1 \<Longrightarrow> rank c1 = 1 + pump_rank (cn_pump c)"
  by (auto simp: leave_def close_stop_def rank_def split: if_splits)

lemma respond_closed_rank: "cn_closed c \<Longrightarrow> respond r c = Some c1 \<Longrightarrow> rank c1 = 1 + pump_rank (cn_pump c)"
proof -
  assume *: "cn_closed c" "respond r c = Some c1"
  obtain ok c2 where e: "encode r c = (ok, c2)" by fastforce
  from encode_fields(3,5) [OF e] * leave_rank [of c2 c1] e show ?thesis by (auto simp: respond_def)
qed

lemma unsubscribed_rank: "cn_closed c \<Longrightarrow> unsubscribed c = Some c1 \<Longrightarrow> rank c1 = 1 + pump_rank (cn_pump c)"
  using respond_closed_rank [of "c\<lparr>cn_stop := None\<rparr>" success c1] by (simp add: unsubscribed_def)

lemma follow_rank:
  assumes "cn_closed c" and "follow act c = Some c1"
  shows "rank c1 < 6 + pump_rank (cn_pump c)"
proof (cases act)
  case (Respond r)
  with assms respond_closed_rank [of c r c1] show ?thesis by (simp add: follow_def)
next
  case StopPump
  with assms unsubscribed_rank [of c c1] show ?thesis
    by (auto simp: follow_def close_stop_def rank_def split: if_splits)
qed (use assms in \<open>auto simp: follow_def rank_def\<close>)

lemma conn_exec_rank:
  assumes cl: "cn_closed c" and run: "conn_exec os True ev b c = CNext b1 c1"
  shows "rank c1 \<le> rank c" and "ev \<noteq> Woken \<Longrightarrow> rank c1 < rank c"
proof -
  have lv: "rank c1 = 1 + pump_rank (cn_pump c)" if "goes_on b' (leave c) = CNext b1 c1" for b'
    using that leave_rank by (auto simp: goes_on_def split: option.splits)
  have le: "rank c1 = 1 + pump_rank (cn_pump c)" if "goes_on b' (leave (snd (encode r c))) = CNext b1 c1" for b' r
    using that leave_rank by (auto simp: goes_on_def split: option.splits)
  have "rank c1 < rank c" if "ev \<noteq> Woken"
  proof (cases ev)
    case (ReadValue v sess order)
    have "rank c1 < 6 + pump_rank (cn_pump c)" if "acts r c = CNext b1 c1" for r
      using that follow_rank [OF cl] by (auto simp: acts_def goes_on_def split: option.splits)
    with ReadValue run lv le show ?thesis
      by (auto simp: conn_exec_def handle_value_def rank_def split: if_splits option.splits)
  next
    case PumpSend
    with run obtain sess i n d where p: "cn_pump c = Sending sess i n d"
      by (auto simp: conn_exec_def split: pump.splits)
    obtain ok c2 where e: "encode (success\<lparr>rs_Message := d_Message d, rs_AckToken := d_AckToken d\<rparr>) c = (ok, c2)"
      by fastforce
    from encode_fields(1,5) [OF e] cl PumpSend run p e show ?thesis by (auto simp: conn_exec_def rank_def)
  next
    case Waited
    have "rank c1 = 1 + pump_rank (cn_pump c)" if "goes_on b (unsubscribed c) = CNext b1 c1"
      using that unsubscribed_rank [OF cl] by (auto simp: goes_on_def split: option.splits)
    with Waited run show ?thesis by (auto simp: conn_exec_def rank_def split: if_splits)
  qed (use run lv that in \<open>auto simp: conn_exec_def rank_def split: if_splits pump.splits option.splits\<close>)
  moreover have "rank c1 \<le> rank c" if "ev = Woken"
  proof -
    have "rank c1 \<le> 2 + pump_rank (cn_pump c)" if "acts (published os m ttl r) c = CNext b1 c1" for m ttl r
      using that respond_closed_rank [OF cl]
      by (auto simp: acts_def goes_on_def published_def follow_def rank_def split: option.splits pub_result.splits)
    with that run show ?thesis by (auto simp: conn_exec_def rank_def split: phase.splits if_splits)
  qed
  ultimately show "rank c1 \<le> rank c" and "ev \<noteq> Woken \<Longrightarrow> rank c1 < rank c" by (blast intro: less_imp_le)+
qed


fun sv_trace :: "(broker_event \<Rightarrow> broker_system \<Rightarrow> bool) \<Rightarrow> server_event list \<Rightarrow> server \<Rightarrow> server option" where
  "sv_trace allowed [] s = Some s"
| "sv_trace allowed (ev # evs) s =
     (if sv_allowed allowed ev s then (case sv_exec ev s of SNext t \<Rightarrow> sv_trace allowed evs t | _ \<Rightarrow> None) else None)"

lemma sv_reaches_trans: "sv_reaches allowed s1 s2 \<Longrightarrow> sv_reaches allowed s0 s1 \<Longrightarrow> sv_reaches allowed s0 s2"
  by (induction rule: sv_reaches.induct) (auto intro: sv_reaches.step)

lemma sv_trace_reaches: "sv_trace allowed evs s = Some t \<Longrightarrow> sv_reaches allowed s t"
proof (induction evs arbitrary: s)
  case (Cons ev evs)
  then obtain s1 where "sv_allowed allowed ev s" "sv_exec ev s = SNext s1" "sv_trace allowed evs s1 = Some t"
    by (auto split: if_splits server_outcome.splits)
  with Cons.IH [of s1] sv_reaches.step [OF sv_reaches.start [of allowed s]] show ?case
    by (blast intro: sv_reaches_trans)
qed (simp add: sv_reaches.start)

definition own_step :: "nat \<Rightarrow> server_event \<Rightarrow> bool" where
  "own_step n ev = (case ev of Conn m e \<Rightarrow> m = n \<and> e \<noteq> Woken | _ \<Rightarrow> False)"

definition conn_rank :: "nat \<Rightarrow> server \<Rightarrow> nat" where
  "conn_rank n s = (case sv_conns s n of None \<Rightarrow> 0 | Some c \<Rightarrow> rank c)"

lemma close_rank [simp]: "rank (c\<lparr>cn_closed := x\<rparr>) = rank c"
  by (simp add: rank_def)

lemma closing_step:
  assumes st: "settled s" and w: "sv_watch s = WatchDone" and run: "sv_exec ev s = SNext t"
  shows "sv_watch t = WatchDone" and "conn_rank n t + (if own_step n ev then 1 else 0) \<le> conn_rank n s"
proof -
  have d: "sv_done s" "\<not> sv_listening s" using settledD(4) [OF st] w by simp_all
  have "sv_watch t = WatchDone \<and> conn_rank n t + (if own_step n ev then 1 else 0) \<le> conn_rank n s"
  proof (cases ev)
    case (Conn m e)
    with run have "conn_turn m e s = SNext t" by simp
    then obtain c b c1 where c: "sv_conns s m = Some c"
      and x: "conn_exec (sv_os s) (sv_done s) e (bs_broker (sv_sys s)) c = CNext b c1"
      and t: "sv_conns t = (sv_conns s)(m \<mapsto> c1)" "sv_watch t = sv_watch s" by (rule conn_turn_cases)
    from x d(1) have "conn_exec (sv_os s) True e (bs_broker (sv_sys s)) c = CNext b c1" by simp
    note r = conn_exec_rank [OF settledD(5) [OF st w c] this]
    show ?thesis
    proof (cases "own_step n ev")
      case True
      with Conn r(2) c w t show ?thesis by (simp add: own_step_def conn_rank_def)
    qed (use r(1) c w t in \<open>auto simp: conn_rank_def\<close>)
  next
    case CheckAccepted
    with run w show ?thesis
      by (auto simp: own_step_def conn_rank_def closeConn_conns closeConn_def untrackConn_def set_conn_def
          split: accept.splits if_splits option.splits)
  qed (use run w d in \<open>auto simp: own_step_def conn_rank_def split: if_splits broker_outcome.splits\<close>)
  then show "sv_watch t = WatchDone" and "conn_rank n t + (if own_step n ev then 1 else 0) \<le> conn_rank n s"
    by simp_all
qed

lemma closing_trace:
  "sv_trace allowed evs s = Some t \<Longrightarrow> settled s \<Longrightarrow> conns_wf s \<Longrightarrow> sv_watch s = WatchDone \<Longrightarrow>
   length (filter (own_step n) evs) + conn_rank n t \<le> conn_rank n s \<and> sv_watch t = WatchDone"
proof (induction evs arbitrary: s)
  case (Cons ev evs)
  from Cons.prems(1) obtain s1 where s1: "sv_exec ev s = SNext s1" "sv_trace allowed evs s1 = Some t"
    by (auto split: if_splits server_outcome.splits)
  note c = closing_step [OF Cons.prems(2,4) s1(1)]
  from Cons.IH [OF s1(2) settled_step [OF Cons.prems(2,3) s1(1)] server_conns_wf [OF Cons.prems(3) s1(1)] c(1)]
    c(2) [of n] show ?case by (auto split: if_splits)
qed simp

definition in_publish :: "nat \<Rightarrow> server \<Rightarrow> bool" where
  "in_publish n s = (case sv_conns s n of None \<Rightarrow> False
     | Some c \<Rightarrow> (case cn_phase c of Waiting _ _ _ _ \<Rightarrow> True | _ \<Rightarrow> False))"

lemma pump_not_stuck:
  assumes "conn_wf c" and "cn_stop c = Some True" and "running (cn_pump c)" and "broker_ok b"
  shows "\<exists>e b1 c1. e \<noteq> Woken \<and> conn_exec os done e b c = CNext b1 c1"
proof (cases "cn_pump c")
  case (Selecting sess i n)
  with assms(2) have "conn_exec os done PumpStop b c = CNext b (c\<lparr>cn_pump := Unsubscribing n i\<rparr>)"
    by (simp add: conn_exec_def)
  then show ?thesis by blast
next
  case (Sending sess i n d)
  then have "\<exists>b1 c1. conn_exec os done PumpSend b c = CNext b1 c1"
    by (auto simp: conn_exec_def split: prod.splits bool.splits)
  then show ?thesis by blast
next
  case (Unsubscribing n i)
  with Unsubscribe_ok [OF assms(4), of n i] have "\<exists>b1 c1. conn_exec os done PumpUnsubscribe b c = CNext b1 c1"
    by (auto simp: conn_exec_def)
  then show ?thesis by blast
qed (use assms(3) in simp_all)

lemma conn_not_stuck:
  assumes wf: "conn_wf c" and ok: "broker_ok b" and ph: "cn_phase c \<noteq> Gone" "\<And>m ttl a ns. cn_phase c \<noteq> Waiting m ttl a ns"
  shows "\<exists>e b1 c1. e \<noteq> Woken \<and> conn_exec os done e b c = CNext b1 c1"
proof (cases "cn_phase c")
  case Top
  with leave_wf [OF wf] have "\<exists>b1 c1. conn_exec os done CheckContext b c = CNext b1 c1"
    by (auto simp: conn_exec_def goes_on_def)
  then show ?thesis by blast
next
  case Decoding
  with leave_wf [OF wf] have "\<exists>b1 c1. conn_exec os done ReadError b c = CNext b1 c1"
    by (auto simp: conn_exec_def goes_on_def)
  then show ?thesis by blast
next
  case Stopping
  show ?thesis
  proof (cases "running (cn_pump c)")
    case False
    with Stopping unsubscribed_wf [of c] have "\<exists>b1 c1. conn_exec os done Waited b c = CNext b1 c1"
      by (auto simp: conn_exec_def goes_on_def)
    then show ?thesis by blast
  qed (use Stopping wf pump_not_stuck [OF wf _ _ ok] in \<open>simp add: conn_wf_def\<close>)
next
  case Leaving
  show ?thesis
  proof (cases "running (cn_pump c)")
    case False
    with Leaving have "\<exists>b1 c1. conn_exec os done Waited b c = CNext b1 c1" by (simp add: conn_exec_def)
    then show ?thesis by blast
  next
    case True
    with Leaving wf have "cn_stop c = Some True" by (cases "cn_stop c") (auto simp: conn_wf_def)
    from pump_not_stuck [OF wf this True ok] show ?thesis .
  qed
qed (use ph in simp_all)

lemma live_not_stuck:
  assumes "settled s" and "conns_wf s" and "broker_ok (bs_broker (sv_sys s))" and "n \<in> set (sv_live s)" and "\<not> in_publish n s"
  shows "\<exists>e t. e \<noteq> Woken \<and> sv_exec (Conn n e) s = SNext t"
proof -
  from settledD(2) [OF assms(1)] assms(4) obtain c where c: "sv_conns s n = Some c" "cn_phase c \<noteq> Gone" by blast
  moreover have "cn_phase c \<noteq> Waiting m ttl a ns" for m ttl a ns using assms(5) c(1) by (auto simp: in_publish_def)
  moreover have "conn_wf c" using assms(2) c(1) by (auto simp: conns_wf_def)
  ultimately obtain e b1 c1 where "e \<noteq> Woken" "conn_exec (sv_os s) (sv_done s) e (bs_broker (sv_sys s)) c = CNext b1 c1"
    using conn_not_stuck [OF _ assms(3)] by blast
  with c(1) assms(4) show ?thesis by (auto simp: conn_turn_def Let_def)
qed


subsection \<open>Properties\<close>

text \<open>A running sample server and its clients.\<close>

abbreviation no_text :: "err \<Rightarrow> string" where
  "no_text \<equiv> \<lambda>_. ''input/output error''"

definition sample_server :: server where
  "sample_server = New no_text (booted (Start sample_broker))"

lemma sample_runServer: "runServer no_text DefaultConfig PendingExchanges sample_world = Some (Inr sample_server)"
  by (simp add: runServer_def sample_boot sample_server_def)

abbreviation sends :: "request \<Rightarrow> nat \<Rightarrow> conn_event list" where
  "sends req sess \<equiv> [CheckContext, ReadValue (enc_request (req\<lparr>rq_Version := CurrentVersion\<rparr>)) sess [DefaultExchangeName]]"

abbreviation subscribe_as :: "string \<Rightarrow> string \<Rightarrow> request" where
  "subscribe_as i q \<equiv> zero_request\<lparr>rq_Type := SubscribeRequest, rq_ID := i, rq_Queue := q\<rparr>"

abbreviation publish_text :: "string \<Rightarrow> request" where
  "publish_text p \<equiv> zero_request\<lparr>rq_Type := PublishRequest, rq_Exchange := ''default'',
     rq_RoutingKey := ''default'', rq_Payload := zero_message\<lparr>Payload := p\<rparr>\<rparr>"

abbreviation connects :: "nat \<Rightarrow> server_event list" where
  "connects n \<equiv> [Accept n (\<lambda>_. WriteOk), CheckAccepted]"

definition sample_session :: "server_event list" where
  "sample_session = connects 0 @ map (Conn 0) (sends (subscribe_as ''c1'' '''') 7)
     @ connects 1 @ map (Conn 1) (sends (publish_text ''hello'') 8)
     @ map (Goroutine 0) [EvTop, EvNotified, EvReserve, EvSend] @ map (Conn 0) [PumpTake, PumpSend]"

lemma sample_session_runs:
  "\<exists>s. sv_trace b_safe sample_session sample_server = Some s \<and> sv_live s = [0, 1]
     \<and> map_option (\<lambda>c. length (cn_out c)) (sv_conns s 0) = Some 1"
  unfolding case_Some_iff [symmetric] by code_simp


lemma reached_server:
  assumes "good_start order w st" and "runServer os cfg order w = Some (Inr s0)" and "sv_reaches b_safe s0 s"
  shows "settled s" and "conns_wf s" and "broker_ok (bs_broker (sv_sys s))"
proof -
  note r = runServer_ok(2) [OF assms(1,2)]
  then have "settled s0" by (auto simp: New_settled)
  with reached_settled [OF assms(3)] brk.served_keep [OF assms(3)] r
  show "settled s" "conns_wf s" "broker_ok (bs_broker (sv_sys s))" by blast+
qed





text \<open>
  C31. Nothing is left behind: in every reachable state of the server the tracked connections are
  exactly those whose handler runs and the one being accepted, and every other connection that was
  ever accepted is closed and its delivery goroutine has ended.
\<close>

theorem connections_released:
  assumes "good_start order w st" and "runServer os cfg order w = Some (Inr s0)" and "sv_reaches b_safe s0 s"
  shows "set (sv_tracked s) = set (sv_live s) \<union> pending_conn s
    \<and> (\<forall>n c. sv_conns s n = Some c \<longrightarrow> n \<notin> set (sv_tracked s) \<longrightarrow> cn_closed c \<and> \<not> running (cn_pump c))"
  using settledD(1,3) [OF reached_server(1) [OF assms]] by blast

theorem connections_released_witness:
  "\<exists>s c. sv_trace b_safe (sample_session @ map (Conn 0) [CheckContext, ReadError, PumpStop, PumpUnsubscribe, Waited])
       sample_server = Some s \<and> sv_tracked s = [1] \<and> sv_conns s 0 = Some c \<and> cn_closed c \<and> \<not> running (cn_pump c)"
proof -
  let ?run = "sv_trace b_safe (sample_session @ map (Conn 0) [CheckContext, ReadError, PumpStop, PumpUnsubscribe, Waited])
    sample_server"
  have "\<exists>s. ?run = Some s \<and> sv_tracked s = [1] \<and> sv_live s = [1] \<and> (case sv_conns s 0 of None \<Rightarrow> False | Some c \<Rightarrow> True)"
    unfolding case_Some_iff [symmetric] by code_simp
  then obtain s c where s: "?run = Some s" "sv_tracked s = [1]" "sv_conns s 0 = Some c"
    unfolding case_Some_iff by blast
  moreover have "0 \<notin> set (sv_tracked s)" using s(2) by simp
  ultimately have "cn_closed c \<and> \<not> running (cn_pump c)"
    using connections_released [OF sample_good sample_runServer sv_trace_reaches [OF s(1)]] by blast
  with s show ?thesis by blast
qed


abbreviation ends_context :: "server_event list" where
  "ends_context \<equiv> [Signal, CloseListener, CloseConnections, AcceptClosed]"

abbreviation departure :: "server_event list" where
  "departure \<equiv> map (Conn 0) [CheckContext, PumpStop, PumpUnsubscribe, Waited] @ map (Conn 1) [CheckContext, Waited]"


subsection \<open>Where the server falls short\<close>

definition run_with :: "config \<Rightarrow> server_event list \<Rightarrow> server option" where
  "run_with cfg evs =
     (case runServer no_text cfg PendingExchanges sample_world of
        Some (Inr s) \<Rightarrow> sv_trace b_safe evs s | _ \<Rightarrow> None)"

text \<open>
  A publisher that waits for room keeps the server from stopping: the broker is shut down only
  after every handler has returned, and only the shutdown (or a consumer, whose connection is
  closed by then) would wake the publisher. In this run of a queue of one message the context has
  ended, the connection is closed, the distributor has returned, and the server waits for good.
\<close>

theorem blocked_publisher_holds_server:
  "case run_with (DefaultConfig\<lparr>QueueSize := 1\<rparr>)
       (connects 0 @ map (Conn 0) (sends (publish_text ''a'') 7 @ sends (publish_text ''b'') 8) @ ends_context
        @ map (Goroutine 0) [EvTop, EvDone]) of
     None \<Rightarrow> False
   | Some s \<Rightarrow> sv_accept s = WaitingAll \<and> sv_live s = [0] \<and> in_publish 0 s \<and> bs_dist (sv_sys s) 0 = D_Exited
       \<and> (case sv_exec WaitAll s of SDisabled \<Rightarrow> True | _ \<Rightarrow> False)
       \<and> (case sv_exec (Conn 0 Woken) s of SNext t \<Rightarrow> in_publish 0 t | _ \<Rightarrow> False)"
  by code_simp

text \<open>
  Two connections under one client identifier: the second subscription is accepted without a word
  and ignored, and when the second client leaves, its handler removes the first client's session.
  The first client's connection still counts as subscribed, but a message published afterwards
  stays in the queue.
\<close>

theorem same_identifier_unsubscribes_other:
  "case run_with DefaultConfig
       (connects 0 @ map (Conn 0) (sends (subscribe_as ''c1'' '''') 7)
        @ connects 1 @ map (Conn 1) (sends (subscribe_as ''c1'' '''') 8 @ [CheckContext, ReadError, PumpStop, PumpUnsubscribe, Waited])
        @ connects 2 @ map (Conn 2) (sends (publish_text ''a'') 9)
        @ map (Goroutine 0) [EvTop, EvNotified, EvReserve, EvTop]) of
     None \<Rightarrow> False
   | Some s \<Rightarrow> (case sv_conns s 0 of None \<Rightarrow> False
         | Some c \<Rightarrow> cn_stop c = Some False \<and> running (cn_pump c) \<and> cn_out c = [])
       \<and> (case sv_conns s 1 of None \<Rightarrow> False | Some c \<Rightarrow> cn_out c = [])
       \<and> (case b_runtimes (bs_broker (sv_sys s)) 0 of None \<Rightarrow> False
          | Some q \<Rightarrow> consumerOrder q = [] \<and> rb_Size (q_queue q) = 1 \<and> \<not> notifyDistributor q)
       \<and> bs_dist (sv_sys s) 0 = D_Select"
  by code_simp

end
