(* ===== verification/Server_Replies.thy ===== *)
theory Server_Replies
  imports Server_Properties
begin

text \<open>
  What the server writes: every value that it ever sends to a client is a response of the current
  version that either succeeds without an error text or fails with one. The interface
  \<open>connection_invariant\<close> lifts a property that every event of a connection keeps to all connections
  of all reachable states of the server.
\<close>

subsection \<open>The interface of an invariant of connections\<close>

locale connection_invariant =
  fixes P :: "(err \<Rightarrow> string) \<Rightarrow> connection \<Rightarrow> bool"
  assumes fresh: "P os (new_connection writes)"
    and closing: "P os c \<Longrightarrow> P os (c\<lparr>cn_closed := True\<rparr>)"
    and keeps: "P os c \<Longrightarrow> conn_exec os ended ev b c = CNext b1 c1 \<Longrightarrow> P os c1"
begin

lemma server_step:
  assumes "\<forall>n c. sv_conns s n = Some c \<longrightarrow> P (sv_os s) c" and "sv_exec ev s = SNext t"
  shows "\<forall>n c. sv_conns t n = Some c \<longrightarrow> P (sv_os t) c" and "sv_os t = sv_os s"
proof -
  have closed: "sv_os (fold closeConn ns u) = sv_os u" for ns u
    by (induction ns arbitrary: u) (simp_all add: closeConn_def set_conn_def split: option.splits)
  have "sv_os t = sv_os s \<and> (\<forall>n c. sv_conns t n = Some c \<longrightarrow> P (sv_os s) c)"
  proof (cases ev)
    case (Conn n e)
    with assms(2) have *: "conn_turn n e s = SNext t" by simp
    then have "sv_os t = sv_os s"
      by (auto simp: conn_turn_def Let_def untrackConn_def set_conn_def set_broker_def
          split: if_splits option.splits conn_outcome.splits)
    moreover from * obtain c b c1 where c: "sv_conns s n = Some c"
      and x: "conn_exec (sv_os s) (sv_done s) e (bs_broker (sv_sys s)) c = CNext b c1"
      and "sv_conns t = (sv_conns s)(n \<mapsto> c1)" by (rule conn_turn_cases)
    moreover have "P (sv_os s) c1" by (rule keeps [OF _ x]) (use assms(1) c in blast)
    ultimately show ?thesis using assms(1) by auto
  next
    case CloseConnections
    with assms closing show ?thesis
      by (auto simp: closeConns_def fold_closeConn_conns closed split: if_splits)
  next
    case (Accept n writes)
    with assms fresh show ?thesis by (auto simp: trackConn_def set_conn_def split: if_splits)
  next
    case CheckAccepted
    with assms closing show ?thesis
      by (auto simp: closeConn_conns closeConn_def set_conn_def untrackConn_def split: accept.splits if_splits option.splits)
  qed (use assms in \<open>auto split: if_splits broker_outcome.splits\<close>)
  then show "\<forall>n c. sv_conns t n = Some c \<longrightarrow> P (sv_os t) c" and "sv_os t = sv_os s" by simp_all
qed

lemma server_reach:
  assumes "sv_reaches allowed (New os bs) s"
  shows "sv_os s = os \<and> (\<forall>n c. sv_conns s n = Some c \<longrightarrow> P os c)"
  using assms
proof (induction rule: sv_reaches.induct)
  case (step s ev t)
  with server_step [of s ev t] show ?case by auto
qed (simp add: New_def)

end

subsection \<open>Responses\<close>

definition honest :: "response \<Rightarrow> bool" where
  "honest r \<longleftrightarrow> (rs_Success r \<longleftrightarrow> rs_Error r = '''')"

definition proper :: "response \<Rightarrow> bool" where
  "proper r \<longleftrightarrow> honest r \<and> rs_Version r = CurrentVersion"

definition texts :: "(err \<Rightarrow> string) \<Rightarrow> bool" where
  "texts os \<longleftrightarrow> (\<forall>e. os e \<noteq> '''')"

definition proper_out :: "connection \<Rightarrow> bool" where
  "proper_out c \<longleftrightarrow> (\<forall>v \<in> set (cn_out c). \<exists>r. dec_response v zero_response = Some r \<and> proper r)"

lemma honest_simps:
  "honest success" "text \<noteq> '''' \<Longrightarrow> honest (failure text)" "texts os \<Longrightarrow> honest (status os e)"
  "honest (r\<lparr>rs_Metrics := m\<rparr>) = honest r" "honest (r\<lparr>rs_Queues := q\<rparr>) = honest r"
  "honest (r\<lparr>rs_Exchanges := x\<rparr>) = honest r" "honest (r\<lparr>rs_Version := v\<rparr>) = honest r"
  "honest (r\<lparr>rs_Message := d\<rparr>) = honest r" "honest (r\<lparr>rs_AckToken := t\<rparr>) = honest r"
proof -
  show "honest (status os e)" if "texts os"
  proof (cases e)
    case (Some x)
    then show ?thesis using that by (cases x) (simp_all add: honest_def status_def errorString_def texts_def)
  qed (simp add: honest_def status_def errorString_def)
qed (simp_all add: honest_def success_def failure_def zero_response_def)

lemma proper_out_updates [simp]:
  "proper_out (c\<lparr>cn_pump := p\<rparr>) = proper_out c" "proper_out (c\<lparr>cn_phase := h\<rparr>) = proper_out c"
  "proper_out (c\<lparr>cn_closed := x\<rparr>) = proper_out c" "proper_out (c\<lparr>cn_stop := t\<rparr>) = proper_out c"
  by (simp_all add: proper_out_def)

lemma queue_report_honest: "texts os \<Longrightarrow> honest (queue_report os n x)"
  by (cases x) (simp_all add: queue_report_def honest_simps)

lemma dispatch_honest:
  assumes "texts os" and "dispatch os sess order subscribed req b = Some (Respond r, b')"
  shows "honest r"
proof -
  note st = honest_simps(3) [OF assms(1)]
  have "answer os x = Some (Respond r, b') \<Longrightarrow> honest r" for x using st by (auto simp: answer_def)
  moreover have "published os m ttl x = Some (Respond r, b') \<Longrightarrow> honest r" for m ttl x
    using st by (auto simp: published_def split: option.splits pub_result.splits)
  moreover have "handle_ack os req b = Some (Respond r, b') \<Longrightarrow> honest r"
    using st by (auto simp: handle_ack_def split: option.splits)
  moreover have "handle_metrics os req b = Some (Respond r, b') \<Longrightarrow> honest r"
    using queue_report_honest [OF assms(1)] by (auto simp: handle_metrics_def honest_simps split: if_splits)
  moreover have "handle_subscribe os sess subscribed req b = Some (Respond r, b') \<Longrightarrow> honest r"
    using st by (auto simp: handle_subscribe_def honest_simps split: if_splits option.splits)
  ultimately show ?thesis using assms(2)
    by (auto simp: dispatch_def dispatch_admin_def honest_simps split: if_splits)
qed

lemma encode_proper: "honest r \<Longrightarrow> proper_out c \<Longrightarrow> encode r c = (ok, c1) \<Longrightarrow> proper_out c1"
  by (auto simp: encode_def Let_def proper_out_def proper_def honest_simps split: if_splits)

lemma leave_out: "leave c = Some c1 \<Longrightarrow> cn_out c1 = cn_out c"
  by (auto simp: leave_def close_stop_def split: if_splits)

lemma respond_proper: "honest r \<Longrightarrow> proper_out c \<Longrightarrow> respond r c = Some c1 \<Longrightarrow> proper_out c1"
proof -
  assume *: "honest r" "proper_out c" "respond r c = Some c1"
  obtain ok c2 where e: "encode r c = (ok, c2)" by fastforce
  from encode_proper [OF *(1,2) e] *(3) e leave_out [of c2 c1] show ?thesis
    by (cases ok) (auto simp: respond_def proper_out_def)
qed

lemma follow_proper:
  assumes "proper_out c" and "\<And>r. act = Respond r \<Longrightarrow> honest r" and "follow act c = Some c1"
  shows "proper_out c1"
proof (cases act)
  case StopPump
  have "proper_out (c\<lparr>cn_stop := None\<rparr>)" using assms(1) by (simp add: proper_out_def)
  from respond_proper [OF honest_simps(1) this] StopPump assms show ?thesis
    by (auto simp: follow_def unsubscribed_def close_stop_def proper_out_def split: if_splits)
qed (use assms respond_proper in \<open>auto simp: follow_def proper_out_def\<close>)

lemma conn_exec_proper:
  assumes os: "texts os" and c: "proper_out c" and run: "conn_exec os ended ev b c = CNext b1 c1"
  shows "proper_out c1"
proof -
  have go: "proper_out c1" if "goes_on b' (leave c2) = CNext b1 c1" "proper_out c2" for b' c2
    using that leave_out by (auto simp: goes_on_def proper_out_def split: option.splits)
  have act: "proper_out c1" if "acts r c = CNext b1 c1" "\<And>x b'. r = Some (Respond x, b') \<Longrightarrow> honest x" for r
    using that follow_proper [OF c] by (fastforce simp: acts_def goes_on_def split: option.splits)
  show ?thesis
  proof (cases ev)
    case (ReadValue v sess order)
    have "proper_out (snd (encode (failure ErrUnsupportedVersion) c))"
      using encode_proper [OF honest_simps(2) c] by (metis ErrUnsupportedVersion_def list.discI prod.collapse)
    with ReadValue run go c act dispatch_honest [OF os] show ?thesis
      by (auto simp: conn_exec_def handle_value_def split: if_splits option.splits)
  next
    case Woken
    have "published os m ttl x = Some (Respond r, b') \<Longrightarrow> honest r" for m ttl x r b'
      using honest_simps(3) [OF os] by (auto simp: published_def split: option.splits pub_result.splits)
    with Woken run act show ?thesis by (auto simp: conn_exec_def split: phase.splits if_splits)
  next
    case Waited
    have "proper_out (c\<lparr>cn_stop := None\<rparr>)" using c by (simp add: proper_out_def)
    from respond_proper [OF honest_simps(1) this] Waited run c show ?thesis
      by (auto simp: conn_exec_def unsubscribed_def goes_on_def proper_out_def split: if_splits option.splits)
  next
    case PumpSend
    have "honest (success\<lparr>rs_Message := d_Message d, rs_AckToken := d_AckToken d\<rparr>)" for d
      by (simp add: honest_simps)
    from encode_proper [OF this c] PumpSend run show ?thesis
      by (auto simp: conn_exec_def split: pump.splits prod.splits bool.splits)
  qed (use run go c in \<open>auto simp: conn_exec_def split: if_splits pump.splits option.splits\<close>)
qed

interpretation replies: connection_invariant "\<lambda>os c. texts os \<longrightarrow> proper_out c"
proof
  show "texts os \<longrightarrow> proper_out (new_connection writes)" for os writes
    by (simp add: proper_out_def new_connection_def)
  show "texts os \<longrightarrow> proper_out c1"
    if "texts os \<longrightarrow> proper_out c" "conn_exec os ended ev b c = CNext b1 c1" for os c ended ev b b1 c1
    using that conn_exec_proper by blast
qed simp

text \<open>
  C33. What the server writes is well formed: in every reachable state, every value that was sent
  on any connection decodes to a response of the current protocol version that has an error text
  exactly when it does not report success.
\<close>

theorem responses_well_formed:
  assumes "texts os" and "runServer os cfg order w = Some (Inr s0)" and "sv_reaches allowed s0 s"
    and "sv_conns s n = Some c" and "v \<in> set (cn_out c)"
  shows "\<exists>r. dec_response v zero_response = Some r \<and> rs_Version r = 1 \<and> (rs_Success r \<longleftrightarrow> rs_Error r = '''')"
proof -
  from assms(2) obtain b where "s0 = New os (booted (Start b))"
    by (auto simp: runServer_def split: option.splits prod.splits)
  with replies.server_reach assms(1,3,4) have "proper_out c" by blast
  with assms(5) show ?thesis by (auto simp: proper_out_def proper_def honest_def CurrentVersion_def)
qed

theorem responses_well_formed_witness:
  "\<exists>s c v r. sv_trace b_safe sample_session sample_server = Some s \<and> sv_conns s 0 = Some c \<and> v \<in> set (cn_out c)
     \<and> dec_response v zero_response = Some r \<and> rs_Version r = 1 \<and> (rs_Success r \<longleftrightarrow> rs_Error r = '''')"
proof -
  obtain s where s: "sv_trace b_safe sample_session sample_server = Some s"
    and "map_option (\<lambda>c. length (cn_out c)) (sv_conns s 0) = Some 1" using sample_session_runs by blast
  then obtain c where c: "sv_conns s 0 = Some c" "length (cn_out c) = 1" by blast
  then obtain v where v: "v \<in> set (cn_out c)" by (cases "cn_out c") auto
  have "texts no_text" by (simp add: texts_def)
  from responses_well_formed [OF this sample_runServer sv_trace_reaches [OF s] c(1) v] s c(1) v show ?thesis by blast
qed

end
