(* ===== verification/Logger.thy ===== *)
theory Logger
  imports Prelude
begin

text \<open>
  The logger of \<open>internal/logger\<close>: levels, the plain-text format, the console and file appenders,
  the chain of level handlers and the instance that the program builds from them.

  Handlers are heap objects that point to their successor; a configuration holds the addresses of
  the three it made. \<open>log_io\<close> is what the appenders write to: the lines handed to standard output
  and the text of the log file. The \<open>n\<close>-th write to the file succeeds when \<open>li_writes n\<close> is \<open>None\<close>
  and fails after \<open>k\<close> characters when it is \<open>Some k\<close>. A time is the number of nanoseconds since Go's
  zero time, of a year up to 9999, shown in a zone that is \<open>tz\<close> seconds ahead of UTC. \<open>fmt.Sprintf\<close> is an argument of the
  methods that format. \<open>JsonFormatter\<close> has no caller and works on the text of JSON, which is not
  modelled.
\<close>

subsection \<open>Levels and messages\<close>

definition INFO :: int where "INFO = 0"
definition WARN :: int where "WARN = 1"
definition ERROR :: int where "ERROR = 2"

lemmas levels = INFO_def WARN_def ERROR_def

record log_message =
  lm_Level :: int
  lm_Message :: string
  lm_Timestamp :: int

definition level_String :: "int \<Rightarrow> string" where
  "level_String l =
     (if l = INFO then ''INFO'' else if l = WARN then ''WARN'' else if l = ERROR then ''ERROR'' else ''INFO'')"

subsection \<open>The plain-text format\<close>

fun digits :: "nat \<Rightarrow> nat \<Rightarrow> string" where
  "digits 0 n = []"
| "digits (Suc w) n = digits w (n div 10) @ [char_of (48 + n mod 10)]"

definition leap :: "int \<Rightarrow> bool" where
  "leap y \<longleftrightarrow> y mod 4 = 0 \<and> (y mod 100 \<noteq> 0 \<or> y mod 400 = 0)"

definition month_lengths :: "int \<Rightarrow> int list" where
  "month_lengths y = [31, if leap y then 29 else 28, 31, 30, 31, 30, 31, 31, 30, 31, 30, 31]"

fun month_and_day :: "int list \<Rightarrow> int \<Rightarrow> int \<Rightarrow> int \<times> int" where
  "month_and_day [] m d = (m, d)"
| "month_and_day (l # ls) m d = (if d < l then (m, d) else month_and_day ls (m + 1) (d - l))"

text \<open>The date of a day, counted from the first of January of year 1.\<close>

definition date_of :: "int \<Rightarrow> int \<times> int \<times> int" where
  "date_of day =
     (let n400 = day div 146097; r400 = day mod 146097;
          n100 = min 3 (r400 div 36524); r100 = r400 - n100 * 36524;
          n4 = r100 div 1461; r4 = r100 mod 1461;
          n1 = min 3 (r4 div 365);
          y = 400 * n400 + 100 * n100 + 4 * n4 + n1 + 1;
          (m, d) = month_and_day (month_lengths y) 1 (r4 - n1 * 365)
      in (y, m, d + 1))"

definition time_Format :: "int \<Rightarrow> int \<Rightarrow> string" where
  "time_Format tz t =
     (let s = t div 1000000000 + tz; (y, m, d) = date_of (s div 86400); r = s mod 86400
      in digits 4 (nat y) @ ''-'' @ digits 2 (nat m) @ ''-'' @ digits 2 (nat d) @ '' '' @
         digits 2 (nat (r div 3600)) @ '':'' @ digits 2 (nat (r mod 3600 div 60)) @ '':'' @ digits 2 (nat (r mod 60)))"

definition plain_Format :: "int \<Rightarrow> log_message \<Rightarrow> string" where
  "plain_Format tz m =
     time_Format tz (lm_Timestamp m) @ '' ['' @ level_String (lm_Level m) @ ''] - '' @ lm_Message m"

lemma date_of_samples:
  "date_of 0 = (1, 1, 1)" "date_of 719162 = (1970, 1, 1)" "date_of 730178 = (2000, 2, 29)"
  "date_of 693653 = (1900, 2, 28)" "date_of 693654 = (1900, 3, 1)" "date_of 738884 = (2023, 12, 31)"
  by (simp_all add: date_of_def month_lengths_def leap_def min_def)

lemma time_Format_sample: "time_Format 3600 (63871387205 * 1000000000) = ''2025-01-02 05:00:05''"
  by code_simp

subsection \<open>Appenders\<close>

datatype appender = ConsoleAppender | FileAppender

text \<open>\<open>opened\<close> is the outcome of \<open>os.OpenFile\<close>, \<open>Some\<close> of the error's text when it failed.\<close>

definition NewFileAppender :: "string option \<Rightarrow> string + appender" where
  "NewFileAppender opened =
     (case opened of Some e \<Rightarrow> Inl (''failed to open log file: '' @ e) | None \<Rightarrow> Inr FileAppender)"

definition newline :: string where
  "newline = [CHR 0x0A]"

record log_io =
  li_tz :: int
  li_console :: "string list"
  li_file :: string
  li_writes :: "nat \<Rightarrow> nat option"
  li_attempts :: nat

text \<open>The result says whether \<open>Append\<close> returned an error.\<close>

definition console_Append :: "log_message \<Rightarrow> log_io \<Rightarrow> bool \<times> log_io" where
  "console_Append m io = (False, io\<lparr>li_console := li_console io @ [plain_Format (li_tz io) m]\<rparr>)"

definition file_Append :: "log_message \<Rightarrow> log_io \<Rightarrow> bool \<times> log_io" where
  "file_Append m io =
     (let io1 = io\<lparr>li_attempts := li_attempts io + 1\<rparr>; line = plain_Format (li_tz io) m @ newline
      in case li_writes io (li_attempts io) of
           None \<Rightarrow> (False, io1\<lparr>li_file := li_file io @ line\<rparr>)
         | Some k \<Rightarrow> (True, io1\<lparr>li_file := li_file io @ take k line\<rparr>))"

fun Append :: "appender \<Rightarrow> log_message \<Rightarrow> log_io \<Rightarrow> bool \<times> log_io" where
  "Append ConsoleAppender m io = console_Append m io"
| "Append FileAppender m io = file_Append m io"

subsection \<open>Handlers\<close>

datatype log_filter = ErrorHandler | InfoHandler | WarnHandler

record log_handler =
  lh_next :: "nat option"
  lh_appenders :: "appender list"
  lh_filter :: log_filter

type_synonym handlers = "nat \<Rightarrow> log_handler option"

definition error_CanHandle :: "int \<Rightarrow> bool" where
  "error_CanHandle level \<longleftrightarrow> level = ERROR"

definition info_CanHandle :: "int \<Rightarrow> bool" where
  "info_CanHandle level \<longleftrightarrow> level = INFO"

definition warn_CanHandle :: "int \<Rightarrow> bool" where
  "warn_CanHandle level \<longleftrightarrow> level = WARN"

fun CanHandle :: "log_filter \<Rightarrow> int \<Rightarrow> bool" where
  "CanHandle ErrorHandler level = error_CanHandle level"
| "CanHandle InfoHandler level = info_CanHandle level"
| "CanHandle WarnHandler level = warn_CanHandle level"

lemmas can_handle = error_CanHandle_def info_CanHandle_def warn_CanHandle_def

definition NewLogHandler :: "log_filter \<Rightarrow> nat option \<Rightarrow> log_handler" where
  "NewLogHandler f next = \<lparr>lh_next = next, lh_appenders = [], lh_filter = f\<rparr>"

definition lh_Subscribe :: "nat \<Rightarrow> appender \<Rightarrow> handlers \<Rightarrow> handlers" where
  "lh_Subscribe a observer hs =
     (case hs a of
        None \<Rightarrow> hs
      | Some h \<Rightarrow> hs(a \<mapsto> h\<lparr>lh_appenders := lh_appenders h @ [observer]\<rparr>))"

fun NotifyObservers :: "appender list \<Rightarrow> log_message \<Rightarrow> log_io \<Rightarrow> log_io" where
  "NotifyObservers [] m io = io"
| "NotifyObservers (x # xs) m io = NotifyObservers xs m (snd (Append x m io))"

text \<open>
  \<open>Handle\<close> follows the chain of successors; the fuel bounds the number of handlers visited and
  \<open>None\<close> is a chain that is longer.
\<close>

fun Handle :: "nat \<Rightarrow> handlers \<Rightarrow> nat \<Rightarrow> log_message \<Rightarrow> log_io \<Rightarrow> log_io option" where
  "Handle 0 hs a m io = None"
| "Handle (Suc fuel) hs a m io =
     (case hs a of
        None \<Rightarrow> None
      | Some h \<Rightarrow>
          (let io1 = (if CanHandle (lh_filter h) (lm_Level m) then NotifyObservers (lh_appenders h) m io else io)
           in case lh_next h of None \<Rightarrow> Some io1 | Some a1 \<Rightarrow> Handle fuel hs a1 m io1))"

subsection \<open>Configuration\<close>

record log_configuration =
  lc_heap :: handlers
  errHandler :: nat
  warnHandler :: nat
  infoHandler :: nat

definition NewLogHandlerConfiguration :: log_configuration where
  "NewLogHandlerConfiguration =
     \<lparr>lc_heap = [0 \<mapsto> NewLogHandler ErrorHandler None, 1 \<mapsto> NewLogHandler WarnHandler (Some 0), 2 \<mapsto> NewLogHandler InfoHandler (Some 1)],
      errHandler = 0, warnHandler = 1, infoHandler = 2\<rparr>"

definition Build :: "log_configuration \<Rightarrow> nat" where
  "Build lc = infoHandler lc"

definition AddAppenderForLevel :: "int \<Rightarrow> appender \<Rightarrow> log_configuration \<Rightarrow> log_configuration" where
  "AddAppenderForLevel level x lc =
     (if level = INFO then lc\<lparr>lc_heap := lh_Subscribe (infoHandler lc) x (lc_heap lc)\<rparr>
      else if level = WARN then lc\<lparr>lc_heap := lh_Subscribe (warnHandler lc) x (lc_heap lc)\<rparr>
      else if level = ERROR then lc\<lparr>lc_heap := lh_Subscribe (errHandler lc) x (lc_heap lc)\<rparr>
      else lc)"

subsection \<open>The logger\<close>

record logger =
  lg_cfg :: log_configuration
  handlerChain :: nat

definition log :: "logger \<Rightarrow> int \<Rightarrow> string \<Rightarrow> int \<Rightarrow> log_io \<Rightarrow> log_io option" where
  "log l level message now io =
     Handle 3 (lc_heap (lg_cfg l)) (handlerChain l) \<lparr>lm_Level = level, lm_Message = message, lm_Timestamp = now\<rparr> io"

definition log_Info :: "logger \<Rightarrow> string \<Rightarrow> int \<Rightarrow> log_io \<Rightarrow> log_io option" where
  "log_Info l message = log l INFO message"

definition log_Warn :: "logger \<Rightarrow> string \<Rightarrow> int \<Rightarrow> log_io \<Rightarrow> log_io option" where
  "log_Warn l message = log l WARN message"

definition log_Error :: "logger \<Rightarrow> string \<Rightarrow> int \<Rightarrow> log_io \<Rightarrow> log_io option" where
  "log_Error l message = log l ERROR message"

text \<open>The formatting methods; \<open>os.Exit\<close> is the status that accompanies the result.\<close>

definition log_Infof :: "(string \<Rightarrow> 'v list \<Rightarrow> string) \<Rightarrow> logger \<Rightarrow> string \<Rightarrow> 'v list \<Rightarrow> int \<Rightarrow> log_io \<Rightarrow> log_io option" where
  "log_Infof Sprintf l format args = log l INFO (Sprintf format args)"

definition log_Warnf :: "(string \<Rightarrow> 'v list \<Rightarrow> string) \<Rightarrow> logger \<Rightarrow> string \<Rightarrow> 'v list \<Rightarrow> int \<Rightarrow> log_io \<Rightarrow> log_io option" where
  "log_Warnf Sprintf l format args = log l WARN (Sprintf format args)"

definition log_Errorf :: "(string \<Rightarrow> 'v list \<Rightarrow> string) \<Rightarrow> logger \<Rightarrow> string \<Rightarrow> 'v list \<Rightarrow> int \<Rightarrow> log_io \<Rightarrow> log_io option" where
  "log_Errorf Sprintf l format args = log l ERROR (Sprintf format args)"

definition log_Fatal :: "logger \<Rightarrow> string \<Rightarrow> int \<Rightarrow> log_io \<Rightarrow> (log_io \<times> nat) option" where
  "log_Fatal l message now io = map_option (\<lambda>io1. (io1, 1)) (log_Error l message now io)"

definition log_Fatalf :: "(string \<Rightarrow> 'v list \<Rightarrow> string) \<Rightarrow> logger \<Rightarrow> string \<Rightarrow> 'v list \<Rightarrow> int \<Rightarrow> log_io \<Rightarrow> (log_io \<times> nat) option" where
  "log_Fatalf Sprintf l format args now io = map_option (\<lambda>io1. (io1, 1)) (log_Errorf Sprintf l format args now io)"

text \<open>
  \<open>GetInstance\<close>: \<open>inst\<close> is the variable \<open>instance\<close>, set by the first call. The text of its warning,
  formatted by the verb that shows an error, is the prefix and the error.
\<close>

definition console_config :: log_configuration where
  "console_config = AddAppenderForLevel ERROR ConsoleAppender (AddAppenderForLevel WARN ConsoleAppender
     (AddAppenderForLevel INFO ConsoleAppender NewLogHandlerConfiguration))"

definition GetInstance :: "logger option \<Rightarrow> string option \<Rightarrow> int \<Rightarrow> log_io \<Rightarrow> (logger \<times> log_io) option" where
  "GetInstance inst opened now io =
     (case inst of
        Some l \<Rightarrow> Some (l, io)
      | None \<Rightarrow>
          let file = NewFileAppender opened;
              config = (case file of
                  Inr x \<Rightarrow> AddAppenderForLevel ERROR x (AddAppenderForLevel WARN x console_config)
                | Inl _ \<Rightarrow> console_config);
              l = \<lparr>lg_cfg = config, handlerChain = Build config\<rparr>
          in case file of
               Inr _ \<Rightarrow> Some (l, io)
             | Inl err \<Rightarrow> map_option (Pair l) (log_Warn l (''file logging disabled: '' @ err) now io))"

subsection \<open>Who gets a message\<close>

text \<open>
  A configuration after a sequence of \<open>AddAppenderForLevel\<close>: handling a message notifies exactly
  the appenders that were added for its level, each as often as it was added and in that order.
\<close>

definition configured :: "(int \<times> appender) list \<Rightarrow> log_configuration" where
  "configured adds = fold (\<lambda>(level, x). AddAppenderForLevel level x) adds NewLogHandlerConfiguration"

definition added :: "(int \<times> appender) list \<Rightarrow> int \<Rightarrow> appender list" where
  "added adds level = map snd (filter (\<lambda>p. fst p = level) adds)"

lemma added_append: "added (adds @ [p]) level = added adds level @ (if fst p = level then [snd p] else [])"
  by (simp add: added_def)

lemma configured_heap:
  "errHandler (configured adds) = 0 \<and> warnHandler (configured adds) = 1 \<and> infoHandler (configured adds) = 2 \<and>
   lc_heap (configured adds) = [0 \<mapsto> (NewLogHandler ErrorHandler None)\<lparr>lh_appenders := added adds ERROR\<rparr>,
     1 \<mapsto> (NewLogHandler WarnHandler (Some 0))\<lparr>lh_appenders := added adds WARN\<rparr>,
     2 \<mapsto> (NewLogHandler InfoHandler (Some 1))\<lparr>lh_appenders := added adds INFO\<rparr>]"
proof (induction adds rule: rev_induct)
  case Nil
  show ?case by (auto simp: configured_def NewLogHandlerConfiguration_def NewLogHandler_def added_def fun_eq_iff)
next
  case (snoc p adds)
  obtain level x where p: "p = (level, x)" by (cases p)
  have step: "configured (adds @ [p]) = AddAppenderForLevel level x (configured adds)" by (simp add: configured_def p)
  show ?case unfolding step
    using snoc by (auto simp: AddAppenderForLevel_def lh_Subscribe_def added_append p levels fun_eq_iff)
qed

lemma Handle_configured:
  "Handle 3 (lc_heap (configured adds)) (Build (configured adds)) m io =
     Some (if lm_Level m \<in> {INFO, WARN, ERROR} then NotifyObservers (added adds (lm_Level m)) m io else io)"
  using configured_heap [of adds]
  by (simp add: numeral_3_eq_3 Build_def can_handle NewLogHandler_def levels)

text \<open>The instance is the chain that these additions configure.\<close>

definition instance_adds :: "bool \<Rightarrow> (int \<times> appender) list" where
  "instance_adds file = [(INFO, ConsoleAppender), (WARN, ConsoleAppender), (ERROR, ConsoleAppender)]
     @ (if file then [(WARN, FileAppender), (ERROR, FileAppender)] else [])"

lemma added_instance:
  "added (instance_adds file) level = (if level \<in> {INFO, WARN, ERROR}
     then ConsoleAppender # (if file \<and> level \<noteq> INFO then [FileAppender] else []) else [])"
  by (auto simp: added_def instance_adds_def levels)

definition the_logger :: "bool \<Rightarrow> logger" where
  "the_logger file = \<lparr>lg_cfg = configured (instance_adds file), handlerChain = Build (configured (instance_adds file))\<rparr>"

lemma log_instance:
  "log (the_logger file) level message now io =
     Some (if level \<in> {INFO, WARN, ERROR}
       then NotifyObservers (added (instance_adds file) level) \<lparr>lm_Level = level, lm_Message = message, lm_Timestamp = now\<rparr> io
       else io)"
  by (simp add: log_def the_logger_def Handle_configured)

definition disabled :: "string \<Rightarrow> int \<Rightarrow> log_message" where
  "disabled e now =
     \<lparr>lm_Level = WARN, lm_Message = ''file logging disabled: failed to open log file: '' @ e, lm_Timestamp = now\<rparr>"

lemma GetInstance_eq:
  "GetInstance None opened now io = Some (the_logger (opened = None),
     case opened of None \<Rightarrow> io | Some e \<Rightarrow> snd (console_Append (disabled e now) io))"
proof (cases opened)
  case None
  then show ?thesis
    by (simp add: GetInstance_def NewFileAppender_def Let_def the_logger_def instance_adds_def configured_def console_config_def)
next
  case (Some e)
  have "the_logger False = \<lparr>lg_cfg = console_config, handlerChain = Build console_config\<rparr>"
    by (simp add: the_logger_def instance_adds_def configured_def console_config_def)
  with log_instance [of False WARN] show ?thesis
    by (simp add: GetInstance_def NewFileAppender_def Let_def log_Warn_def Some added_instance disabled_def)
qed

text \<open>
  C40. The logger: the first GetInstance always builds a logger, later calls return the same one and
  write nothing. Each message at one of the three levels becomes exactly one line on the console
  and, at WARN and ERROR with the log file open, one line in the file, or the part of it that was
  written before the write failed; a message of any other level is dropped. A file that cannot be
  opened costs one warning on the console.
\<close>

theorem logger_writes:
  "\<exists>l io0. GetInstance None opened t0 io = Some (l, io0)
    \<and> GetInstance (Some l) opened t0 io0 = Some (l, io0)
    \<and> li_console io0 = li_console io @ (case opened of None \<Rightarrow> [] | Some e \<Rightarrow> [plain_Format (li_tz io) (disabled e t0)])
    \<and> (\<exists>io1. log l level message now io0 = Some io1
      \<and> (let line = plain_Format (li_tz io) \<lparr>lm_Level = level, lm_Message = message, lm_Timestamp = now\<rparr>;
             known = level \<in> {INFO, WARN, ERROR}
         in li_console io1 = li_console io0 @ (if known then [line] else [])
           \<and> li_file io1 = li_file io0 @ (if known \<and> level \<noteq> INFO \<and> opened = None
               then (case li_writes io0 (li_attempts io0) of None \<Rightarrow> line @ newline | Some k \<Rightarrow> take k (line @ newline))
               else [])))"
  unfolding GetInstance_eq
  by (cases opened)
    (simp_all add: GetInstance_def log_instance added_instance console_Append_def file_Append_def Let_def split: option.splits)

end
