(* ===== verification/Client.thy ===== *)
theory Client
  imports Server_Properties
begin

text \<open>
  The client library of \<open>client/\<close>: the producer with its request-response calls, the consumer with
  its stream of deliveries, and what they get from the server of \<open>Connection_Handler\<close>.

  What the socket does is a parameter: \<open>bc_enc n\<close> is the error of the \<open>n\<close>-th write (or none) and
  \<open>bc_dec n\<close> the \<open>n\<close>-th JSON value that arrives, or the error of reading it (a timeout, the end of the
  stream, text that is not JSON). A \<open>json.Encoder\<close> and a \<open>json.Decoder\<close> that have met such an error
  return it ever after; a value of the wrong shape is skipped and is an error of that call only.
  \<open>bad_value\<close> is the text of the latter. A context is the sequence of its answers: at the \<open>n\<close>-th look
  it is alive, or it has ended with an error. Errors are their texts.
\<close>

subsection \<open>The connection of a client\<close>

record base_client =
  bc_id :: string
  bc_enc :: "nat \<Rightarrow> string option"
  bc_writes :: nat
  bc_encErr :: "string option"
  bc_sent :: "json list"
  bc_dec :: "nat \<Rightarrow> string + json"
  bc_reads :: nat
  bc_decErr :: "string option"
  bc_closed :: bool

type_synonym ctx = "nat \<Rightarrow> string option"

definition newBaseClient :: "string \<Rightarrow> (nat \<Rightarrow> string option) \<Rightarrow> (nat \<Rightarrow> string + json) \<Rightarrow> base_client" where
  "newBaseClient uuid enc dec =
     \<lparr>bc_id = uuid, bc_enc = enc, bc_writes = 0, bc_encErr = None, bc_sent = [], bc_dec = dec,
      bc_reads = 0, bc_decErr = None, bc_closed = False\<rparr>"

definition bc_Close :: "string option \<Rightarrow> base_client \<Rightarrow> string option \<times> base_client" where
  "bc_Close err c = (err, c\<lparr>bc_closed := True\<rparr>)"

definition bc_Encode :: "request \<Rightarrow> base_client \<Rightarrow> string option \<times> base_client" where
  "bc_Encode req c =
     (case bc_encErr c of
        Some e \<Rightarrow> (Some e, c)
      | None \<Rightarrow>
          (case bc_enc c (bc_writes c) of
             Some e \<Rightarrow> (Some e, c\<lparr>bc_writes := bc_writes c + 1, bc_encErr := Some e\<rparr>)
           | None \<Rightarrow> (None, c\<lparr>bc_writes := bc_writes c + 1, bc_sent := bc_sent c @ [enc_request req]\<rparr>)))"

definition bad_value :: string where
  "bad_value = ''json: cannot unmarshal value''"

definition bc_Decode :: "base_client \<Rightarrow> (string + response) \<times> base_client" where
  "bc_Decode c =
     (case bc_decErr c of
        Some e \<Rightarrow> (Inl e, c)
      | None \<Rightarrow>
          (case bc_dec c (bc_reads c) of
             Inl e \<Rightarrow> (Inl e, c\<lparr>bc_decErr := Some e\<rparr>)
           | Inr v \<Rightarrow>
               (case dec_response v zero_response of None \<Rightarrow> Inl bad_value | Some resp \<Rightarrow> Inr resp,
                c\<lparr>bc_reads := bc_reads c + 1\<rparr>)))"

text \<open>\<open>dialled\<close> is the outcome of \<open>net.Dial\<close>: an error, or a connection.\<close>

definition NewProducer :: "string + (nat \<Rightarrow> string option) \<times> (nat \<Rightarrow> string + json) \<Rightarrow> string \<Rightarrow> string + base_client" where
  "NewProducer dialled uuid =
     (case dialled of Inl e \<Rightarrow> Inl e | Inr (enc, dec) \<Rightarrow> Inr (newBaseClient uuid enc dec))"

definition NewConsumer :: "string + (nat \<Rightarrow> string option) \<times> (nat \<Rightarrow> string + json) \<Rightarrow> string \<Rightarrow> string + base_client" where
  "NewConsumer dialled uuid =
     (case dialled of Inl e \<Rightarrow> Inl e | Inr (enc, dec) \<Rightarrow> Inr (newBaseClient uuid enc dec))"

subsection \<open>The producer\<close>

definition do_request :: "request \<Rightarrow> base_client \<Rightarrow> (string + response) \<times> base_client" where
  "do_request req c =
     (case bc_Encode (req\<lparr>rq_Version := CurrentVersion\<rparr>) c of
        (Some e, c1) \<Rightarrow> (Inl e, c1)
      | (None, c1) \<Rightarrow> bc_Decode c1)"

text \<open>What the methods share: look at the context, do the request, look again on an error.\<close>

definition checked :: "ctx \<Rightarrow> request \<Rightarrow> base_client \<Rightarrow> (string + response) \<times> base_client" where
  "checked ctx req c =
     (case ctx 0 of
        Some e \<Rightarrow> (Inl e, c)
      | None \<Rightarrow>
          (case do_request req c of
             (Inl e, c1) \<Rightarrow> (Inl (case ctx 1 of Some e' \<Rightarrow> e' | None \<Rightarrow> e), c1)
           | (Inr resp, c1) \<Rightarrow> (if rs_Success resp then Inr resp else Inl (rs_Error resp), c1)))"

definition error_of :: "(string + 'a) \<times> 'c \<Rightarrow> string option \<times> 'c" where
  "error_of r = (case fst r of Inl e \<Rightarrow> Some e | Inr _ \<Rightarrow> None, snd r)"

definition result_of :: "('a \<Rightarrow> string + 'b) \<Rightarrow> (string + 'a) \<times> 'c \<Rightarrow> (string + 'b) \<times> 'c" where
  "result_of f r = (case fst r of Inl e \<Rightarrow> Inl e | Inr x \<Rightarrow> f x, snd r)"

definition cl_Publish :: "ctx \<Rightarrow> string \<Rightarrow> string \<Rightarrow> string \<Rightarrow> int \<Rightarrow> base_client \<Rightarrow> string option \<times> base_client" where
  "cl_Publish ctx exchangeName routingKey payload ttl c =
     error_of (checked ctx (zero_request\<lparr>rq_Type := PublishRequest, rq_Exchange := exchangeName,
       rq_RoutingKey := routingKey, rq_Payload := zero_message\<lparr>Payload := payload\<rparr>, rq_TTL := ttl\<rparr>) c)"

definition cl_Metrics :: "ctx \<Rightarrow> base_client \<Rightarrow> (string + broker_metrics) \<times> base_client" where
  "cl_Metrics ctx c =
     result_of (\<lambda>resp. Inr (rs_Metrics resp)) (checked ctx (zero_request\<lparr>rq_Type := MetricsRequest\<rparr>) c)"

definition cl_QueueMetrics :: "ctx \<Rightarrow> string \<Rightarrow> base_client \<Rightarrow> (string + queue_metric) \<times> base_client" where
  "cl_QueueMetrics ctx queueName c =
     result_of (\<lambda>resp.
         case find (\<lambda>q. qm_Name q = queueName) (bm_Queues (rs_Metrics resp)) of
           Some q \<Rightarrow> Inr q
         | None \<Rightarrow> Inl (''queue metrics not found for '' @ queueName))
       (checked ctx (zero_request\<lparr>rq_Type := MetricsRequest, rq_Queue := queueName\<rparr>) c)"

definition cl_CreateQueue :: "ctx \<Rightarrow> string \<Rightarrow> base_client \<Rightarrow> string option \<times> base_client" where
  "cl_CreateQueue ctx name c =
     error_of (checked ctx (zero_request\<lparr>rq_Type := CreateQueueRequest, rq_Queue := name\<rparr>) c)"

definition cl_DeleteQueue :: "ctx \<Rightarrow> string \<Rightarrow> base_client \<Rightarrow> string option \<times> base_client" where
  "cl_DeleteQueue ctx name c =
     error_of (checked ctx (zero_request\<lparr>rq_Type := DeleteQueueRequest, rq_Queue := name\<rparr>) c)"

definition cl_ListQueues :: "ctx \<Rightarrow> base_client \<Rightarrow> (string + string list) \<times> base_client" where
  "cl_ListQueues ctx c =
     result_of (\<lambda>resp. Inr (map qm_Name (case rs_Queues resp of None \<Rightarrow> [] | Some qs \<Rightarrow> qs)))
       (checked ctx (zero_request\<lparr>rq_Type := ListQueuesRequest\<rparr>) c)"

definition cl_BindQueue :: "ctx \<Rightarrow> string \<Rightarrow> string \<Rightarrow> string \<Rightarrow> base_client \<Rightarrow> string option \<times> base_client" where
  "cl_BindQueue ctx exchangeName queueName bindingKey c =
     error_of (checked ctx (zero_request\<lparr>rq_Type := BindQueueRequest, rq_Exchange := exchangeName,
       rq_Queue := queueName, rq_BindingKey := bindingKey\<rparr>) c)"

definition cl_UnbindQueue :: "ctx \<Rightarrow> string \<Rightarrow> string \<Rightarrow> string \<Rightarrow> base_client \<Rightarrow> string option \<times> base_client" where
  "cl_UnbindQueue ctx exchangeName queueName bindingKey c =
     error_of (checked ctx (zero_request\<lparr>rq_Type := UnbindQueueRequest, rq_Exchange := exchangeName,
       rq_Queue := queueName, rq_BindingKey := bindingKey\<rparr>) c)"

definition cl_CreateExchange :: "ctx \<Rightarrow> string \<Rightarrow> string \<Rightarrow> base_client \<Rightarrow> string option \<times> base_client" where
  "cl_CreateExchange ctx exchangeName exchangeType c =
     error_of (checked ctx (zero_request\<lparr>rq_Type := CreateExchangeRequest, rq_Exchange := exchangeName,
       rq_ExchangeType := exchangeType\<rparr>) c)"

definition cl_DeleteExchange :: "ctx \<Rightarrow> string \<Rightarrow> base_client \<Rightarrow> string option \<times> base_client" where
  "cl_DeleteExchange ctx exchangeName c =
     error_of (checked ctx (zero_request\<lparr>rq_Type := DeleteExchangeRequest, rq_Exchange := exchangeName\<rparr>) c)"

definition cl_ListExchanges :: "ctx \<Rightarrow> base_client \<Rightarrow> (string + string list) \<times> base_client" where
  "cl_ListExchanges ctx c =
     result_of (\<lambda>resp. Inr (rs_Exchanges resp)) (checked ctx (zero_request\<lparr>rq_Type := ListExchangesRequest\<rparr>) c)"

subsection \<open>The consumer\<close>

record received_message =
  rm_ID :: string
  rm_Payload :: string
  rm_AckToken :: string

text \<open>
  \<open>watcher_closes\<close> says that the goroutine beside \<open>Receive\<close> saw the end of the context and closed the
  connection.
\<close>

definition co_Receive :: "ctx \<Rightarrow> bool \<Rightarrow> base_client \<Rightarrow> (string + received_message) \<times> base_client" where
  "co_Receive ctx watcher_closes c =
     (case ctx 0 of
        Some e \<Rightarrow> (Inl e, c)
      | None \<Rightarrow>
          (let (r, c1) = bc_Decode (if watcher_closes then c\<lparr>bc_closed := True\<rparr> else c)
           in (case r of
                 Inl e \<Rightarrow> Inl (case ctx 1 of Some e' \<Rightarrow> e' | None \<Rightarrow> e)
               | Inr resp \<Rightarrow>
                   if \<not> rs_Success resp then Inl (rs_Error resp)
                   else Inr \<lparr>rm_ID = ID (rs_Message resp), rm_Payload = Payload (rs_Message resp),
                          rm_AckToken = rs_AckToken resp\<rparr>, c1)))"

definition co_Ack :: "string \<Rightarrow> base_client \<Rightarrow> string option \<times> base_client" where
  "co_Ack token c =
     bc_Encode (zero_request\<lparr>rq_Version := CurrentVersion, rq_Type := AckRequest, rq_AckToken := token\<rparr>) c"

definition co_Subscribe :: "string \<Rightarrow> base_client \<Rightarrow> string option \<times> base_client" where
  "co_Subscribe queueName c =
     bc_Encode (zero_request\<lparr>rq_Version := CurrentVersion, rq_Type := SubscribeRequest, rq_Queue := queueName,
       rq_ID := bc_id c\<rparr>) c"

definition co_Unsubscribe :: "base_client \<Rightarrow> string option \<times> base_client" where
  "co_Unsubscribe c = bc_Encode (zero_request\<lparr>rq_Version := CurrentVersion, rq_Type := UnsubscribeRequest\<rparr>) c"


subsection \<open>Requests and their answers\<close>

text \<open>
  The interface between the client and the server: to a request \<open>req\<close> that it can answer at once
  the server writes the JSON form of \<open>serve req\<close>, and its state becomes the second component.
  \<open>against\<close> runs a call of the client and lets the value that arrives be the server's reply to the
  value that the call sends.
\<close>

definition against :: "(json \<Rightarrow> (json \<times> 'b) option) \<Rightarrow> (base_client \<Rightarrow> 'r \<times> base_client) \<Rightarrow> base_client \<Rightarrow> ('r \<times> 'b) option" where
  "against reply call c =
     (case drop (length (bc_sent c)) (bc_sent (snd (call c))) of
        [v] \<Rightarrow> (case reply v of
                  None \<Rightarrow> None
                | Some (r, b) \<Rightarrow> Some (fst (call (c\<lparr>bc_dec := (bc_dec c)(bc_reads c := Inr r)\<rparr>)), b))
      | _ \<Rightarrow> None)"

definition ready :: "ctx \<Rightarrow> base_client \<Rightarrow> bool" where
  "ready ctx c \<longleftrightarrow> ctx 0 = None \<and> bc_encErr c = None \<and> bc_enc c (bc_writes c) = None \<and> bc_decErr c = None"

definition outcome_of :: "response \<Rightarrow> string + response" where
  "outcome_of resp = (if rs_Success resp then Inr resp else Inl (rs_Error resp))"

lemma bc_Decode_sent: "bc_Decode c = (r, c1) \<Longrightarrow> bc_sent c1 = bc_sent c"
  by (auto simp: bc_Decode_def split: option.splits sum.splits)

lemma checked_sent: "ready ctx c \<Longrightarrow>
    bc_sent (snd (checked ctx req c)) = bc_sent c @ [enc_request (req\<lparr>rq_Version := CurrentVersion\<rparr>)]"
  by (auto simp: ready_def checked_def do_request_def bc_Encode_def split: prod.splits sum.splits dest: bc_Decode_sent)

lemma checked_result: "ready ctx c \<Longrightarrow>
    fst (checked ctx req (c\<lparr>bc_dec := (bc_dec c)(bc_reads c := Inr (enc_response resp))\<rparr>)) = outcome_of resp"
  by (simp add: ready_def checked_def do_request_def bc_Encode_def bc_Decode_def outcome_of_def)

locale request_server =
  fixes reply :: "json \<Rightarrow> (json \<times> 'b) option"
    and serve :: "request \<Rightarrow> (response \<times> 'b) option"
  assumes answered: "serve req = Some (resp, b) \<Longrightarrow>
    reply (enc_request (req\<lparr>rq_Version := CurrentVersion\<rparr>)) = Some (enc_response resp, b)"
begin

lemma checked_call:
  assumes "ready ctx c" and "serve req = Some (resp, b)"
  shows "against reply (checked ctx req) c = Some (outcome_of resp, b)"
  using checked_sent [OF assms(1), of req] checked_result [OF assms(1), of req resp] answered [OF assms(2)]
  by (simp add: against_def)

lemma error_call:
  assumes "ready ctx c" and "serve req = Some (resp, b)"
  shows "against reply (\<lambda>c. error_of (checked ctx req c)) c =
    Some (if rs_Success resp then None else Some (rs_Error resp), b)"
  using checked_sent [OF assms(1), of req] checked_result [OF assms(1), of req resp] answered [OF assms(2)]
  by (simp add: against_def error_of_def outcome_of_def)

lemma result_call:
  assumes "ready ctx c" and "serve req = Some (resp, b)"
  shows "against reply (\<lambda>c. result_of f (checked ctx req c)) c =
    Some (if rs_Success resp then f resp else Inl (rs_Error resp), b)"
  using checked_sent [OF assms(1), of req] checked_result [OF assms(1), of req resp] answered [OF assms(2)]
  by (simp add: against_def result_of_def outcome_of_def)

end

text \<open>
  The server as a provider of that interface: a connection whose handler is about to read a request
  and whose next write succeeds.
\<close>

definition healthy :: "connection \<Rightarrow> bool" where
  "healthy c \<longleftrightarrow> cn_phase c = Decoding \<and> \<not> cn_closed c \<and> \<not> cn_broken c \<and> cn_writes c (cn_attempts c) = WriteOk"

definition server_reply :: "(err \<Rightarrow> string) \<Rightarrow> nat \<Rightarrow> string list \<Rightarrow> broker \<Rightarrow> connection \<Rightarrow> json \<Rightarrow> (json \<times> broker) option" where
  "server_reply os sess order b c v =
     (case handle_value os v sess order b c of
        CNext b1 c1 \<Rightarrow> (case drop (length (cn_out c)) (cn_out c1) of [r] \<Rightarrow> Some (r, b1) | _ \<Rightarrow> None)
      | _ \<Rightarrow> None)"

definition serves :: "(err \<Rightarrow> string) \<Rightarrow> nat \<Rightarrow> string list \<Rightarrow> broker \<Rightarrow> connection \<Rightarrow> request \<Rightarrow> (response \<times> broker) option" where
  "serves os sess order b c req =
     (if healthy c then
        (case dispatch os sess order (cn_stop c \<noteq> None) (req\<lparr>rq_Version := CurrentVersion\<rparr>) b of
           Some (Respond resp, b1) \<Rightarrow> Some (resp\<lparr>rs_Version := CurrentVersion\<rparr>, b1)
         | _ \<Rightarrow> None)
      else None)"

lemma healthy_respond:
  assumes "healthy c"
  shows "\<exists>c1. respond resp c = Some c1 \<and> cn_phase c1 = Top
    \<and> cn_out c1 = cn_out c @ [enc_response (resp\<lparr>rs_Version := CurrentVersion\<rparr>)]"
  using assms by (simp add: healthy_def respond_def encode_def Let_def)

interpretation srv: request_server "server_reply os sess order b c" "serves os sess order b c" for os sess order b c
proof
  fix req resp b1
  assume *: "serves os sess order b c req = Some (resp, b1)"
  let ?req = "req\<lparr>rq_Version := CurrentVersion\<rparr>"
  from * obtain r where h: "healthy c" and d: "dispatch os sess order (cn_stop c \<noteq> None) ?req b = Some (Respond r, b1)"
    and r: "resp = r\<lparr>rs_Version := CurrentVersion\<rparr>"
    by (auto simp: serves_def split: if_splits option.splits action.splits)
  obtain c1 where "respond r c = Some c1" "cn_out c1 = cn_out c @ [enc_response resp]"
    using healthy_respond [OF h, of r] r by auto
  with d show "server_reply os sess order b c (enc_request ?req) = Some (enc_response resp, b1)"
    by (simp add: server_reply_def handle_value_def supported_def acts_def follow_def goes_on_def)
qed


text \<open>The responses that the methods wait for.\<close>

lemma serves_request:
  assumes "healthy cn"
  shows "Publish ex key m ttl b = Some (PubDone e, b') \<Longrightarrow>
      serves os sess order b cn (zero_request\<lparr>rq_Type := PublishRequest, rq_Exchange := ex, rq_RoutingKey := key,
        rq_Payload := m, rq_TTL := ttl\<rparr>) = Some ((status os e)\<lparr>rs_Version := CurrentVersion\<rparr>, b')"
    and "CreateQueue n b = Some (e, b') \<Longrightarrow>
      serves os sess order b cn (zero_request\<lparr>rq_Type := CreateQueueRequest, rq_Queue := n\<rparr>)
        = Some ((status os e)\<lparr>rs_Version := CurrentVersion\<rparr>, b')"
    and "DeleteQueue order n b = Some (e, b') \<Longrightarrow>
      serves os sess order b cn (zero_request\<lparr>rq_Type := DeleteQueueRequest, rq_Queue := n\<rparr>)
        = Some ((status os e)\<lparr>rs_Version := CurrentVersion\<rparr>, b')"
    and "BindQueue ex n key b = (e, b') \<Longrightarrow>
      serves os sess order b cn (zero_request\<lparr>rq_Type := BindQueueRequest, rq_Exchange := ex, rq_Queue := n,
        rq_BindingKey := key\<rparr>) = Some ((status os e)\<lparr>rs_Version := CurrentVersion\<rparr>, b')"
    and "UnbindQueue ex n key b = (e, b') \<Longrightarrow>
      serves os sess order b cn (zero_request\<lparr>rq_Type := UnbindQueueRequest, rq_Exchange := ex, rq_Queue := n,
        rq_BindingKey := key\<rparr>) = Some ((status os e)\<lparr>rs_Version := CurrentVersion\<rparr>, b')"
    and "CreateExchange ex ty b = (e, b') \<Longrightarrow>
      serves os sess order b cn (zero_request\<lparr>rq_Type := CreateExchangeRequest, rq_Exchange := ex,
        rq_ExchangeType := ty\<rparr>) = Some ((status os e)\<lparr>rs_Version := CurrentVersion\<rparr>, b')"
    and "DeleteExchange ex b = (e, b') \<Longrightarrow>
      serves os sess order b cn (zero_request\<lparr>rq_Type := DeleteExchangeRequest, rq_Exchange := ex\<rparr>)
        = Some ((status os e)\<lparr>rs_Version := CurrentVersion\<rparr>, b')"
  using assms
  by (simp_all add: serves_def dispatch_def dispatch_admin_def published_def answer_def request_types)

lemma serves_report:
  assumes "healthy cn"
  shows "Metrics b = Some bm \<Longrightarrow> serves os sess order b cn (zero_request\<lparr>rq_Type := MetricsRequest\<rparr>)
      = Some (success\<lparr>rs_Metrics := bm, rs_Version := CurrentVersion\<rparr>, b)"
    and "n \<noteq> '''' \<Longrightarrow> QueueMetrics n b = Some r \<Longrightarrow>
      serves os sess order b cn (zero_request\<lparr>rq_Type := MetricsRequest, rq_Queue := n\<rparr>)
        = Some ((queue_report os n r)\<lparr>rs_Version := CurrentVersion\<rparr>, b)"
    and "serves os sess order b cn (zero_request\<lparr>rq_Type := ListQueuesRequest\<rparr>)
      = Some (success\<lparr>rs_Queues := Some (map (\<lambda>n. \<lparr>qm_Name = n, qm_Metric = zero_metric\<rparr>) (ListQueues b)),
          rs_Version := CurrentVersion\<rparr>, b)"
    and "serves os sess order b cn (zero_request\<lparr>rq_Type := ListExchangesRequest\<rparr>)
      = Some (success\<lparr>rs_Exchanges := ListExchanges b, rs_Version := CurrentVersion\<rparr>, b)"
  using assms
  by (simp_all add: serves_def dispatch_def dispatch_admin_def handle_metrics_def request_types zero_request_def success_def)

lemmas producer_methods =
  cl_Publish_def [abs_def] cl_CreateQueue_def [abs_def] cl_DeleteQueue_def [abs_def] cl_BindQueue_def [abs_def]
  cl_UnbindQueue_def [abs_def] cl_CreateExchange_def [abs_def] cl_DeleteExchange_def [abs_def]
  cl_Metrics_def [abs_def] cl_QueueMetrics_def [abs_def] cl_ListQueues_def [abs_def] cl_ListExchanges_def [abs_def]

lemma status_outcome:
  "(if rs_Success (status os e) then None else Some (rs_Error ((status os e)\<lparr>rs_Version := v\<rparr>)))
     = map_option (Error os) e"
  by (cases e) (simp_all add: status_def errorString_def)



abbreviation alive :: ctx where
  "alive \<equiv> \<lambda>_. None"

abbreviation sample_conn :: connection where
  "sample_conn \<equiv> (new_connection (\<lambda>_. WriteOk))\<lparr>cn_phase := Decoding\<rparr>"

abbreviation sample_client :: base_client where
  "sample_client \<equiv> newBaseClient ''c1'' (\<lambda>_. None) (\<lambda>_. Inl ''EOF'')"

lemma sample_ready: "healthy sample_conn" "ready alive sample_client"
  by (simp_all add: healthy_def ready_def new_connection_def newBaseClient_def)


subsection \<open>Responses stay in step with requests\<close>

fun do_all :: "request list \<Rightarrow> base_client \<Rightarrow> (string + response) list \<times> base_client" where
  "do_all [] c = ([], c)"
| "do_all (req # reqs) c =
     (case do_request req c of (r, c1) \<Rightarrow> (case do_all reqs c1 of (rs, c2) \<Rightarrow> (r # rs, c2)))"

text \<open>
  As long as neither end has failed, as many values have been read as requests were sent; once one
  has failed every later call returns an error.
\<close>

definition dead :: "base_client \<Rightarrow> bool" where
  "dead c \<longleftrightarrow> bc_encErr c \<noteq> None \<or> bc_decErr c \<noteq> None"

definition in_step :: "base_client \<Rightarrow> bool" where
  "in_step c \<longleftrightarrow> dead c \<or> bc_reads c = length (bc_sent c)"

lemma do_request_step:
  assumes "in_step c" and "do_request req c = (r, c1)"
  shows "in_step c1" and "bc_dec c1 = bc_dec c" and "dead c \<Longrightarrow> dead c1 \<and> (\<exists>e. r = Inl e)"
    and "\<not> dead c1 \<Longrightarrow> bc_sent c1 = bc_sent c @ [enc_request (req\<lparr>rq_Version := CurrentVersion\<rparr>)]"
    and "r = Inr resp \<Longrightarrow> \<not> dead c1 \<and> (\<exists>v. bc_dec c (length (bc_sent c)) = Inr v \<and> dec_response v zero_response = Some resp)"
  using assms
  by (auto simp: do_request_def bc_Encode_def bc_Decode_def in_step_def dead_def split: option.splits sum.splits)

lemma do_all_dead:
  "dead c \<Longrightarrow> do_all reqs c = (rs, c1) \<Longrightarrow> dead c1 \<and> length rs = length reqs \<and> (\<forall>r \<in> set rs. \<exists>e. r = Inl e)"
proof (induction reqs arbitrary: c rs)
  case (Cons req reqs)
  from Cons.prems(2) obtain r c2 rs' where r: "do_request req c = (r, c2)" "do_all reqs c2 = (rs', c1)" "rs = r # rs'"
    by (auto split: prod.splits)
  have "in_step c" using Cons.prems(1) by (simp add: in_step_def)
  from do_request_step(3) [OF this r(1) Cons.prems(1)] Cons.IH [OF _ r(2)] r(3) show ?case by auto
qed simp

lemma do_all_prefix: "do_all reqs c = (rs, c1) \<Longrightarrow> \<exists>zs. bc_sent c1 = bc_sent c @ zs"
proof (induction reqs arbitrary: c rs)
  case (Cons req reqs)
  from Cons.prems obtain r c2 rs' where r: "do_request req c = (r, c2)" "do_all reqs c2 = (rs', c1)"
    by (auto split: prod.splits)
  from r(1) have "\<exists>ys. bc_sent c2 = bc_sent c @ ys"
    by (auto simp: do_request_def bc_Encode_def bc_Decode_def split: option.splits sum.splits)
  with Cons.IH [OF r(2)] show ?case by auto
qed simp

lemma do_all_in_step:
  assumes "in_step c" and "do_all reqs c = (rs, c1)" and "i < length rs" and "rs ! i = Inr resp"
  shows "(\<exists>v. bc_dec c (length (bc_sent c) + i) = Inr v \<and> dec_response v zero_response = Some resp)
    \<and> bc_sent c1 ! (length (bc_sent c) + i) = enc_request ((reqs ! i)\<lparr>rq_Version := CurrentVersion\<rparr>)"
  using assms
proof (induction reqs arbitrary: c rs i)
  case (Cons req reqs)
  from Cons.prems(2) obtain r c2 rs' where r: "do_request req c = (r, c2)" "do_all reqs c2 = (rs', c1)" "rs = r # rs'"
    by (auto split: prod.splits)
  note s = do_request_step [OF Cons.prems(1) r(1)]
  show ?case
  proof (cases i)
    case 0
    with Cons.prems(4) r(3) have "r = Inr resp" by simp
    from s(5) [OF this] s(4) do_all_prefix [OF r(2)] 0 show ?thesis by (auto simp: nth_append)
  next
    case (Suc j)
    with Cons.prems(3,4) r(3) have j: "j < length rs'" "rs' ! j = Inr resp" by simp_all
    have "\<not> dead c2"
    proof
      assume "dead c2"
      with do_all_dead [OF _ r(2)] nth_mem [OF j(1)] j(2) show False by auto
    qed
    from Cons.IH [OF s(1) r(2) j] s(2) s(4) [OF this] Suc show ?thesis by simp
  qed
qed simp

text \<open>
  C35. No answer is taken for another's: in any sequence of calls on one connection, whatever
  errors and timeouts occur, a call that returns a response has sent its request at its own
  position and returns the value that arrived at that position; a late response is never taken for
  the answer to a later request.
\<close>

theorem responses_match_requests:
  assumes "do_all reqs (newBaseClient uuid enc dec) = (rs, c)" and "i < length rs" and "rs ! i = Inr resp"
  shows "bc_sent c ! i = enc_request ((reqs ! i)\<lparr>rq_Version := CurrentVersion\<rparr>)
    \<and> (\<exists>v. dec i = Inr v \<and> dec_response v zero_response = Some resp)"
proof -
  have "in_step (newBaseClient uuid enc dec)" by (simp add: in_step_def newBaseClient_def)
  from do_all_in_step [OF this assms] show ?thesis by (simp add: newBaseClient_def)
qed

theorem responses_match_requests_witness:
  "\<exists>rs c. do_all [zero_request, zero_request\<lparr>rq_Type := ListQueuesRequest\<rparr>, zero_request]
       (newBaseClient ''c1'' (\<lambda>_. None) (\<lambda>n. if n < 2 then Inr (enc_response success) else Inl ''timeout'')) = (rs, c)
     \<and> rs ! 1 = Inr success \<and> rs ! 2 = Inl ''timeout''
     \<and> bc_sent c ! 1 = enc_request (zero_request\<lparr>rq_Type := ListQueuesRequest, rq_Version := CurrentVersion\<rparr>)"
proof -
  let ?c0 = "newBaseClient ''c1'' (\<lambda>_. None) (\<lambda>n. if n < 2 then Inr (enc_response success) else Inl ''timeout'')"
  let ?reqs = "[zero_request, zero_request\<lparr>rq_Type := ListQueuesRequest\<rparr>, zero_request]"
  obtain rs c where d: "do_all ?reqs ?c0 = (rs, c)" by fastforce
  then have rs: "rs = [Inr success, Inr success, Inl ''timeout'']"
    by (auto simp: do_request_def bc_Encode_def bc_Decode_def newBaseClient_def)
  from responses_match_requests [OF d, of 1 success] rs d show ?thesis by simp
qed

subsection \<open>Deliveries\<close>




text \<open>
  The reply to Unsubscribe is read as a message: the consumer's Unsubscribe does not read the
  server's reply, so the next Receive takes it for a delivery and returns a message without
  identifier, payload and token.
\<close>

theorem unsubscribe_reply_read_as_message:
  "case server_reply no_text 7 [] sample_broker sample_conn (last (bc_sent (snd (co_Unsubscribe sample_client)))) of
     None \<Rightarrow> False
   | Some (v, _) \<Rightarrow> fst (co_Receive alive False (newBaseClient ''c1'' (\<lambda>_. None) (\<lambda>_. Inr v))) =
       Inr \<lparr>rm_ID = '''', rm_Payload = '''', rm_AckToken = ''''\<rparr>"
  by code_simp

end
