(* ===== verification/Command_Line.thy ===== *)
theory Command_Line
  imports Client
begin

text \<open>
  The commands of \<open>cmd/dsend\<close>: what each does with its arguments, which call of the client library
  it makes and what it prints. (The server command is modelled with the server.)

  \<open>parse_flags\<close> is the \<open>Parse\<close> method of a \<open>flag.FlagSet\<close> whose flags all take a value; with
  \<open>flag.ExitOnError\<close> a bad flag ends the process with status 2 and a request for help with status 0.
  The environment gives what the operating system and the standard library decide: the outcome of
  dialling an address, the identifier of the client, the context that signals end and the
  meaning of a duration's text. \<open>rn_out\<close> lists the lines written to standard output.
\<close>

subsection \<open>Flags and words\<close>

datatype parsed = Parsed "string gomap" "string list" | FlagError | FlagHelp

definition split_eq :: "string \<Rightarrow> string \<times> string option" where
  "split_eq s =
     (let n = takeWhile (\<lambda>c. c \<noteq> CHR ''='') s
      in (n, if length n = length s then None else Some (drop (Suc (length n)) s)))"

fun parse_flags :: "(string \<times> (string \<Rightarrow> bool)) list \<Rightarrow> string list \<Rightarrow> string gomap \<Rightarrow> parsed" where
  "parse_flags formals [] vals = Parsed vals []"
| "parse_flags formals (s # args) vals =
     (if length s < 2 \<or> hd s \<noteq> CHR ''-'' then Parsed vals (s # args)
      else if s = ''--'' then Parsed vals args
      else
        (let body = (if s ! 1 = CHR ''-'' then drop 2 s else drop 1 s); (n, v) = split_eq body
         in if body = '''' \<or> hd body = CHR ''-'' \<or> hd body = CHR ''='' then FlagError
            else
              (case map_of formals n of
                 None \<Rightarrow> if n = ''help'' \<or> n = ''h'' then FlagHelp else FlagError
               | Some ok \<Rightarrow>
                   (case v of
                      Some value \<Rightarrow> if ok value then parse_flags formals args (gm_put n value vals) else FlagError
                    | None \<Rightarrow>
                        (case args of
                           [] \<Rightarrow> FlagError
                         | value # rest \<Rightarrow>
                             if ok value then parse_flags formals rest (gm_put n value vals) else FlagError)))))"

fun Join :: "string list \<Rightarrow> string \<Rightarrow> string" where
  "Join [] sep = ''''"
| "Join [s] sep = s"
| "Join (s # t # ss) sep = s @ sep @ Join (t # ss) sep"

fun show_nat :: "nat \<Rightarrow> string" where
  "show_nat n = (if n < 10 then [char_of (48 + n)] else show_nat (n div 10) @ [char_of (48 + n mod 10)])"

declare show_nat.simps [simp del]

definition show_int :: "int \<Rightarrow> string" where
  "show_int i = (if i < 0 then CHR ''-'' # show_nat (nat (- i)) else show_nat (nat i))"

definition Println_list :: "string \<Rightarrow> string list \<Rightarrow> string" where
  "Println_list label xs = label @ '' ['' @ Join xs '' '' @ '']''"

subsection \<open>Runs\<close>

record env =
  ev_dial :: "string \<Rightarrow> string + (nat \<Rightarrow> string option) \<times> (nat \<Rightarrow> string + json)"
  ev_uuid :: string
  ev_ctx :: ctx
  ev_closes :: "nat \<Rightarrow> bool"
  ev_duration :: "string \<Rightarrow> int option"

record run =
  rn_err :: "string option"
  rn_out :: "string list"
  rn_client :: "base_client option"
  rn_exit :: "nat option"

definition fails :: "string \<Rightarrow> run" where
  "fails e = \<lparr>rn_err = Some e, rn_out = [], rn_client = None, rn_exit = None\<rparr>"

definition exits :: "nat \<Rightarrow> run" where
  "exits code = \<lparr>rn_err = None, rn_out = [], rn_client = None, rn_exit = Some code\<rparr>"

definition value_of :: "string gomap \<Rightarrow> string \<Rightarrow> string \<Rightarrow> string" where
  "value_of vals name fallback = (case map_of vals name of None \<Rightarrow> fallback | Some v \<Rightarrow> v)"

definition with_flags :: "(string \<times> (string \<Rightarrow> bool)) list \<Rightarrow> string list \<Rightarrow> (string gomap \<Rightarrow> string list \<Rightarrow> run) \<Rightarrow> run" where
  "with_flags formals args body =
     (case parse_flags formals args [] of
        Parsed vals rest \<Rightarrow> body vals rest | FlagError \<Rightarrow> exits 2 | FlagHelp \<Rightarrow> exits 0)"

abbreviation any :: "string \<Rightarrow> bool" where
  "any \<equiv> \<lambda>_. True"

definition default_addr :: string where
  "default_addr = ''127.0.0.1:8080''"

text \<open>\<open>with_producer\<close>: connect, call, print on success; the deferred \<open>Close\<close> runs in either case.\<close>

definition with_producer :: "env \<Rightarrow> string \<Rightarrow> (base_client \<Rightarrow> (string + string list) \<times> base_client) \<Rightarrow> run" where
  "with_producer env addr call =
     (case NewProducer (ev_dial env addr) (ev_uuid env) of
        Inl e \<Rightarrow> fails e
      | Inr c \<Rightarrow>
          (case call c of
             (Inl e, c1) \<Rightarrow> \<lparr>rn_err = Some e, rn_out = [], rn_client = Some (snd (bc_Close None c1)), rn_exit = None\<rparr>
           | (Inr out, c1) \<Rightarrow> \<lparr>rn_err = None, rn_out = out, rn_client = Some (snd (bc_Close None c1)), rn_exit = None\<rparr>))"

definition says :: "string \<Rightarrow> string option \<times> base_client \<Rightarrow> (string + string list) \<times> base_client" where
  "says text r = (case fst r of Some e \<Rightarrow> Inl e | None \<Rightarrow> Inr [text], snd r)"

definition prints :: "('a \<Rightarrow> string list) \<Rightarrow> (string + 'a) \<times> base_client \<Rightarrow> (string + string list) \<times> base_client" where
  "prints f r = (case fst r of Inl e \<Rightarrow> Inl e | Inr x \<Rightarrow> Inr (f x), snd r)"

subsection \<open>Commands\<close>

definition runPublish :: "env \<Rightarrow> string list \<Rightarrow> run" where
  "runPublish env args =
     with_flags [(''exchange'', any), (''ttl'', \<lambda>s. ev_duration env s \<noteq> None), (''routing-key'', any), (''addr'', any)] args
       (\<lambda>vals rest.
          let ttl = (case map_of vals ''ttl'' of None \<Rightarrow> 0 | Some s \<Rightarrow> the (ev_duration env s))
          in if ttl < 0 then fails ''error: --ttl cannot be negative''
             else if length rest < 1 then fails ''missing required <payload> positional argument''
             else with_producer env (value_of vals ''addr'' default_addr) (\<lambda>c.
               says ''Message Sent successfully''
                 (cl_Publish (ev_ctx env) (value_of vals ''exchange'' ''default'') (value_of vals ''routing-key'' ''default'')
                    (Join rest '' '') ttl c)))"

definition runQueue :: "env \<Rightarrow> string list \<Rightarrow> run" where
  "runQueue env args =
     with_flags [(''addr'', any)] args (\<lambda>vals rest.
       let addr = value_of vals ''addr'' default_addr; ctx = ev_ctx env
       in if length rest < 1 then fails ''expected 'create', 'delete', or 'list' subcommand''
          else if rest ! 0 = ''create'' then
            (if length rest < 2 then fails ''missing required <name> positional argument''
             else with_producer env addr (\<lambda>c. says ''Queue created successfully''
               (cl_CreateQueue ctx (Join (drop 1 rest) '' '') c)))
          else if rest ! 0 = ''delete'' then
            (if length rest < 2 then fails ''missing required <name> positional argument''
             else with_producer env addr (\<lambda>c. says ''Queue deleted successfully''
               (cl_DeleteQueue ctx (Join (drop 1 rest) '' '') c)))
          else if rest ! 0 = ''list'' then
            with_producer env addr (\<lambda>c. prints (\<lambda>queues. [Println_list ''Queues:'' queues]) (cl_ListQueues ctx c))
          else if rest ! 0 = ''bind'' then
            (if length rest < 4
             then fails ''missing required <exchangeName>, <queueName>, and <bindingKey> positional arguments''
             else with_producer env addr (\<lambda>c. says ''Queue bounded successfully''
               (cl_BindQueue ctx (rest ! 1) (rest ! 2) (Join (drop 3 rest) '' '') c)))
          else if rest ! 0 = ''unbind'' then
            (if length rest < 4
             then fails ''missing required <exchangeName>, <queueName>, and <bindingKey> positional arguments''
             else with_producer env addr (\<lambda>c. says ''Queue unbounded successfully''
               (cl_UnbindQueue ctx (rest ! 1) (rest ! 2) (Join (drop 3 rest) '' '') c)))
          else fails ''invalid argument'')"

definition runExchange :: "env \<Rightarrow> string list \<Rightarrow> run" where
  "runExchange env args =
     with_flags [(''addr'', any)] args (\<lambda>vals rest.
       let addr = value_of vals ''addr'' default_addr; ctx = ev_ctx env
       in if length rest < 1 then fails ''expected 'create', 'delete', or 'list' subcommand''
          else if rest ! 0 = ''create'' then
            (if length rest < 3 then fails ''missing required <name> and <type> positional arguments''
             else with_producer env addr (\<lambda>c. says ''Exchange created successfully''
               (cl_CreateExchange ctx (rest ! 1) (rest ! 2) c)))
          else if rest ! 0 = ''delete'' then
            (if length rest < 2 then fails ''missing required <name> argument''
             else with_producer env addr (\<lambda>c. says ''Exchange deleted successfully''
               (cl_DeleteExchange ctx (Join (drop 1 rest) '' '') c)))
          else if rest ! 0 = ''list'' then
            with_producer env addr (\<lambda>c. prints (\<lambda>exchanges. [Println_list ''Exchanges:'' exchanges]) (cl_ListExchanges ctx c))
          else fails ''invalid argument'')"

definition printQueueMetrics :: "queue_metric \<Rightarrow> string list" where
  "printQueueMetrics q =
     (let m = qm_Metric q
      in ['''', ''Queue: '' @ qm_Name q, '''', ''ProducedCount: '' @ show_int (ProducedCount m),
          ''QueueDepth: '' @ show_int (QueueDepth m), ''InflightCount: '' @ show_int (InflightCount m),
          ''DlqCount: '' @ show_int (DlqCount m), ''ConsumerSessionCount: '' @ show_int (ConsumerSessionCount m),
          ''AckedCount: '' @ show_int (AckedCount m), ''RedeliveredCount: '' @ show_int (RedeliveredCount m)])"

definition runMetrics :: "env \<Rightarrow> string list \<Rightarrow> run" where
  "runMetrics env args =
     with_flags [(''addr'', any), (''queue'', any)] args (\<lambda>vals rest.
       let queueName = value_of vals ''queue'' ''''
       in with_producer env (value_of vals ''addr'' default_addr) (\<lambda>c.
            if queueName \<noteq> '''' then prints printQueueMetrics (cl_QueueMetrics (ev_ctx env) queueName c)
            else prints (\<lambda>bm. concat (map printQueueMetrics (bm_Queues bm))) (cl_Metrics (ev_ctx env) c)))"

text \<open>
  The loop of \<open>runSubscribe\<close>: one pass looks at the context, receives, prints and acknowledges. The
  \<open>k\<close>-th pass uses the looks \<open>3 * k\<close> and up of the context; \<open>ev_closes k\<close> says whether the watcher of
  its \<open>Receive\<close> closed the connection. The fuel bounds the number of passes; \<open>None\<close> is a loop that
  still runs.
\<close>

definition shown :: "received_message \<Rightarrow> string" where
  "shown m = ''Received message: '' @ rm_Payload m"

fun subscribe_loop :: "nat \<Rightarrow> env \<Rightarrow> nat \<Rightarrow> base_client \<Rightarrow> string list \<Rightarrow> (string option \<times> string list \<times> base_client) option" where
  "subscribe_loop 0 env k c out = None"
| "subscribe_loop (Suc fuel) env k c out =
     (case ev_ctx env (3 * k) of
        Some _ \<Rightarrow> Some (None, out, c)
      | None \<Rightarrow>
          (case co_Receive (\<lambda>n. ev_ctx env (3 * k + 1 + n)) (ev_closes env k) c of
             (Inl e, c1) \<Rightarrow> Some (Some e, out, c1)
           | (Inr m, c1) \<Rightarrow>
               (case co_Ack (rm_AckToken m) c1 of
                  (Some e, c2) \<Rightarrow> Some (Some e, out @ [shown m], c2)
                | (None, c2) \<Rightarrow> subscribe_loop fuel env (k + 1) c2 (out @ [shown m]))))"

definition greeting :: string where
  "greeting = ''Initializing subscription client...''"

definition runSubscribe :: "nat \<Rightarrow> env \<Rightarrow> string list \<Rightarrow> run option" where
  "runSubscribe fuel env args =
     (case parse_flags [(''queue'', any), (''addr'', any)] args [] of
        FlagError \<Rightarrow> Some (exits 2)
      | FlagHelp \<Rightarrow> Some (exits 0)
      | Parsed vals _ \<Rightarrow>
          (let out = [greeting]
           in case NewConsumer (ev_dial env (value_of vals ''addr'' default_addr)) (ev_uuid env) of
                Inl e \<Rightarrow> Some ((fails e)\<lparr>rn_out := out\<rparr>)
              | Inr c \<Rightarrow>
                  (case co_Subscribe (value_of vals ''queue'' ''default'') c of
                     (Some e, c1) \<Rightarrow> Some \<lparr>rn_err = Some e, rn_out = out, rn_client = Some (snd (bc_Close None c1)), rn_exit = None\<rparr>
                   | (None, c1) \<Rightarrow>
                       map_option (\<lambda>(e, out1, c2). \<lparr>rn_err = e, rn_out = out1, rn_client = Some (snd (bc_Close None c2)), rn_exit = None\<rparr>)
                         (subscribe_loop fuel env 0 c1 out))))"

text \<open>
  The server command up to the point where the server accepts: \<open>host\<close> gives the log that a path
  opens and the outcome of listening on an address. An error of \<open>listen\<close> ends the command after the
  broker was started. \<open>Inr\<close> is a server that runs (its steps are those of \<open>sv_exec\<close>), \<open>None\<close> a panic.
\<close>

record host =
  ho_wal :: "string \<Rightarrow> err + file_wal"
  ho_listen :: "string \<Rightarrow> string option"
  ho_os :: "err \<Rightarrow> string"
  ho_order :: "recovered_state \<Rightarrow> (string \<times> exchange_state) list"

definition server_command :: "host \<Rightarrow> (file_wal \<Rightarrow> world) \<Rightarrow> string list \<Rightarrow> (run + server) option" where
  "server_command h world_with args =
     (case parse_flags [(''addr'', any), (''wal'', any)] args [] of
        FlagError \<Rightarrow> Some (Inl (exits 2))
      | FlagHelp \<Rightarrow> Some (Inl (exits 0))
      | Parsed vals _ \<Rightarrow>
          (case ho_wal h (value_of vals ''wal'' ''./data/wal.log'') of
             Inl e \<Rightarrow> Some (Inl (fails (Error (ho_os h) e)))
           | Inr wal \<Rightarrow>
               (case runServer (ho_os h) DefaultConfig (ho_order h) (world_with wal) of
                  None \<Rightarrow> None
                | Some (Inl e) \<Rightarrow> Some (Inl (fails (Error (ho_os h) e)))
                | Some (Inr s) \<Rightarrow>
                    (case ho_listen h (value_of vals ''addr'' default_addr) of
                       Some e \<Rightarrow> Some (Inl (fails e))
                     | None \<Rightarrow> Some (Inr s)))))"

text \<open>
  \<open>main\<close>: the subcommand decides; \<open>log.Fatal\<close> ends the process with status 1. \<open>server\<close> is the outcome
  of the server command with the given arguments, \<open>None\<close> while it serves; \<open>go\<close> is the result of
  \<open>runtime.Version\<close>.
\<close>

record build_info =
  Version :: string
  Commit :: string
  BuildTime :: string

definition default_build :: build_info where
  "default_build = \<lparr>Version = ''dev'', Commit = ''none'', BuildTime = ''unknown''\<rparr>"

definition std_Fatal :: "run \<Rightarrow> run" where
  "std_Fatal r = (if rn_err r = None then r else r\<lparr>rn_exit := Some 1\<rparr>)"

definition main :: "nat \<Rightarrow> (string list \<Rightarrow> run option) \<Rightarrow> build_info \<Rightarrow> string \<Rightarrow> env \<Rightarrow> string list \<Rightarrow> run option" where
  "main fuel server build go env argv =
     (if length argv < 2 then
        Some ((exits 1)\<lparr>rn_out := [''Error: expected 'server', 'publish', 'subscribe', 'queue create/delete/list', 'metrics', or 'version' subcommand'']\<rparr>)
      else if argv ! 1 = ''server'' then map_option std_Fatal (server (drop 2 argv))
      else if argv ! 1 = ''publish'' then Some (std_Fatal (runPublish env (drop 2 argv)))
      else if argv ! 1 = ''subscribe'' then map_option std_Fatal (runSubscribe fuel env (drop 2 argv))
      else if argv ! 1 = ''metrics'' then Some (std_Fatal (runMetrics env (drop 2 argv)))
      else if argv ! 1 = ''queue'' then Some (std_Fatal (runQueue env (drop 2 argv)))
      else if argv ! 1 = ''exchange'' then Some (std_Fatal (runExchange env (drop 2 argv)))
      else if argv ! 1 = ''version'' then
        Some \<lparr>rn_err = None, rn_out = [''dsend '' @ Version build, ''commit: '' @ Commit build, ''built: '' @ BuildTime build,
          ''go: '' @ go], rn_client = None, rn_exit = None\<rparr>
      else Some ((exits 1)\<lparr>rn_out := [''Unknown subcommand: '' @ argv ! 1]\<rparr>))"

subsection \<open>What a command sends\<close>

definition orderly :: "run \<Rightarrow> bool" where
  "orderly r \<longleftrightarrow>
     (case rn_client r of
        None \<Rightarrow> rn_out r = [] \<and> (rn_err r \<noteq> None \<or> rn_exit r \<noteq> None)
      | Some c \<Rightarrow> bc_closed c \<and> length (bc_sent c) \<le> 1 \<and> (rn_err r = None \<longrightarrow> length (bc_sent c) = 1)
          \<and> (rn_err r \<noteq> None \<longrightarrow> rn_out r = []))"

lemma orderly_simps [simp]: "orderly (fails e)" "orderly (exits code)"
  by (simp_all add: orderly_def fails_def exits_def)

lemma with_flags_orderly: "(\<And>vals rest. orderly (body vals rest)) \<Longrightarrow> orderly (with_flags formals args body)"
  by (simp add: with_flags_def split: parsed.splits)

text \<open>A call that sends nothing or one request, and one when it succeeds.\<close>

definition single :: "(base_client \<Rightarrow> (string + 'a) \<times> base_client) \<Rightarrow> bool" where
  "single call \<longleftrightarrow> (\<forall>c r c1. bc_sent c = [] \<longrightarrow> call c = (r, c1) \<longrightarrow>
     length (bc_sent c1) \<le> 1 \<and> ((\<exists>x. r = Inr x) \<longrightarrow> length (bc_sent c1) = 1))"

lemma checked_single: "single (checked ctx req)"
  by (auto simp: single_def checked_def do_request_def bc_Encode_def bc_Decode_def
      split: option.splits sum.splits prod.splits if_splits)

lemma single_wrappers:
  assumes "single call"
  shows "single (\<lambda>c. says text (error_of (call c)))" and "single (\<lambda>c. prints f (result_of g (call c)))"
  using assms by (auto simp: single_def says_def error_of_def prints_def result_of_def split: sum.splits)
    (metis prod.collapse)+

lemma single_methods:
  "single (\<lambda>c. says text (cl_Publish ctx ex key p ttl c))" "single (\<lambda>c. says text (cl_CreateQueue ctx n c))"
  "single (\<lambda>c. says text (cl_DeleteQueue ctx n c))" "single (\<lambda>c. says text (cl_BindQueue ctx ex n key c))"
  "single (\<lambda>c. says text (cl_UnbindQueue ctx ex n key c))" "single (\<lambda>c. says text (cl_CreateExchange ctx ex ty c))"
  "single (\<lambda>c. says text (cl_DeleteExchange ctx ex c))" "single (\<lambda>c. prints f (cl_ListQueues ctx c))"
  "single (\<lambda>c. prints f (cl_ListExchanges ctx c))" "single (\<lambda>c. prints g (cl_Metrics ctx c))"
  "single (\<lambda>c. prints h (cl_QueueMetrics ctx n c))"
  unfolding producer_methods by (intro single_wrappers checked_single)+

lemma single_if: "single f \<Longrightarrow> single g \<Longrightarrow> single (\<lambda>c. if b then f c else g c)"
  by (cases b) simp_all

lemma with_producer_orderly:
  assumes "single call"
  shows "orderly (with_producer env addr call)"
proof (cases "NewProducer (ev_dial env addr) (ev_uuid env)")
  case (Inr c)
  then have "bc_sent c = []" by (auto simp: NewProducer_def newBaseClient_def split: sum.splits)
  moreover obtain r c1 where "call c = (r, c1)" by fastforce
  ultimately have "length (bc_sent c1) \<le> 1 \<and> ((\<exists>x. r = Inr x) \<longrightarrow> length (bc_sent c1) = 1)" "call c = (r, c1)"
    using assms by (auto simp: single_def)
  with Inr show ?thesis by (cases r) (auto simp: with_producer_def orderly_def bc_Close_def)
qed (simp add: with_producer_def)

text \<open>
  C39. The commands publish, queue, exchange and metrics: one that is refused for its flags or
  arguments or cannot connect prints nothing, fails and sends nothing; any other closes its
  connection, sends at most one request, exactly one when it succeeds, and prints a result only
  then.
\<close>

theorem commands_send_one_request:
  "orderly (runPublish env args) \<and> orderly (runQueue env args) \<and> orderly (runExchange env args) \<and> orderly (runMetrics env args)"
proof (intro conjI)
  note p = with_producer_orderly [OF single_methods(1)] with_producer_orderly [OF single_methods(2)]
    with_producer_orderly [OF single_methods(3)] with_producer_orderly [OF single_methods(4)]
    with_producer_orderly [OF single_methods(5)] with_producer_orderly [OF single_methods(6)]
    with_producer_orderly [OF single_methods(7)] with_producer_orderly [OF single_methods(8)]
    with_producer_orderly [OF single_methods(9)] with_producer_orderly [OF single_methods(10)]
    with_producer_orderly [OF single_methods(11)]
  show "orderly (runPublish env args)" unfolding runPublish_def
    by (rule with_flags_orderly) (simp add: Let_def p)
  show "orderly (runQueue env args)" unfolding runQueue_def
    by (rule with_flags_orderly) (simp add: Let_def p)
  show "orderly (runExchange env args)" unfolding runExchange_def
    by (rule with_flags_orderly) (simp add: Let_def p)
  show "orderly (runMetrics env args)" unfolding runMetrics_def Let_def
    by (intro with_flags_orderly with_producer_orderly single_if single_methods)
qed


subsection \<open>The subscriber\<close>

definition ack_of :: "received_message \<Rightarrow> json" where
  "ack_of m = enc_request (zero_request\<lparr>rq_Version := CurrentVersion, rq_Type := AckRequest, rq_AckToken := rm_AckToken m\<rparr>)"

definition subscription :: "string \<Rightarrow> string \<Rightarrow> json" where
  "subscription queueName uuid = enc_request (zero_request\<lparr>rq_Version := CurrentVersion, rq_Type := SubscribeRequest,
     rq_Queue := queueName, rq_ID := uuid\<rparr>)"

definition message_of :: "response \<Rightarrow> received_message" where
  "message_of resp = \<lparr>rm_ID = ID (rs_Message resp), rm_Payload = Payload (rs_Message resp), rm_AckToken = rs_AckToken resp\<rparr>"

text \<open>\<open>arrives dec i m\<close>: the \<open>i\<close>-th value on the connection is a successful response that carries \<open>m\<close>.\<close>

definition arrives :: "(nat \<Rightarrow> string + json) \<Rightarrow> nat \<Rightarrow> received_message \<Rightarrow> bool" where
  "arrives dec i m \<longleftrightarrow> (\<exists>v resp. dec i = Inr v \<and> dec_response v zero_response = Some resp \<and> rs_Success resp \<and> m = message_of resp)"

lemma Receive_message:
  assumes "co_Receive ctx w c = (Inr m, c1)"
  shows "arrives (bc_dec c) (bc_reads c) m" and "bc_reads c1 = bc_reads c + 1" and "bc_dec c1 = bc_dec c"
    and "bc_sent c1 = bc_sent c"
  using assms
  by (auto simp: co_Receive_def bc_Decode_def arrives_def message_of_def split: option.splits sum.splits prod.splits if_splits)

lemma Receive_error:
  assumes "co_Receive ctx w c = (Inl e, c1)"
  shows "bc_sent c1 = bc_sent c" and "bc_dec c1 = bc_dec c"
  using assms by (auto simp: co_Receive_def bc_Decode_def split: option.splits sum.splits prod.splits if_splits)

lemma Ack_sends:
  assumes "co_Ack (rm_AckToken m) c = (r, c1)"
  shows "bc_dec c1 = bc_dec c" and "bc_reads c1 = bc_reads c"
    and "bc_sent c1 = bc_sent c @ (if r = None then [ack_of m] else [])"
  using assms by (cases "bc_encErr c"; auto simp: co_Ack_def bc_Encode_def ack_of_def split: option.splits)+

text \<open>
  \<open>settled e ms sent\<close>: the messages \<open>ms\<close> are acknowledged once each and in order, but for the last
  one if that acknowledgement failed. \<open>consumed c ms\<close>: they are what the connection brings next.
\<close>

definition settled :: "string option \<Rightarrow> received_message list \<Rightarrow> json list \<Rightarrow> bool" where
  "settled e ms sent \<longleftrightarrow> sent = map ack_of ms \<or> e \<noteq> None \<and> ms \<noteq> [] \<and> sent = map ack_of (butlast ms)"

definition consumed :: "base_client \<Rightarrow> received_message list \<Rightarrow> bool" where
  "consumed c ms \<longleftrightarrow> (\<forall>i < length ms. arrives (bc_dec c) (bc_reads c + i) (ms ! i))"

lemma settled_simps [simp]: "settled e [] []" "settled (Some x) [m] []"
  by (simp_all add: settled_def)

lemma settled_Cons: "settled e ms sent \<Longrightarrow> settled e (m # ms) (ack_of m # sent)"
  by (auto simp: settled_def)

lemma consumed_Nil [simp]: "consumed c []"
  by (simp add: consumed_def)

lemma consumed_Cons:
  assumes "arrives (bc_dec c) (bc_reads c) m" and "consumed c2 ms" and "bc_dec c2 = bc_dec c" and "bc_reads c2 = bc_reads c + 1"
  shows "consumed c (m # ms)"
  unfolding consumed_def using assms by (auto simp: consumed_def less_Suc_eq_0_disj)

lemma subscribe_loop_acks:
  assumes "subscribe_loop fuel env k c out = Some (e, out', c')"
  shows "bc_dec c' = bc_dec c \<and> (\<exists>ms sent. out' = out @ map shown ms \<and> consumed c ms
    \<and> bc_sent c' = bc_sent c @ sent \<and> settled e ms sent)"
  using assms
proof (induction fuel arbitrary: k c out)
  case (Suc fuel)
  obtain r c1 where r: "co_Receive (\<lambda>n. ev_ctx env (3 * k + 1 + n)) (ev_closes env k) c = (r, c1)" by fastforce
  consider (ended) "ev_ctx env (3 * k) \<noteq> None" | (failed) x where "ev_ctx env (3 * k) = None" "r = Inl x"
    | (message) m where "ev_ctx env (3 * k) = None" "r = Inr m"
    by (cases "ev_ctx env (3 * k)"; cases r) auto
  then show ?case
  proof cases
    case ended
    with Suc.prems show ?thesis by (intro conjI exI [of _ "[]"]) auto
  next
    case (failed x)
    with Suc.prems r Receive_error [of _ _ c x c1] show ?thesis by (intro conjI exI [of _ "[]"]) auto
  next
    case (message m)
    note m = Receive_message [OF r [unfolded message(2)]]
    obtain a c2 where a: "co_Ack (rm_AckToken m) c1 = (a, c2)" by fastforce
    note s = Ack_sends [OF a]
    show ?thesis
    proof (cases a)
      case (Some x)
      with Suc.prems message r a have "out' = out @ [shown m]" "e = Some x" "c' = c2" by auto
      with Some m s consumed_Cons [of c m c2 "[]"] show ?thesis
        by (intro conjI exI [of _ "[m]"] exI [of _ "[]"]) simp_all
    next
      case None
      with Suc.prems message r a have "subscribe_loop fuel env (k + 1) c2 (out @ [shown m]) = Some (e, out', c')" by simp
      from Suc.IH [OF this] obtain ms sent where ms: "bc_dec c' = bc_dec c2" "out' = out @ [shown m] @ map shown ms"
        "consumed c2 ms" "bc_sent c' = bc_sent c2 @ sent" "settled e ms sent" by auto
      with m s None show ?thesis
        by (intro conjI exI [of _ "m # ms"] exI [of _ "ack_of m # sent"]) (auto intro: settled_Cons consumed_Cons)
    qed
  qed
qed simp

lemma subscribe_loop_returns:
  assumes "ev_ctx env (3 * (k + n)) \<noteq> None"
  shows "\<exists>x. subscribe_loop (Suc n) env k c out = Some x"
  using assms
proof (induction n arbitrary: k c out)
  case (Suc n)
  have "ev_ctx env (3 * (k + 1 + n)) \<noteq> None" using Suc.prems by simp
  from Suc.IH [OF this] show ?case
    by (subst subscribe_loop.simps) (auto simp del: subscribe_loop.simps split: option.splits sum.splits prod.splits)
qed (auto split: option.splits)

lemma Subscribe_sends:
  assumes "co_Subscribe queueName c = (r, c1)"
  shows "bc_dec c1 = bc_dec c" and "bc_reads c1 = bc_reads c"
    and "bc_sent c1 = bc_sent c @ (if r = None then [subscription queueName (bc_id c)] else [])"
  using assms by (cases "bc_encErr c"; auto simp: co_Subscribe_def bc_Encode_def subscription_def split: option.splits)+


definition sample_env :: env where
  "sample_env = \<lparr>ev_dial = (\<lambda>_. Inr (\<lambda>_. None, \<lambda>_. Inr (enc_response (success\<lparr>rs_AckToken := ''t''\<rparr>)))), ev_uuid = ''c1'',
     ev_ctx = (\<lambda>n. if n < 6 then None else Some ''context canceled''), ev_closes = (\<lambda>_. False), ev_duration = (\<lambda>_. None)\<rparr>"


end
