(* ===== verification/Spec2Isabelle.thy ===== *)
theory Spec2Isabelle
  imports Queue_Progress Queue_Shutdown Server_Replies Logger Command_Line
begin

text \<open>
  Verification of dsend, a message broker in Go.

  \<^bold>\<open>The program.\<close> A server process keeps named queues and exchanges. Producers publish to an exchange,
  which routes a message by its key to the bound queues; consumers subscribe to a queue, receive
  deliveries under a token and acknowledge the token. Every change is first appended to a log file
  and fsynced; a restarted server rebuilds its state from that log. Each queue has three goroutines:
  a distributor that reserves a message for the next eligible consumer and sends it, a worker that
  redelivers what was not acknowledged in time, and a worker that removes expired messages. The
  server has a goroutine per connection and one more per subscription. The client library speaks
  JSON over TCP, one value per request and response; the command line is built on it.

  \<^bold>\<open>Theories and sources.\<close>
  \<^item> \<open>Prelude\<close>: the \<open>named_theorems\<close> collections, Go maps as association lists with different keys
    (\<open>gomap\<close>, \<open>gm_put\<close>), rotated lists, options.
  \<^item> \<open>Messages\<close> (\<open>internal/model\<close>, \<open>internal/engine/config.go\<close>): messages, deliveries, log records,
    metrics, the errors as the datatype \<open>err\<close>. \<open>Json_Codec\<close>: their JSON form as values.
  \<^item> \<open>Ring_Buffer\<close> (\<open>internal/queue\<close>), \<open>Inflight_Manager\<close> (\<open>internal/inflight\<close>, \<open>internal/session\<close>),
    \<open>Write_Ahead_Log\<close> (\<open>internal/storage/wal.go\<close>): the parts of a queue.
  \<^item> \<open>Queue_Runtime\<close> (\<open>internal/engine/queue_runtime.go\<close>): the record \<open>queue_runtime\<close> and one function
    per method, over a \<open>world\<close> that holds what is shared: clock, fresh identifiers, log, session
    objects, the broker's map of token owners. \<open>None\<close> is a panic. \<open>Queue_System\<close>: the critical
    sections of the methods and goroutines as events of a state machine, in any interleaving.
  \<^item> \<open>Exchanges\<close> (\<open>internal/exchange\<close>), \<open>Names\<close> (the validation in \<open>mem_broker.go\<close>), \<open>Broker\<close>
    (\<open>internal/engine/mem_broker.go\<close>, \<open>broker.go\<close>), \<open>Broker_System\<close>: the broker's calls and the
    turns of all its goroutines as one state machine over one world.
  \<^item> \<open>Protocol\<close> (\<open>internal/protocol\<close>), \<open>Connection_Handler\<close> (\<open>internal/server/handler.go\<close>),
    \<open>Tcp_Server\<close> (\<open>internal/server/tcp.go\<close>, \<open>cmd/dsend/server.go\<close>): the wire format, the two
    goroutines of a connection, the accept loop, tracking of connections and shutdown.
  \<^item> \<open>Client\<close> (\<open>client\<close>), \<open>Command_Line\<close> (\<open>cmd/dsend\<close>), \<open>Logger\<close> (\<open>internal/logger\<close>).

  \<^bold>\<open>Interfaces.\<close> Each locale states what its client relies on and is interpreted on the model:
  \<^item> \<open>bounded_queue\<close> (\<open>rb\<close>), \<open>dead_letter_queue\<close> (\<open>dl\<close>), \<open>in_flight\<close> (\<open>ifm\<close>): the Go interfaces that
    the queue runtime is written against.
  \<^item> \<open>log_store\<close> (\<open>wal\<close>): a successful append extends what \<open>Load\<close> recovers by the record's effect.
  \<^item> \<open>exchange_interface\<close> (\<open>dir\<close>, \<open>fan\<close>, \<open>top\<close>, \<open>exc\<close>): routing, binding and unbinding.
  \<^item> \<open>atomic_invariant\<close>: an invariant of a queue is shown once per kind of atomic transition
    (put, take, return, ack, drop, bury, requeue, and so on) and holds in every interleaving
    (\<open>Atomic_Steps\<close> takes every event apart into these). Interpreted for durability, accounting,
    token registry, prefetch limit, causes of dead-lettering, shutdown and the effect of a queue on
    the rest of the broker.
  \<^item> \<open>system_invariant\<close> (\<open>brk\<close>, \<open>bdu\<close>): the same for the broker, extended in \<open>Tcp_Server\<close> to the
    broker under a running server.
  \<^item> \<open>request_server\<close> (\<open>srv\<close>): what the client library relies on, provided by the connection
    handler; \<open>connection_invariant\<close> (\<open>replies\<close>): a property of a connection that all its events keep.

  \<^bold>\<open>What is shown.\<close>
  \<^item> Queues (\<open>Queue_Invariants\<close>, \<open>Queue_Loops\<close>, \<open>Queue_Properties\<close>, \<open>Queue_Delivery\<close>, \<open>Queue_Order\<close>,
    \<open>Queue_Progress\<close>, \<open>Queue_Shutdown\<close>): in every interleaving no panic, the log replays to exactly the
    live messages, the counters account for every message, tokens lead to their queue, the prefetch
    limit holds, dead letters have a cause, no wake-up is lost; delivery is first-in first-out and
    round robin; an acknowledgement settles a message once; the distributor ends after a shutdown.
  \<^item> Broker (\<open>Broker_Topology\<close>, \<open>Broker_Calls\<close>, \<open>Broker_Effects\<close>, \<open>Broker_Recovery\<close>,
    \<open>Broker_Durability\<close>, \<open>Broker_Properties\<close>, \<open>Broker_Functional\<close>): references stay intact, no panic,
    a restart restores queues, exchanges, bindings and messages; what publishing, deleting and the
    metrics do; a rejected call changes nothing; the topic matcher agrees with its recursive
    definition; which names and keys are accepted.
  \<^item> Server and client (\<open>Server_Properties\<close>, \<open>Server_Replies\<close>, \<open>Client\<close>, \<open>Command_Line\<close>): the server
    refines the broker's interface, never panics, releases its connections, winds up after a
    signal; its replies are well formed and read back; a producer's call returns what the broker
    returned, responses stay in step with requests, deliveries reach the consumer; the commands
    send one request and the subscriber acknowledges what it prints.
  \<^item> In this theory: a message that was reported as published survives a crash, from the client
    library through the server to the log and the next process.

  \<^bold>\<open>Hypotheses.\<close> \<open>b_safe\<close> asks that a reservation is cancelled only while it is in flight and its
  queue has room; the code does not guarantee this, and \<open>cancel_loses_a_message\<close> and
  \<open>cancel_duplicates_a_message\<close> show what happens otherwise. \<open>b_fresh\<close> adds that a published
  identifier is not that of a live message of the same queue. \<open>good_start\<close> is a log on a disk that
  works, from which \<open>Load\<close> recovers a state a broker could have logged. The theorems on the log
  itself cover failing, partial and short writes and failing fsyncs.

  \<^bold>\<open>Loops and fuel.\<close> The methods' loops are total functions: \<open>next_loop\<close> counts down the number of
  consumers, as the Go loop does; \<open>deadLetterExpiredMessages\<close> terminates because the buffer shrinks.
  \<open>Handle\<close> visits three handlers at most, and \<open>logger_writes\<close> shows that this is enough.
  \<open>subscribe_loop\<close> takes the number of passes, and \<open>subscriber_acknowledges_each\<close> shows that one
  more than the pass at which the context ends is enough. Goroutines are state machines, without
  fuel.

  \<^bold>\<open>Runs that show defects.\<close> Besides the two above: \<open>resubscribing_exceeds_prefetch\<close>,
  \<open>burying_loses_a_wakeup\<close>, \<open>default_exchange_bindings_lost\<close>, \<open>interrupted_delete_blocks_recovery\<close>,
  \<open>failed_delete_closes_queue\<close>, \<open>double_binding_loses_message\<close>, \<open>blocked_publisher_holds_server\<close>,
  \<open>same_identifier_unsubscribes_other\<close>, \<open>unsubscribe_reply_read_as_message\<close>,
  \<open>hash_in_routing_key_not_matched\<close>.

  \<^bold>\<open>Not modelled.\<close> The text of JSON (values of the type \<open>json\<close> stand for it; a torn write is a chunk
  that does not parse) and \<open>JsonFormatter\<close>, which has no caller; sockets, the file system, signals
  and the clock, whose outcomes are parameters; \<open>fmt.Sprintf\<close> and the parsing of a duration flag
  (floating-point), which are arguments; the log messages that the engine and the server print; the
  wait for the goroutines in the broker's \<open>Shutdown\<close>; \<open>RingBufferQueue.String\<close> and
  \<open>FileAppender.Close\<close>, which have no caller. Integers are unbounded: counters, capacities and
  times stay far below the 64-bit limit.
\<close>

subsection \<open>From the producer to the next process\<close>

text \<open>A producer's publish over a connection of a running server, in terms of the broker.\<close>

lemma publish_call:
  assumes "healthy cn" and "ready ctx c" and "Publish ex key (zero_message\<lparr>Payload := p\<rparr>) ttl b = Some (PubDone None, b')"
  shows "against (server_reply os sess names b cn) (cl_Publish ctx ex key p ttl) c = Some (None, b')"
  unfolding producer_methods srv.error_call [OF assms(2) serves_request(1) [OF assms(1,3)]]
  by (simp add: status_def)

lemma publish_durable_call:
  assumes "broker_durable (bs_broker bs)" and "b_fresh (CallPublish ex key (zero_message\<lparr>Payload := p\<rparr>) ttl) bs"
    and "healthy cn" and "ready ctx c" and "\<not> b_closed (bs_broker bs)" and "map_of (b_exchanges (bs_broker bs)) ex = Some e"
    and "ex_Route key e \<noteq> []" and "distinct (ex_Route key e)" and "\<forall>n \<in> set (ex_Route key e). accepting (bs_broker bs) n"
  shows "\<exists>b'. against (server_reply os sess names (bs_broker bs) cn) (cl_Publish ctx ex key p ttl) c = Some (None, b')
    \<and> broker_durable b'
    \<and> (\<forall>n \<in> set (ex_Route key e). \<exists>ms m. contents b' n = Some (ms @ [m]) \<and> stamped (zero_message\<lparr>Payload := p\<rparr>) ttl m)"
proof -
  let ?m = "zero_message\<lparr>Payload := p\<rparr>"
  from publish_loop_reaches [OF broker_durableD(1) [OF assms(1)] assms(5,8,9), of ?m ttl] assms(6,7)
  obtain b' where p: "Publish ex key ?m ttl (bs_broker bs) = Some (PubDone None, b')"
    and q: "\<forall>n \<in> set (ex_Route key e). \<exists>ms m. contents b' n = Some (ms @ [m]) \<and> stamped ?m ttl m"
    by (auto simp: Publish_def) blast
  from publish_call [OF assms(3,4) p] Publish_durable [OF assms(1,2) p] q show ?thesis by blast
qed

lemma server_durable:
  assumes "good_start order w st" and "runServer os cfg order w = Some (Inr s0)"
    and "\<And>n. distinct (map ID (pending n st))" and "sv_reaches b_fresh s0 s"
  shows "broker_durable (bs_broker (sv_sys s))"
proof -
  from runServer_ok(2) [OF assms(1,2)] obtain b where b: "NewBroker cfg order w = Some (Some b, None)"
    "s0 = New os (booted (Start b))" "conns_wf s0" by blast
  have "broker_durable (bs_broker (booted b))" by (rule booted_durable [OF assms(1) b(1) assms(3)])
  then have "broker_durable (bs_broker (booted (Start b)))"
    by (rule event_durable [where ev = CallStart]) (simp_all add: b_fresh_def b_safe_def booted_def)
  with bdu.served_keep [OF assms(4) _ b(3)] b(2) show ?thesis by (simp add: New_def)
qed


text \<open>A server with one connection, whose handler is about to read.\<close>

definition sample_connected :: "server_event list" where
  "sample_connected = connects 0 @ [Conn 0 CheckContext]"

lemma sample_connected_runs:
  "\<exists>s. sv_trace b_fresh sample_connected sample_server = Some s \<and> (\<exists>cn. sv_conns s 0 = Some cn \<and> healthy cn)
     \<and> b_fresh (CallPublish ''default'' ''default'' (zero_message\<lparr>Payload := ''hello''\<rparr>) 5) (sv_sys s)
     \<and> \<not> b_closed (bs_broker (sv_sys s)) \<and> accepting (bs_broker (sv_sys s)) ''default''
     \<and> (\<exists>e. map_of (b_exchanges (bs_broker (sv_sys s))) ''default'' = Some e \<and> ex_Route ''default'' e = [''default''])"
  unfolding case_Some_iff [symmetric] by code_simp


end
